(* ===== verification/Prelude.thy ===== *)
theory Prelude
  imports Complex_Main "HOL-Library.Word" "HOL-Library.Multiset" "HOL-Library.State_Monad"
begin

section \<open>Shared types, weakest preconditions and multiset lemmas\<close>

text \<open>
  What the component theories share.  C pointers are integers with \<open>NULL\<close> as 0 and
  \<open>MAP_FAILED\<close> as -1; C functions with side effects are computations of
  \<^typ>\<open>('s, 'a) state\<close> (HOL-Library.State\_Monad), whose state is the log of external calls
  (theory \<open>Extern\<close>); a struct that a function changes through a pointer is an argument and
  a part of the result.

  Reasoning is by weakest preconditions: \<open>wp m Q s\<close> says that running \<open>m\<close> from \<open>s\<close>
  gives a result and a state that satisfy \<open>Q\<close>.  The rewrite rules of \<open>wp\<close> for the
  monad's own combinators are collected in \<open>wp_simps\<close>; the specification of each operation
  is stated as an introduction rule for \<open>wp\<close> and collected in \<open>wp_intros\<close>.
\<close>

type_synonym ptr = int
type_synonym u32 = "32 word"
type_synonym u64 = "64 word"

abbreviation (input) NULL :: ptr where "NULL \<equiv> 0"
abbreviation (input) MAP_FAILED :: ptr where "MAP_FAILED \<equiv> -1"

named_theorems wp_simps \<open>weakest preconditions of the monad's combinators\<close>
named_theorems wp_intros \<open>specifications of operations, as rules for wp\<close>

subsection \<open>Weakest preconditions for the state monad\<close>

abbreviation ret_m :: "'a \<Rightarrow> ('s, 'a) state" where
  "ret_m \<equiv> State_Monad.return"

definition wp :: "('s, 'a) state \<Rightarrow> ('a \<Rightarrow> 's \<Rightarrow> bool) \<Rightarrow> 's \<Rightarrow> bool" where
  "wp m Q s \<longleftrightarrow> (case run_state m s of (a, s') \<Rightarrow> Q a s')"

lemma wp_return [wp_simps]: "wp (ret_m a) Q = Q a"
  by (simp add: wp_def fun_eq_iff)

lemma wp_bind [wp_simps]: "wp (State_Monad.bind m f) Q = wp m (\<lambda>a. wp (f a) Q)"
  by (simp add: wp_def fun_eq_iff split: prod.splits)

lemma wp_if [wp_simps]: "wp (if b then m else n) Q s = (if b then wp m Q s else wp n Q s)"
  by simp

lemma ifI: "(b \<Longrightarrow> P) \<Longrightarrow> (\<not> b \<Longrightarrow> Q) \<Longrightarrow> if b then P else Q"
  by simp

lemma wp_case_prod [wp_simps]: "wp (case x of (a, b) \<Rightarrow> f a b) Q = wp (f (fst x) (snd x)) Q"
  by (cases x) simp

lemma wp_Let [wp_simps]: "wp (let x = t in f x) Q = wp (f t) Q"
  by (simp add: Let_def)

lemma wp_mono: "wp m Q s \<Longrightarrow> (\<And>a s'. Q a s' \<Longrightarrow> R a s') \<Longrightarrow> wp m R s"
  by (auto simp: wp_def)

lemma wp_any: "(\<And>a s'. Q a s') \<Longrightarrow> wp m Q s"
  by (auto simp: wp_def split: prod.splits)

lemma wp_conj: "wp m Q s \<Longrightarrow> wp m R s \<Longrightarrow> wp m (\<lambda>a s'. Q a s' \<and> R a s') s"
  by (auto simp: wp_def)

lemma wp_run: "wp m Q s \<Longrightarrow> run_state m s = (a, s') \<Longrightarrow> Q a s'"
  by (simp add: wp_def)

lemma wpI: "(\<And>a s'. run_state m s = (a, s') \<Longrightarrow> Q a s') \<Longrightarrow> wp m Q s"
  by (auto simp: wp_def split: prod.splits)

subsection \<open>Loops over arrays and lists of structs\<close>

text \<open>
  \<open>map_m f xs\<close> runs \<open>f\<close> on the elements of \<open>xs\<close> in order and collects the changed
  elements: a C loop that applies a function to every struct of an array or list.
\<close>

fun map_m :: "('a \<Rightarrow> ('s, 'b) state) \<Rightarrow> 'a list \<Rightarrow> ('s, 'b list) state" where
  "map_m f [] = ret_m []"
| "map_m f (x # xs) = do { y \<leftarrow> f x; ys \<leftarrow> map_m f xs; ret_m (y # ys) }"

subsection \<open>Sums over a list, one element set apart\<close>

definition rest :: "('a \<Rightarrow> 'b multiset) \<Rightarrow> 'a list \<Rightarrow> nat \<Rightarrow> 'b multiset" where
  "rest f xs i = sum_list (map f (take i xs)) + sum_list (map f (drop (Suc i) xs))"

lemma sum_list_rest:
  assumes "i < length xs"
  shows "sum_list (map f xs) = f (xs ! i) + rest f xs i"
proof -
  have "sum_list (map f xs) = sum_list (map f (take i xs @ xs ! i # drop (Suc i) xs))"
    using assms by (simp add: id_take_nth_drop [symmetric])
  then show ?thesis by (simp only: map_append list.map sum_list_append sum_list.Cons rest_def add_ac)
qed

lemma rest_update [simp]: "rest f (xs[i := x]) i = rest f xs i"
  by (simp add: rest_def)

subsection \<open>Multisets\<close>

lemma subseteq_mset_add_left [simp]: "A \<subseteq># A + B"
  by simp

lemma single_subset_iff_member [simp]: "{#x#} \<subseteq># M \<longleftrightarrow> x \<in># M"
  by simp

end
