(* ===== verification/Extern.thy ===== *)
theory Extern
  imports Prelude
begin

section \<open>The environment: external calls, their log, and resource accounting\<close>

text \<open>
  Everything kirilock calls but does not contain (libwayland, the wrappers that wayland-scanner
  generates, cairo, the kernel and libc) is a parameter of the model.  A computation extends a
  \<^emph>\<open>log\<close> of external calls, most recent first, each with the value it returned.  The
  parameter \<open>env\<close> answers a call from the log so far, so that every behaviour of the
  libraries is some \<open>env\<close>; \<open>deliver\<close> is the list of Wayland events that a dispatching
  call hands to the program's listeners.

  The second half reads the log as a ledger.  \<open>acquires\<close>, \<open>releases\<close> and \<open>uses\<close>
  say which resources a call creates, gives back and needs; \<open>live\<close> is the multiset of
  resources held after a log and \<open>safe\<close> says that every call of the log used only resources
  that were live at the time: no use after free, no double free, no null proxy.
  \<open>env_ok\<close> is what the libraries document about the values they return.
\<close>

subsection \<open>Calls\<close>

datatype wl_event =
    EvGlobal u32 string u32         \<comment> \<open>wl\_registry.global: name, interface, version\<close>
  | EvGlobalRemove u32              \<comment> \<open>wl\_registry.global\_remove\<close>
  | EvLocked                        \<comment> \<open>ext\_session\_lock\_v1.locked\<close>
  | EvFinished                      \<comment> \<open>ext\_session\_lock\_v1.finished\<close>
  | EvConfigure ptr u32 u32 u32     \<comment> \<open>lock surface configure: surface, serial, width, height\<close>
  | EvFrameDone ptr u32             \<comment> \<open>wl\_callback.done of a surface's frame callback\<close>
  | EvRelease ptr nat               \<comment> \<open>wl\_buffer.release of a surface's buffer\<close>
  | EvScale ptr int                 \<comment> \<open>wl\_output.scale of a surface's output\<close>
  | EvGeometry ptr                  \<comment> \<open>wl\_output.geometry\<close>
  | EvMode ptr                      \<comment> \<open>wl\_output.mode\<close>
  | EvDone ptr                      \<comment> \<open>wl\_output.done\<close>

datatype display_call =
    wl_display_connect
  | wl_display_get_registry ptr
  | wl_display_roundtrip ptr
  | wl_display_dispatch ptr
  | wl_display_dispatch_pending ptr
  | wl_display_prepare_read ptr
  | wl_display_read_events ptr
  | wl_display_cancel_read ptr
  | wl_display_flush ptr
  | wl_display_get_fd ptr
  | wl_display_disconnect ptr
  | wl_registry_add_listener ptr
  | wl_registry_bind ptr u32 string int
  | wl_registry_destroy ptr

datatype proxy_call =
    wl_compositor_create_surface ptr
  | wl_compositor_destroy ptr
  | wl_shm_create_pool ptr int int
  | wl_shm_destroy ptr
  | wl_shm_pool_create_buffer ptr int int int int
  | wl_shm_pool_destroy ptr
  | wl_buffer_add_listener ptr
  | wl_buffer_destroy ptr
  | wl_output_add_listener ptr
  | wl_output_get_version ptr
  | wl_output_release ptr
  | wl_output_destroy ptr
  | wl_surface_set_buffer_scale ptr int
  | wl_surface_attach ptr ptr
  | wl_surface_damage ptr int int int int
  | wl_surface_frame ptr
  | wl_surface_commit ptr
  | wl_surface_destroy ptr
  | wl_callback_add_listener ptr
  | wl_callback_destroy ptr

datatype lock_call =
    ext_session_lock_manager_v1_lock ptr
  | ext_session_lock_manager_v1_destroy ptr
  | ext_session_lock_v1_add_listener ptr
  | ext_session_lock_v1_get_lock_surface ptr ptr ptr
  | ext_session_lock_v1_unlock_and_destroy ptr
  | ext_session_lock_v1_destroy ptr
  | ext_session_lock_surface_v1_add_listener ptr
  | ext_session_lock_surface_v1_ack_configure ptr u32
  | ext_session_lock_surface_v1_destroy ptr

datatype cairo_operator = CAIRO_OPERATOR_SOURCE | CAIRO_OPERATOR_OVER

datatype cairo_call =
    cairo_format_stride_for_width int
  | cairo_image_surface_create int int
  | cairo_image_surface_create_for_data ptr int int int
  | cairo_surface_status ptr
  | cairo_surface_flush ptr
  | cairo_surface_destroy ptr
  | cairo_create ptr
  | cairo_status ptr
  | cairo_destroy ptr
  | cairo_pattern_create_for_surface ptr
  | cairo_pattern_status ptr
  | cairo_pattern_destroy ptr
  | cairo_draw ptr cairo_op
  | cairo_debug_reset_static_data
and cairo_op =
    cairo_identity_matrix
  | cairo_scale real real
  | cairo_translate real real
  | cairo_save
  | cairo_restore
  | cairo_set_operator cairo_operator
  | cairo_set_line_width real
  | cairo_set_source_rgb real real real
  | cairo_set_source_rgba real real real real
  | cairo_set_source ptr
  | cairo_arc real real real real real
  | cairo_stroke
  | cairo_fill
  | cairo_paint

datatype sys_call =
    sys_calloc
  | sys_free ptr
  | sys_memfd_create
  | sys_ftruncate int int
  | sys_add_seals int
  | sys_close int
  | sys_mmap u64 int
  | sys_munmap ptr u64
  | sys_clock_gettime
  | sys_epoll_create1
  | sys_epoll_ctl_add int int
  | sys_epoll_wait int

datatype call =
    Disp display_call
  | Wl proxy_call
  | Lk lock_call
  | Cr cairo_call
  | Sys sys_call
  | Ev wl_event   \<comment> \<open>not a call: an event that reached a listener\<close>

type_synonym log = "(call \<times> int) list"

text \<open>
  \<open>ret\<close> is the value a call returns, \<open>deliver\<close> the events a dispatching call hands to
  listeners, \<open>clock\<close> the timespec of clock\_gettime (seconds, nanoseconds), \<open>errno_of\<close>
  the value of errno and \<open>ready\<close> what epoll\_wait stores (file descriptor, event mask), each
  after the log whose first entry is the call.
\<close>

record env =
  ret :: "log \<Rightarrow> call \<Rightarrow> int"
  deliver :: "log \<Rightarrow> wl_event list"
  clock :: "log \<Rightarrow> int \<times> int"
  errno_of :: "log \<Rightarrow> int"
  ready :: "log \<Rightarrow> (int \<times> u32) list"

definition ext :: "env \<Rightarrow> call \<Rightarrow> (log, int) state" where
  "ext E c = State (\<lambda>h. (ret E h c, (c, ret E h c) # h))"

text \<open>Reading what a call stored beside its result: the clock, errno, the events.\<close>

definition peek :: "(log \<Rightarrow> 'a) \<Rightarrow> (log, 'a) state" where
  "peek f = State (\<lambda>h. (f h, h))"

abbreviation disp :: "env \<Rightarrow> display_call \<Rightarrow> (log, int) state" where
  "disp E c \<equiv> ext E (Disp c)"
abbreviation wl :: "env \<Rightarrow> proxy_call \<Rightarrow> (log, int) state" where
  "wl E c \<equiv> ext E (Wl c)"
abbreviation lk :: "env \<Rightarrow> lock_call \<Rightarrow> (log, int) state" where
  "lk E c \<equiv> ext E (Lk c)"
abbreviation cairo :: "env \<Rightarrow> cairo_call \<Rightarrow> (log, int) state" where
  "cairo E c \<equiv> ext E (Cr c)"
abbreviation sys :: "env \<Rightarrow> sys_call \<Rightarrow> (log, int) state" where
  "sys E c \<equiv> ext E (Sys c)"

subsection \<open>Resources\<close>

datatype resource =
    Display ptr | Proxy ptr | CSurface ptr | CContext ptr | CPattern ptr
  | Mapping ptr | Fd int | Heap ptr

text \<open>\<open>own k p\<close>: what holding the pointer \<open>p\<close> of kind \<open>k\<close> amounts to; a null pointer
  holds nothing.\<close>

definition own :: "(ptr \<Rightarrow> resource) \<Rightarrow> ptr \<Rightarrow> resource multiset" where
  "own k p = (if p = NULL then {#} else {#k p#})"

fun acquires :: "call \<Rightarrow> int \<Rightarrow> resource multiset" where
  "acquires (Disp c) r =
     (case c of wl_display_connect \<Rightarrow> own Display r
      | wl_display_get_registry _ \<Rightarrow> own Proxy r
      | wl_registry_bind _ _ _ _ \<Rightarrow> own Proxy r
      | _ \<Rightarrow> {#})"
| "acquires (Wl c) r =
     (case c of wl_compositor_create_surface _ \<Rightarrow> own Proxy r
      | wl_shm_create_pool _ _ _ \<Rightarrow> own Proxy r
      | wl_shm_pool_create_buffer _ _ _ _ _ \<Rightarrow> own Proxy r
      | wl_surface_frame _ \<Rightarrow> own Proxy r
      | _ \<Rightarrow> {#})"
| "acquires (Lk c) r =
     (case c of ext_session_lock_manager_v1_lock _ \<Rightarrow> own Proxy r
      | ext_session_lock_v1_get_lock_surface _ _ _ \<Rightarrow> own Proxy r
      | _ \<Rightarrow> {#})"
| "acquires (Cr c) r =
     (case c of cairo_image_surface_create _ _ \<Rightarrow> own CSurface r
      | cairo_image_surface_create_for_data _ _ _ _ \<Rightarrow> own CSurface r
      | cairo_create _ \<Rightarrow> own CContext r
      | cairo_pattern_create_for_surface _ \<Rightarrow> own CPattern r
      | _ \<Rightarrow> {#})"
| "acquires (Sys c) r =
     (case c of sys_calloc \<Rightarrow> own Heap r
      | sys_memfd_create \<Rightarrow> (if r < 0 then {#} else {#Fd r#})
      | sys_epoll_create1 \<Rightarrow> (if r < 0 then {#} else {#Fd r#})
      | sys_mmap _ _ \<Rightarrow> (if r = MAP_FAILED then {#} else {#Mapping r#})
      | _ \<Rightarrow> {#})"
| "acquires (Ev _) r = {#}"

fun releases :: "call \<Rightarrow> resource multiset" where
  "releases (Disp c) =
     (case c of wl_display_disconnect d \<Rightarrow> {#Display d#}
      | wl_registry_destroy p \<Rightarrow> {#Proxy p#}
      | _ \<Rightarrow> {#})"
| "releases (Wl c) =
     (case c of wl_compositor_destroy p \<Rightarrow> {#Proxy p#}
      | wl_shm_destroy p \<Rightarrow> {#Proxy p#}
      | wl_shm_pool_destroy p \<Rightarrow> {#Proxy p#}
      | wl_buffer_destroy p \<Rightarrow> {#Proxy p#}
      | wl_output_release p \<Rightarrow> {#Proxy p#}
      | wl_output_destroy p \<Rightarrow> {#Proxy p#}
      | wl_surface_destroy p \<Rightarrow> {#Proxy p#}
      | wl_callback_destroy p \<Rightarrow> {#Proxy p#}
      | _ \<Rightarrow> {#})"
| "releases (Lk c) =
     (case c of ext_session_lock_manager_v1_destroy p \<Rightarrow> {#Proxy p#}
      | ext_session_lock_v1_unlock_and_destroy p \<Rightarrow> {#Proxy p#}
      | ext_session_lock_v1_destroy p \<Rightarrow> {#Proxy p#}
      | ext_session_lock_surface_v1_destroy p \<Rightarrow> {#Proxy p#}
      | _ \<Rightarrow> {#})"
| "releases (Cr c) =
     (case c of cairo_surface_destroy p \<Rightarrow> {#CSurface p#}
      | cairo_destroy p \<Rightarrow> {#CContext p#}
      | cairo_pattern_destroy p \<Rightarrow> {#CPattern p#}
      | _ \<Rightarrow> {#})"
| "releases (Sys c) =
     (case c of sys_free p \<Rightarrow> {#Heap p#}
      | sys_close fd \<Rightarrow> {#Fd fd#}
      | sys_munmap p _ \<Rightarrow> {#Mapping p#}
      | _ \<Rightarrow> {#})"
| "releases (Ev _) = {#}"

text \<open>The resources a call works on but does not give back.\<close>

fun needs :: "call \<Rightarrow> resource set" where
  "needs (Disp c) =
     (case c of wl_display_connect \<Rightarrow> {}
      | wl_display_get_registry d \<Rightarrow> {Display d}
      | wl_display_roundtrip d \<Rightarrow> {Display d}
      | wl_display_dispatch d \<Rightarrow> {Display d}
      | wl_display_dispatch_pending d \<Rightarrow> {Display d}
      | wl_display_prepare_read d \<Rightarrow> {Display d}
      | wl_display_read_events d \<Rightarrow> {Display d}
      | wl_display_cancel_read d \<Rightarrow> {Display d}
      | wl_display_flush d \<Rightarrow> {Display d}
      | wl_display_get_fd d \<Rightarrow> {Display d}
      | wl_registry_add_listener p \<Rightarrow> {Proxy p}
      | wl_registry_bind p _ _ _ \<Rightarrow> {Proxy p}
      | _ \<Rightarrow> {})"
| "needs (Wl c) =
     (case c of wl_compositor_create_surface p \<Rightarrow> {Proxy p}
      | wl_shm_create_pool p fd _ \<Rightarrow> {Proxy p, Fd fd}
      | wl_shm_pool_create_buffer p _ _ _ _ \<Rightarrow> {Proxy p}
      | wl_buffer_add_listener p \<Rightarrow> {Proxy p}
      | wl_output_add_listener p \<Rightarrow> {Proxy p}
      | wl_output_get_version p \<Rightarrow> {Proxy p}
      | wl_surface_set_buffer_scale p _ \<Rightarrow> {Proxy p}
      | wl_surface_attach p b \<Rightarrow> {Proxy p, Proxy b}
      | wl_surface_damage p _ _ _ _ \<Rightarrow> {Proxy p}
      | wl_surface_frame p \<Rightarrow> {Proxy p}
      | wl_surface_commit p \<Rightarrow> {Proxy p}
      | wl_callback_add_listener p \<Rightarrow> {Proxy p}
      | _ \<Rightarrow> {})"
| "needs (Lk c) =
     (case c of ext_session_lock_manager_v1_lock p \<Rightarrow> {Proxy p}
      | ext_session_lock_v1_add_listener p \<Rightarrow> {Proxy p}
      | ext_session_lock_v1_get_lock_surface p s w \<Rightarrow> {Proxy p, Proxy s, Proxy w}
      | ext_session_lock_surface_v1_add_listener p \<Rightarrow> {Proxy p}
      | ext_session_lock_surface_v1_ack_configure p _ \<Rightarrow> {Proxy p}
      | _ \<Rightarrow> {})"
| "needs (Cr c) =
     (case c of cairo_image_surface_create_for_data p _ _ _ \<Rightarrow> {Mapping p}
      | cairo_surface_status p \<Rightarrow> {CSurface p}
      | cairo_surface_flush p \<Rightarrow> {CSurface p}
      | cairo_create p \<Rightarrow> {CSurface p}
      | cairo_status p \<Rightarrow> {CContext p}
      | cairo_pattern_create_for_surface p \<Rightarrow> {CSurface p}
      | cairo_pattern_status p \<Rightarrow> {CPattern p}
      | cairo_draw p (cairo_set_source q) \<Rightarrow> {CContext p, CPattern q}
      | cairo_draw p _ \<Rightarrow> {CContext p}
      | _ \<Rightarrow> {})"
| "needs (Sys c) =
     (case c of sys_ftruncate fd _ \<Rightarrow> {Fd fd}
      | sys_add_seals fd \<Rightarrow> {Fd fd}
      | sys_mmap _ fd \<Rightarrow> {Fd fd}
      | sys_epoll_ctl_add fd _ \<Rightarrow> {Fd fd}
      | sys_epoll_wait fd \<Rightarrow> {Fd fd}
      | _ \<Rightarrow> {})"
| "needs (Ev _) = {}"

definition permitted :: "resource multiset \<Rightarrow> call \<Rightarrow> bool" where
  "permitted L c \<longleftrightarrow> releases c \<subseteq># L \<and> needs c \<subseteq> set_mset L"

definition transfer :: "resource multiset \<Rightarrow> call \<Rightarrow> int \<Rightarrow> resource multiset" where
  "transfer L c r = L - releases c + acquires c r"

fun live :: "log \<Rightarrow> resource multiset" where
  "live [] = {#}"
| "live ((c, r) # h) = transfer (live h) c r"

fun safe :: "log \<Rightarrow> bool" where
  "safe [] = True"
| "safe ((c, r) # h) = (safe h \<and> permitted (live h) c)"

text \<open>
  \<open>ret_ok\<close>: what the libraries document about a result.  cairo's constructors never return
  a null pointer (a failed one returns a ``nil'' object whose status is an error); mmap without
  \<open>MAP_FIXED\<close> never returns address 0; a C \<open>int\<close> is within its 32 bits.
\<close>

definition ret_ok :: "call \<Rightarrow> int \<Rightarrow> bool" where
  "ret_ok c r =
     (case c of
        Cr (cairo_image_surface_create _ _) \<Rightarrow> r \<noteq> NULL
      | Cr (cairo_image_surface_create_for_data _ _ _ _) \<Rightarrow> r \<noteq> NULL
      | Cr (cairo_create _) \<Rightarrow> r \<noteq> NULL
      | Cr (cairo_pattern_create_for_surface _) \<Rightarrow> r \<noteq> NULL
      | Cr (cairo_format_stride_for_width _) \<Rightarrow> - (2 ^ 31) \<le> r \<and> r < 2 ^ 31
      | Sys (sys_mmap _ _) \<Rightarrow> r \<noteq> NULL
      | _ \<Rightarrow> True)"

definition env_ok :: "env \<Rightarrow> bool" where
  "env_ok E \<longleftrightarrow> (\<forall>h c. ret_ok c (ret E h c))"

subsection \<open>Reading a log with a monitor\<close>

text \<open>
  A monitor folds the log into a state \<open>st\<close> and judges each call against the state before it.
  The ledger is one monitor; the rule \<open>wp_step\<close>, proved once for all of them, carries a
  monitor's verdict through a computation one external call at a time.
\<close>

locale monitor =
  fixes st :: "log \<Rightarrow> 'm"
    and ok :: "log \<Rightarrow> bool"
    and after :: "'m \<Rightarrow> call \<Rightarrow> int \<Rightarrow> 'm"
    and allowed :: "'m \<Rightarrow> call \<Rightarrow> bool"
  assumes st_Cons: "st ((c, r) # h) = after (st h) c r"
    and ok_Nil: "ok []"
    and ok_Cons: "ok ((c, r) # h) \<longleftrightarrow> ok h \<and> allowed (st h) c"
begin

lemma ok_suffix: "ok (h' @ h) \<Longrightarrow> ok h"
  by (induction h') (auto simp: ok_Cons)

lemma ok_entry: "ok h \<Longrightarrow> h = h' @ (c, r) # h'' \<Longrightarrow> allowed (st h'') c"
  using ok_suffix ok_Cons by blast

lemma wp_step:
  assumes "env_ok E" and "ok h \<and> st h = m" and "allowed m c"
    and "\<And>r h'. ret_ok c r \<Longrightarrow> ok h' \<and> st h' = after m c r \<Longrightarrow> Q r h'"
  shows "wp (ext E c) Q h"
  using assms by (simp add: wp_def ext_def ok_Cons st_Cons env_ok_def)

end

definition ledger :: "log \<Rightarrow> resource multiset \<Rightarrow> bool" where
  "ledger h L \<longleftrightarrow> safe h \<and> live h = L"

interpretation led: monitor live safe transfer permitted
  by unfold_locales (simp_all add: ledger_def)

lemma wp_ext_ledger:
  assumes "env_ok E" and "ledger h L" and "permitted L c"
    and "\<And>r h'. ret_ok c r \<Longrightarrow> ledger h' (transfer L c r) \<Longrightarrow> Q r h'"
  shows "wp (ext E c) Q h"
  using assms unfolding ledger_def by (blast intro: led.wp_step)

lemma wp_ext: "(\<And>r h'. h' = (c, r) # h \<Longrightarrow> r = ret E h c \<Longrightarrow> Q r h') \<Longrightarrow> wp (ext E c) Q h"
  by (simp add: wp_def ext_def)

lemma wp_ext_set:
  "(\<And>r h'. set h' = insert (c, r) (set h) \<Longrightarrow> Q r h') \<Longrightarrow> wp (ext E c) Q h"
  by (simp add: wp_def ext_def)

lemma run_peek [simp]: "run_state (peek f) h = (f h, h)"
  by (simp add: peek_def)

lemma wp_peek: "(\<And>x. Q x h) \<Longrightarrow> wp (peek f) Q h"
  by (simp add: wp_def)

lemma run_ext [simp]: "run_state (ext E c) h = (ret E h c, (c, ret E h c) # h)"
  by (simp add: ext_def)

lemma own_NULL [simp]: "own k NULL = {#}"
  by (simp add: own_def)

lemma own_empty_iff [simp]: "own k p = {#} \<longleftrightarrow> p = NULL"
  by (simp add: own_def)

lemma own_nonnull: "p \<noteq> NULL \<Longrightarrow> own k p = {#k p#}"
  by (simp add: own_def)

text \<open>What turns a step of the ledger into a fact about concrete multisets.\<close>

lemmas ledger_simps = permitted_def transfer_def own_nonnull ret_ok_def

lemma ledgerD: "ledger h L \<Longrightarrow> safe h" "ledger h L \<Longrightarrow> live h = L"
  by (simp_all add: ledger_def)

lemma ledgerI: "safe h \<Longrightarrow> live h = L \<Longrightarrow> ledger h L"
  by (simp add: ledger_def)

subsection \<open>Operations on structs that hold resources\<close>

text \<open>
  The contract of an operation that takes a struct with the resources \<open>pre x\<close> and leaves
  one with the resources \<open>post y\<close>: whatever else is live, the ledger changes by exactly that,
  and every call on the way is safe.  A C loop over an array or list of such structs then
  satisfies the contract of the sums.
\<close>

locale resource_op =
  fixes inv :: "'x \<Rightarrow> bool"
    and pre :: "'x \<Rightarrow> resource multiset"
    and op :: "env \<Rightarrow> 'x \<Rightarrow> (log, 'y) state"
    and good :: "'y \<Rightarrow> bool"
    and post :: "'y \<Rightarrow> resource multiset"
  assumes op_ledger:
    "\<lbrakk>env_ok E; inv x; ledger h (F + pre x);
      \<And>y h'. ledger h' (F + post y) \<Longrightarrow> good y \<Longrightarrow> Q y h'\<rbrakk> \<Longrightarrow> wp (op E x) Q h"
begin

lemma map_ledger:
  assumes E: "env_ok E"
  shows "\<lbrakk>\<forall>x \<in> set xs. inv x; ledger h (F + sum_list (map pre xs));
    \<And>ys h'. ledger h' (F + sum_list (map post ys)) \<Longrightarrow> \<forall>y \<in> set ys. good y \<Longrightarrow>
      length ys = length xs \<Longrightarrow> Q ys h'\<rbrakk> \<Longrightarrow> wp (map_m (op E) xs) Q h"
proof (induction xs arbitrary: h F Q)
  case Nil
  from Nil.prems(2) show ?case by (auto simp: wp_simps intro: Nil.prems(3))
next
  case (Cons x xs)
  have x: "inv x" and xs: "\<forall>x \<in> set xs. inv x" using Cons.prems(1) by auto
  have h: "ledger h ((F + sum_list (map pre xs)) + pre x)"
    using Cons.prems(2) by (simp add: add_ac)
  show ?case
  proof (simp only: map_m.simps wp_simps, rule op_ledger [OF E x h])
    fix y h'
    assume "ledger h' (F + sum_list (map pre xs) + post y)" and y: "good y"
    then have h': "ledger h' ((F + post y) + sum_list (map pre xs))"
      by (simp add: add_ac)
    show "wp (map_m (op E) xs) (\<lambda>ys. Q (y # ys)) h'"
      by (rule Cons.IH [OF xs h'], rule Cons.prems(3)) (simp_all add: add_ac y)
  qed
qed

end

text \<open>A destructor leaves nothing behind.\<close>

locale resource_destructor = resource_op +
  assumes nothing_left: "good y \<Longrightarrow> post y = {#}"
begin

lemma sum_post_nil: "\<forall>y \<in> set ys. good y \<Longrightarrow> sum_list (map post ys) = {#}"
  by (induction ys) (auto simp: nothing_left)

lemma map_destroys:
  assumes "env_ok E" and "\<forall>x \<in> set xs. inv x" and "ledger h (F + sum_list (map pre xs))"
    and "\<And>ys h'. ledger h' F \<Longrightarrow> \<forall>y \<in> set ys. good y \<Longrightarrow> length ys = length xs \<Longrightarrow> Q ys h'"
  shows "wp (map_m (op E) xs) Q h"
  using assms by (auto intro!: map_ledger simp: sum_post_nil)

end

subsection \<open>Which calls a computation can make\<close>

text \<open>
  \<open>makes P m\<close>: every entry that \<open>m\<close> adds to the log is a call that satisfies \<open>P\<close>.
  \<open>trace P\<close> keeps the entries that satisfy \<open>P\<close>, so a computation that makes none of them
  leaves the trace as it is.
\<close>

named_theorems makes_intros \<open>rules for makes\<close>

definition makes :: "(call \<Rightarrow> bool) \<Rightarrow> (log, 'a) state \<Rightarrow> bool" where
  "makes P m \<longleftrightarrow> (\<forall>h. \<exists>new. snd (run_state m h) = new @ h \<and> (\<forall>e \<in> set new. P (fst e)))"

definition trace :: "(call \<Rightarrow> bool) \<Rightarrow> log \<Rightarrow> call list" where
  "trace P h = filter P (map fst h)"

lemma makes_return [makes_intros]: "makes P (ret_m x)"
  by (simp add: makes_def)

lemma makes_peek [makes_intros]: "makes P (peek f)"
  by (simp add: makes_def)

lemma makes_ext [makes_intros]: "P c \<Longrightarrow> makes P (ext E c)"
  by (simp add: makes_def)

lemma makes_bind [makes_intros]:
  assumes m: "makes P m" and f: "\<And>x. makes P (f x)"
  shows "makes P (State_Monad.bind m f)"
  unfolding makes_def
proof
  fix h
  obtain x h1 where 1: "run_state m h = (x, h1)" by fastforce
  obtain new1 where 2: "h1 = new1 @ h" "\<forall>e \<in> set new1. P (fst e)"
    using m 1 unfolding makes_def by (metis snd_conv)
  obtain new2 where 3: "snd (run_state (f x) h1) = new2 @ h1" "\<forall>e \<in> set new2. P (fst e)"
    using f [of x] unfolding makes_def by blast
  show "\<exists>new. snd (run_state (State_Monad.bind m f) h) = new @ h \<and> (\<forall>e \<in> set new. P (fst e))"
    by (rule exI [of _ "new2 @ new1"]) (use 1 2 3 in auto)
qed

lemma makes_if [makes_intros]:
  "(b \<Longrightarrow> makes P m) \<Longrightarrow> (\<not> b \<Longrightarrow> makes P n) \<Longrightarrow> makes P (if b then m else n)"
  by simp

lemma makes_Let [makes_intros]: "makes P (f t) \<Longrightarrow> makes P (let x = t in f x)"
  by simp

lemma makes_case_prod [makes_intros]:
  "(\<And>a b. x = (a, b) \<Longrightarrow> makes P (f a b)) \<Longrightarrow> makes P (case x of (a, b) \<Rightarrow> f a b)"
  by (cases x) simp

lemma makes_case_option [makes_intros]:
  "(x = None \<Longrightarrow> makes P m) \<Longrightarrow> (\<And>y. x = Some y \<Longrightarrow> makes P (f y)) \<Longrightarrow>
   makes P (case x of None \<Rightarrow> m | Some y \<Rightarrow> f y)"
  by (cases x) simp_all

lemma makes_map_m [makes_intros]: "(\<And>x. makes P (f x)) \<Longrightarrow> makes P (map_m f xs)"
  by (induction xs) (auto intro!: makes_intros)

lemma makes_mono: "makes P m \<Longrightarrow> (\<And>c. P c \<Longrightarrow> R c) \<Longrightarrow> makes R m"
  unfolding makes_def by meson

lemma trace_Cons: "trace P ((c, r) # h) = (if P c then c # trace P h else trace P h)"
  by (simp add: trace_def)

lemma wp_makes_trace:
  assumes m: "makes (\<lambda>c. \<not> P c) m" and Q: "\<And>a h'. trace P h' = trace P h \<Longrightarrow> Q a h'"
  shows "wp m Q h"
proof (rule wpI)
  fix a h'
  assume "run_state m h = (a, h')"
  moreover obtain new where "snd (run_state m h) = new @ h" "\<forall>e \<in> set new. \<not> P (fst e)"
    using m unfolding makes_def by blast
  ultimately have "trace P h' = trace P h" by (auto simp: trace_def filter_empty_conv)
  then show "Q a h'" by (rule Q)
qed

lemma wp_ext_trace:
  "(\<And>r h'. trace P h' = (if P c then [c] else []) @ trace P h \<Longrightarrow> Q r h') \<Longrightarrow> wp (ext E c) Q h"
  by (simp add: wp_def ext_def trace_Cons)

lemma wp_trace_kept:
  assumes m: "makes (\<lambda>c. \<not> P c) m" and w: "wp m (\<lambda>a h'. trace P h' = trace P h \<longrightarrow> Q a h') h"
  shows "wp m Q h"
  by (rule wp_mono [OF wp_conj [OF w wp_makes_trace [OF m, of h "\<lambda>_ h'. trace P h' = trace P h"]]]) auto

lemma makes_extends: "makes P m \<Longrightarrow> (\<And>a new. Q a (new @ h)) \<Longrightarrow> wp m Q h"
  unfolding makes_def wp_def by (metis case_prod_beta)

text \<open>The entries themselves, with their results.\<close>

definition entries :: "(call \<Rightarrow> bool) \<Rightarrow> log \<Rightarrow> log" where
  "entries P h = filter (\<lambda>e. P (fst e)) h"

lemma entries_Cons: "entries P ((c, r) # h) = (if P c then (c, r) # entries P h else entries P h)"
  by (simp add: entries_def)

lemma entries_Nil [simp]: "entries P [] = []"
  by (simp add: entries_def)

lemma wp_entries_kept:
  assumes m: "makes (\<lambda>c. \<not> P c) m"
    and w: "wp m (\<lambda>a h'. entries P h' = entries P h \<longrightarrow> Q a h') h"
  shows "wp m Q h"
proof (rule wpI)
  fix a h'
  assume run: "run_state m h = (a, h')"
  moreover obtain new where "snd (run_state m h) = new @ h" "\<forall>e \<in> set new. \<not> P (fst e)"
    using m unfolding makes_def by blast
  ultimately have "entries P h' = entries P h" by (auto simp: entries_def filter_empty_conv)
  with wp_run [OF w run] show "Q a h'" by simp
qed

text \<open>A computation that keeps a property of the log.\<close>

named_theorems keeps_intros \<open>rules for keeps\<close>

definition keeps :: "(log \<Rightarrow> bool) \<Rightarrow> (log, 'a) state \<Rightarrow> bool" where
  "keeps P m \<longleftrightarrow> (\<forall>h. P h \<longrightarrow> P (snd (run_state m h)))"

lemma keeps_wp: "keeps P m \<Longrightarrow> P h \<Longrightarrow> (\<And>a h'. P h' \<Longrightarrow> Q a h') \<Longrightarrow> wp m Q h"
  unfolding keeps_def wp_def by (metis case_prod_beta)

lemma keepsI: "(\<And>h. P h \<Longrightarrow> wp m (\<lambda>_. P) h) \<Longrightarrow> keeps P m"
  unfolding keeps_def wp_def by (simp add: case_prod_beta)

lemma keeps_return [keeps_intros]: "keeps P (ret_m x)"
  by (simp add: keeps_def)

lemma keeps_bind [keeps_intros]: "keeps P m \<Longrightarrow> (\<And>x. keeps P (f x)) \<Longrightarrow> keeps P (State_Monad.bind m f)"
  by (auto simp: keeps_def split: prod.splits)

lemma keeps_if [keeps_intros]: "(b \<Longrightarrow> keeps P m) \<Longrightarrow> (\<not> b \<Longrightarrow> keeps P n) \<Longrightarrow> keeps P (if b then m else n)"
  by simp

lemma keeps_case_prod [keeps_intros]: "(\<And>a b. keeps P (f a b)) \<Longrightarrow> keeps P (case x of (a, b) \<Rightarrow> f a b)"
  by (cases x) simp

lemma keeps_case_option [keeps_intros]:
  "keeps P m \<Longrightarrow> (\<And>y. keeps P (f y)) \<Longrightarrow> keeps P (case x of None \<Rightarrow> m | Some y \<Rightarrow> f y)"
  by (cases x) simp_all

lemma keeps_peek [keeps_intros]: "keeps P (peek f)"
  by (simp add: keeps_def)

text \<open>A monitor whose state stays in a set under calls of some kind stays happy with them.\<close>

context monitor
begin

lemma makes_keeps:
  assumes m: "makes P m" and P: "\<And>s c r. S s \<Longrightarrow> P c \<Longrightarrow> allowed s c \<and> S (after s c r)"
  shows "keeps (\<lambda>h. ok h \<and> S (st h)) m"
  unfolding keeps_def
proof (intro allI impI)
  fix h assume h: "ok h \<and> S (st h)"
  obtain new where new: "snd (run_state m h) = new @ h" "\<forall>e \<in> set new. P (fst e)"
    using m unfolding makes_def by blast
  from new(2) have "ok (new @ h) \<and> S (st (new @ h))"
  proof (induction new)
    case (Cons e new)
    then show ?case using P by (cases e) (auto simp: ok_Cons st_Cons)
  qed (use h in simp)
  then show "ok (snd (run_state m h)) \<and> S (st (snd (run_state m h)))" by (simp add: new(1))
qed

end

subsection \<open>A concrete environment\<close>

text \<open>
  An environment in which every call succeeds and returns 7, cairo's strides are four bytes per
  pixel (with cairo's own limit on the width) and no event arrives: what the examples run on.
\<close>

definition sample_ret :: "call \<Rightarrow> int" where
  "sample_ret c =
     (case c of
        Cr (cairo_format_stride_for_width w) \<Rightarrow> (if 0 < w \<and> w < 2 ^ 29 then 4 * w else -1)
      | Cr (cairo_surface_status _) \<Rightarrow> 0
      | Cr (cairo_status _) \<Rightarrow> 0
      | Cr (cairo_pattern_status _) \<Rightarrow> 0
      | Disp (wl_display_prepare_read _) \<Rightarrow> 0
      | _ \<Rightarrow> 7)"

definition sample_env :: env where
  "sample_env = \<lparr>ret = (\<lambda>h. sample_ret), deliver = (\<lambda>h. []), clock = (\<lambda>h. (1, 0)),
     errno_of = (\<lambda>h. 0), ready = (\<lambda>h. [])\<rparr>"

lemma ret_ok_sample: "ret_ok c (sample_ret c)"
  by (simp add: ret_ok_def sample_ret_def split: call.splits cairo_call.splits sys_call.splits
      display_call.splits)

lemma sample_env_ok [simp]: "env_ok sample_env"
  by (simp add: env_ok_def sample_env_def ret_ok_sample)

lemma ret_sample [simp]: "ret sample_env h = sample_ret"
  by (simp add: sample_env_def)

end
