(* ===== verification/Buffer.thy ===== *)
theory Buffer
  imports Extern
begin

section \<open>Shared-memory buffers (src/src/buffer.c)\<close>

text \<open>
  \<open>struct kl_buffer\<close> and the six functions of buffer.c.  A \<open>kl_buffer\<close> is embedded in a
  surface, so its pointer is never null; the model passes the struct by value and returns the
  changed one.  \<open>uint32_t\<close>, \<open>size_t\<close> (64 bits) are words, so that the products of
  \<open>kl_buffer_create\<close> wrap as they do in C; \<open>int\<close> and \<open>int32_t\<close> are \<^typ>\<open>int\<close>, and
  the conversions between the two are written out.  The lemmas show that every path of
  \<open>kl_buffer_create\<close> accounts for every file descriptor, mapping, proxy and cairo object, that
  \<open>kl_buffer_destroy\<close> gives back exactly what the buffer holds, and what a created buffer
  looks like.
\<close>

subsection \<open>Model\<close>

record kl_buffer =
  buf_wl_buffer :: ptr
  buf_data :: ptr
  buf_size :: u64
  buf_width :: u32
  buf_height :: u32
  buf_scale :: int
  buf_stride :: u32
  buf_busy :: int
  buf_cairo_surface :: ptr
  buf_cr :: ptr
  buf_on_release :: ptr
  buf_user_data :: ptr

text \<open>What \<open>calloc\<close> makes of an embedded buffer.\<close>

definition kl_buffer_zero :: kl_buffer where
  "kl_buffer_zero =
     \<lparr>buf_wl_buffer = NULL, buf_data = NULL, buf_size = 0, buf_width = 0, buf_height = 0,
      buf_scale = 0, buf_stride = 0, buf_busy = 0, buf_cairo_surface = NULL, buf_cr = NULL,
      buf_on_release = NULL, buf_user_data = NULL\<rparr>"

text \<open>
  The release listener clears \<open>busy\<close> and calls \<open>on_release (buf, user_data)\<close> if it is set:
  the second component is the callback to run and its argument.
\<close>

definition kl_buffer_handle_release :: "kl_buffer \<Rightarrow> kl_buffer \<times> (ptr \<times> ptr) option" where
  "kl_buffer_handle_release buf =
     (let buf = buf\<lparr>buf_busy := 0\<rparr> in
      (buf, if buf_on_release buf \<noteq> NULL
            then Some (buf_on_release buf, buf_user_data buf) else None))"

definition kl_buffer_allocate_shm_file :: "env \<Rightarrow> u64 \<Rightarrow> (log, int) state" where
  "kl_buffer_allocate_shm_file E size' =
     (if size' = 0 then ret_m (-1)
      else do {
        fd \<leftarrow> sys E sys_memfd_create;
        if fd < 0 then ret_m (-1)
        else do {
          r \<leftarrow> sys E (sys_ftruncate fd (sint size'));
          if r < 0 then do { _ \<leftarrow> sys E (sys_close fd); ret_m (-1) }
          else do {
            r \<leftarrow> sys E (sys_add_seals fd);
            if r < 0 then do { _ \<leftarrow> sys E (sys_close fd); ret_m (-1) }
            else ret_m fd
          }
        }
      })"

definition kl_buffer_prepare :: "env \<Rightarrow> kl_buffer \<Rightarrow> (log, unit) state" where
  "kl_buffer_prepare E buf =
     (if buf_cr buf = NULL then ret_m ()
      else do {
        _ \<leftarrow> cairo E (cairo_draw (buf_cr buf) cairo_identity_matrix);
        if buf_scale buf > 1
        then do {
          _ \<leftarrow> cairo E (cairo_draw (buf_cr buf)
                 (cairo_scale (real_of_int (buf_scale buf)) (real_of_int (buf_scale buf))));
          ret_m () }
        else ret_m ()
      })"

definition kl_buffer_flush :: "env \<Rightarrow> kl_buffer \<Rightarrow> (log, unit) state" where
  "kl_buffer_flush E buf =
     (if buf_cairo_surface buf = NULL then ret_m ()
      else do { _ \<leftarrow> cairo E (cairo_surface_flush (buf_cairo_surface buf)); ret_m () })"

definition kl_buffer_destroy :: "env \<Rightarrow> kl_buffer \<Rightarrow> (log, kl_buffer) state" where
  "kl_buffer_destroy E buf =
     do {
       buf \<leftarrow> (if buf_cr buf \<noteq> NULL
         then do { _ \<leftarrow> cairo E (cairo_destroy (buf_cr buf)); ret_m (buf\<lparr>buf_cr := NULL\<rparr>) }
         else ret_m buf);
       buf \<leftarrow> (if buf_cairo_surface buf \<noteq> NULL
         then do { _ \<leftarrow> cairo E (cairo_surface_destroy (buf_cairo_surface buf));
                   ret_m (buf\<lparr>buf_cairo_surface := NULL\<rparr>) }
         else ret_m buf);
       buf \<leftarrow> (if buf_wl_buffer buf \<noteq> NULL
         then do { _ \<leftarrow> wl E (wl_buffer_destroy (buf_wl_buffer buf));
                   ret_m (buf\<lparr>buf_wl_buffer := NULL\<rparr>) }
         else ret_m buf);
       buf \<leftarrow> (if buf_data buf \<noteq> NULL \<and> buf_data buf \<noteq> MAP_FAILED
         then do { _ \<leftarrow> sys E (sys_munmap (buf_data buf) (buf_size buf));
                   ret_m (buf\<lparr>buf_data := NULL\<rparr>) }
         else ret_m buf);
       ret_m (buf\<lparr>buf_size := 0, buf_width := 0, buf_height := 0, buf_scale := 1,
                buf_stride := 0, buf_busy := 0, buf_on_release := NULL, buf_user_data := NULL\<rparr>)
     }"

text \<open>The guard of line 73, \<open>phys_height > SIZE_MAX / (size_t)stride\<close>.\<close>

definition size_overflows :: "u32 \<Rightarrow> u32 \<Rightarrow> bool" where
  "size_overflows stride phys_height \<longleftrightarrow> (- 1 :: u64) div ucast stride < ucast phys_height"

definition kl_buffer_create ::
  "env \<Rightarrow> ptr \<Rightarrow> kl_buffer \<Rightarrow> u32 \<Rightarrow> u32 \<Rightarrow> int \<Rightarrow> ptr \<Rightarrow> ptr \<Rightarrow> (log, int \<times> kl_buffer) state" where
  "kl_buffer_create E shm buf width height scale on_release user_data =
     (if shm = NULL \<or> width = 0 \<or> height = 0 \<or> scale \<le> 0 then ret_m (-1, buf)
      else
        let phys_width = width * word_of_int scale;
            phys_height = height * word_of_int scale
        in do {
          stride_signed \<leftarrow> cairo E (cairo_format_stride_for_width (sint phys_width));
          if stride_signed \<le> 0 then ret_m (-1, buf)
          else let stride = (word_of_int stride_signed :: u32) in
          if size_overflows stride phys_height then ret_m (-1, buf)
          else let size = (ucast stride * ucast phys_height :: u64) in do {
          fd \<leftarrow> kl_buffer_allocate_shm_file E size;
          if fd < 0 then ret_m (-1, buf)
          else do {
          data \<leftarrow> sys E (sys_mmap size fd);
          if data = MAP_FAILED then do { _ \<leftarrow> sys E (sys_close fd); ret_m (-1, buf) }
          else do {
          pool \<leftarrow> wl E (wl_shm_create_pool shm fd (sint (ucast size :: u32)));
          _ \<leftarrow> sys E (sys_close fd);
          if pool = NULL then do { _ \<leftarrow> sys E (sys_munmap data size); ret_m (-1, buf) }
          else do {
          wl_buffer \<leftarrow> wl E (wl_shm_pool_create_buffer pool 0 (sint phys_width)
                                (sint phys_height) (sint stride));
          buf \<leftarrow> ret_m (buf\<lparr>buf_wl_buffer := wl_buffer\<rparr>);
          _ \<leftarrow> wl E (wl_shm_pool_destroy pool);
          if wl_buffer = NULL then do { _ \<leftarrow> sys E (sys_munmap data size); ret_m (-1, buf) }
          else do {
          surface \<leftarrow> cairo E (cairo_image_surface_create_for_data data (sint phys_width)
                                (sint phys_height) (sint stride));
          buf \<leftarrow> ret_m (buf\<lparr>buf_cairo_surface := surface\<rparr>);
          status \<leftarrow> cairo E (cairo_surface_status surface);
          if status \<noteq> 0 then do {
            _ \<leftarrow> cairo E (cairo_surface_status surface);
            _ \<leftarrow> wl E (wl_buffer_destroy wl_buffer);
            _ \<leftarrow> sys E (sys_munmap data size);
            ret_m (-1, buf\<lparr>buf_wl_buffer := NULL\<rparr>) }
          else do {
          cr \<leftarrow> cairo E (cairo_create surface);
          buf \<leftarrow> ret_m (buf\<lparr>buf_cr := cr\<rparr>);
          status \<leftarrow> cairo E (cairo_status cr);
          if status \<noteq> 0 then do {
            _ \<leftarrow> cairo E (cairo_status cr);
            _ \<leftarrow> cairo E (cairo_destroy cr);
            _ \<leftarrow> cairo E (cairo_surface_destroy surface);
            _ \<leftarrow> wl E (wl_buffer_destroy wl_buffer);
            _ \<leftarrow> sys E (sys_munmap data size);
            ret_m (-1, buf\<lparr>buf_cr := NULL, buf_cairo_surface := NULL, buf_wl_buffer := NULL\<rparr>) }
          else do {
          buf \<leftarrow> ret_m (buf\<lparr>buf_data := data, buf_size := size, buf_width := width,
                  buf_height := height, buf_scale := scale, buf_stride := stride,
                  buf_busy := 0, buf_on_release := on_release, buf_user_data := user_data\<rparr>);
          r \<leftarrow> wl E (wl_buffer_add_listener wl_buffer);
          if r < 0 then do { buf \<leftarrow> kl_buffer_destroy E buf; ret_m (-1, buf) }
          else ret_m (0, buf)
          }}}}}}}})"

subsection \<open>What a buffer holds\<close>

definition buf_owned :: "kl_buffer \<Rightarrow> resource multiset" where
  "buf_owned buf =
     own Proxy (buf_wl_buffer buf) + own CSurface (buf_cairo_surface buf) +
     own CContext (buf_cr buf) +
     (if buf_data buf = NULL \<or> buf_data buf = MAP_FAILED then {#} else {#Mapping (buf_data buf)#})"

text \<open>A buffer that \<open>kl_buffer_create\<close> made: all its objects exist, and its byte size is the
  stride times the physical height.\<close>

definition buf_ready :: "u32 \<Rightarrow> u32 \<Rightarrow> int \<Rightarrow> kl_buffer \<Rightarrow> bool" where
  "buf_ready width height scale buf \<longleftrightarrow>
     buf_wl_buffer buf \<noteq> NULL \<and> buf_cairo_surface buf \<noteq> NULL \<and> buf_cr buf \<noteq> NULL \<and>
     buf_data buf \<noteq> NULL \<and> buf_data buf \<noteq> MAP_FAILED \<and>
     buf_width buf = width \<and> buf_height buf = height \<and> buf_scale buf = scale \<and>
     buf_busy buf = 0 \<and> 0 < uint (buf_stride buf) \<and> uint (buf_stride buf) < 2 ^ 31 \<and>
     uint (buf_size buf) = uint (buf_stride buf) * uint (height * word_of_int scale)"

text \<open>A buffer after a failed \<open>kl_buffer_create\<close>: nothing to attach or draw on.\<close>

definition buf_void :: "kl_buffer \<Rightarrow> bool" where
  "buf_void buf \<longleftrightarrow> buf_wl_buffer buf = NULL \<and> buf_cr buf = NULL \<and>
     (buf_data buf = NULL \<or> buf_data buf = MAP_FAILED)"

lemma buf_owned_zero [simp]: "buf_owned kl_buffer_zero = {#}"
  by (simp add: buf_owned_def kl_buffer_zero_def)

lemma buf_busy_zero [simp]: "buf_busy kl_buffer_zero = 0"
  by (simp add: kl_buffer_zero_def)

lemma buf_owned_empty_iff:
  "buf_owned buf = {#} \<longleftrightarrow>
     buf_wl_buffer buf = NULL \<and> buf_cairo_surface buf = NULL \<and> buf_cr buf = NULL \<and>
     (buf_data buf = NULL \<or> buf_data buf = MAP_FAILED)"
  by (auto simp: buf_owned_def)

lemma buf_owned_void: "buf_owned buf = {#} \<Longrightarrow> buf_void buf"
  by (simp add: buf_owned_empty_iff buf_void_def)

lemma buf_owned_busy [simp]: "buf_owned (buf\<lparr>buf_busy := b\<rparr>) = buf_owned buf"
  by (simp add: buf_owned_def)

subsection \<open>The size computation\<close>

lemma stride_word: "0 < r \<Longrightarrow> r < 2 ^ 31 \<Longrightarrow> uint (word_of_int r :: u32) = r"
  by (simp add: uint_word_of_int take_bit_int_eq_self)

lemma size_product_exact:
  fixes stride ph :: u32
  assumes "uint stride < 2 ^ 31"
  shows "uint (ucast stride * ucast ph :: u64) = uint stride * uint ph"
proof -
  have "uint ph < 2 ^ 32" using uint_bounded [of ph] by simp
  then have "uint stride * uint ph < 2 ^ 31 * 2 ^ 32"
    using assms by (intro mult_strict_mono) simp_all
  then show ?thesis
    by (simp add: uint_word_ariths uint_up_ucast is_up mod_pos_pos_trivial)
qed

lemma size_guard_dead:
  fixes stride ph :: u32
  assumes "0 < uint stride" and "uint stride < 2 ^ 31"
  shows "\<not> size_overflows stride ph"
proof -
  have ph: "uint ph < 2 ^ 32" using uint_bounded [of ph] by simp
  have "uint ph * uint stride \<le> 2 ^ 64 - 1"
  proof -
    have "uint ph * uint stride < 2 ^ 32 * 2 ^ 31" using assms ph by (intro mult_strict_mono) simp_all
    then show ?thesis by simp
  qed
  then have "uint ph \<le> (2 ^ 64 - 1) div uint stride"
    using assms(1) by (metis  zdiv_mono1 nonzero_mult_div_cancel_right less_irrefl)
  then show ?thesis
    by (simp add: size_overflows_def word_less_def uint_div uint_up_ucast is_up not_less unsigned_minus_1_eq_mask mask_eq_exp_minus_1)
qed
lemma physical_size_exact:
  fixes w :: u32
  assumes "0 < scale" and "uint w * scale < 2 ^ 31"
  shows "sint (w * word_of_int scale) = uint w * scale"
proof (cases "w = 0")
  case False
  then have "0 < uint w" by (simp add: word_neq_0_conv word_less_def)
  then have "1 * scale \<le> uint w * scale" using assms(1) by (intro mult_right_mono) simp_all
  then have "scale < 2 ^ 31" using assms(2) by simp
  then have "uint (word_of_int scale :: u32) = scale" using assms(1) by (simp add: stride_word)
  then have "uint (w * word_of_int scale) = uint w * scale"
    using assms by (simp add: uint_word_ariths)
  moreover have "0 \<le> uint w * scale" using assms(1) by simp
  ultimately show ?thesis using assms(2) by (simp add: sint_uint signed_take_bit_int_eq_self)
qed simp

subsection \<open>Every path accounts for its resources\<close>

lemma shm_file_ledger:
  assumes E: "env_ok E" and h: "ledger h F"
    and Q: "\<And>r h'. ledger h' (if r < 0 then F else add_mset (Fd r) F) \<Longrightarrow> Q r h'"
  shows "wp (kl_buffer_allocate_shm_file E size') Q h"
  unfolding kl_buffer_allocate_shm_file_def
  by (insert h)
     ((rule ifI | (rule wp_ext_ledger [OF E], assumption, (simp add: ledger_simps; fail))
       | (rule Q, (simp add: ledger_simps; fail)) | simp only: wp_simps)+)

lemma kl_buffer_destroy_ledger:
  assumes E: "env_ok E" and h: "ledger h (F + buf_owned buf)"
    and Q: "\<And>buf' h'. ledger h' F \<Longrightarrow> buf_owned buf' = {#} \<Longrightarrow> buf_busy buf' = 0 \<Longrightarrow> Q buf' h'"
  shows "wp (kl_buffer_destroy E buf) Q h"
  unfolding kl_buffer_destroy_def
  by (insert h)
     ((rule ifI
       | (rule wp_ext_ledger [OF E], assumption, (simp add: ledger_simps buf_owned_def; fail))
       | (rule Q, (simp add: ledger_simps buf_owned_def; fail)+) | simp only: wp_simps)+)

lemma destroyed_fields:
  "run_state (kl_buffer_destroy E buf) h = (buf', h') \<Longrightarrow>
   buf_size buf' = 0 \<and> buf_width buf' = 0 \<and> buf_height buf' = 0 \<and> buf_scale buf' = 1 \<and>
   buf_stride buf' = 0 \<and> buf_busy buf' = 0 \<and> buf_on_release buf' = NULL \<and> buf_user_data buf' = NULL"
  by (auto simp: kl_buffer_destroy_def split: if_splits)

lemma wp_destroy_any: "(\<And>a s'. Q a s') \<Longrightarrow> wp (kl_buffer_destroy E buf) Q s"
  by (rule wp_any)

lemma kl_buffer_create_ledger:
  assumes E: "env_ok E" and h: "ledger h F" and shm: "shm \<noteq> NULL \<Longrightarrow> Proxy shm \<in># F"
    and e: "buf_owned buf = {#}" "buf_busy buf = 0"
    and Q: "\<And>r buf' h'. ledger h' (F + buf_owned buf') \<Longrightarrow>
      (if r = 0 then buf_ready width height scale buf' else r = -1 \<and> buf_void buf') \<Longrightarrow>
      buf_busy buf' = 0 \<Longrightarrow> Q (r, buf') h'"
  shows "wp (kl_buffer_create E shm buf width height scale on_release user_data) Q h"
  unfolding kl_buffer_create_def
  by (insert h shm e [unfolded buf_owned_empty_iff])
     ((rule ifI
       | (rule shm_file_ledger [OF E], assumption)
       | (rule kl_buffer_destroy_ledger [OF E, where F = F],
          (simp add: ledger_simps buf_owned_def add_mset_commute; fail))
       | (rule wp_ext_ledger [OF E], assumption, (simp add: ledger_simps buf_owned_def; fail))
       | (rule Q, (simp add: buf_owned_void; fail)+)
       | (rule Q, (simp add: ledger_simps buf_owned_def add_mset_commute buf_void_def
            buf_ready_def size_product_exact stride_word; fail)+)
       | simp only: wp_simps)+)

lemma kl_buffer_prepare_ledger:
  assumes E: "env_ok E" and h: "ledger h F" and cr: "buf_cr buf \<noteq> NULL \<Longrightarrow> CContext (buf_cr buf) \<in># F"
    and Q: "\<And>h'. ledger h' F \<Longrightarrow> Q () h'"
  shows "wp (kl_buffer_prepare E buf) Q h"
  unfolding kl_buffer_prepare_def
  by (insert h cr)
     ((rule ifI | (rule wp_ext_ledger [OF E], assumption, (simp add: ledger_simps; fail))
       | (rule Q, (simp add: ledger_simps; fail)+) | simp only: wp_simps)+)

lemma kl_buffer_flush_ledger:
  assumes E: "env_ok E" and h: "ledger h F"
    and cs: "buf_cairo_surface buf \<noteq> NULL \<Longrightarrow> CSurface (buf_cairo_surface buf) \<in># F"
    and Q: "\<And>h'. ledger h' F \<Longrightarrow> Q () h'"
  shows "wp (kl_buffer_flush E buf) Q h"
  unfolding kl_buffer_flush_def
  by (insert h cs)
     ((rule ifI | (rule wp_ext_ledger [OF E], assumption, (simp add: ledger_simps; fail))
       | (rule Q, (simp add: ledger_simps; fail)+) | simp only: wp_simps)+)

text \<open>An emptied buffer, and the destructor's contract.\<close>

definition buf_empty :: "kl_buffer \<Rightarrow> bool" where
  "buf_empty buf \<longleftrightarrow> buf_owned buf = {#} \<and> buf_busy buf = 0"

interpretation bufs: resource_destructor "\<lambda>_. True" buf_owned kl_buffer_destroy buf_empty buf_owned
  by unfold_locales (auto simp: buf_empty_def intro: kl_buffer_destroy_ledger)

subsection \<open>Properties\<close>

text \<open>
  Whatever the kernel, the compositor and cairo answer, \<open>kl_buffer_create\<close> returns 0 or
  -1, uses nothing that is not live, and the resources live afterwards are those live before
  plus exactly what the struct holds: no error path leaks a file descriptor, a mapping, a pool
  or a proxy.  On success the struct describes the requested size and its \<open>size\<close> is
  stride times physical height without wrap-around; on failure there is no wl\_buffer, no cairo
  context and no mapping.
\<close>

theorem kl_buffer_create_accounts:
  assumes "env_ok E" and "safe h" and "shm = NULL \<or> Proxy shm \<in># live h"
    and "buf_owned buf = {#}" and "buf_busy buf = 0"
    and "run_state (kl_buffer_create E shm buf width height scale cb ud) h = ((r, buf'), h')"
  shows "safe h' \<and> live h' = live h + buf_owned buf' \<and>
    (if r = 0 then buf_ready width height scale buf' else r = -1 \<and> buf_void buf')"
proof -
  have h: "ledger h (live h)" using assms(2) by (simp add: ledger_def)
  have "wp (kl_buffer_create E shm buf width height scale cb ud)
    (\<lambda>p h'. case p of (r, buf') \<Rightarrow> ledger h' (live h + buf_owned buf') \<and>
       (if r = 0 then buf_ready width height scale buf' else r = -1 \<and> buf_void buf')) h"
    by (rule kl_buffer_create_ledger [OF assms(1) h _ assms(4,5)])
       (use assms(3) in \<open>auto split: if_splits\<close>)
  from wp_run [OF this assms(6)] show ?thesis by (simp add: ledger_def)
qed

definition sample_log :: log where
  "sample_log = [(Disp (wl_registry_bind 5 1 ''wl_shm'' 1), 7),
     (Disp (wl_display_get_registry 3), 5), (Disp wl_display_connect, 3)]"

lemma sample_log_ledger [simp]:
  "safe sample_log" "live sample_log = {#Proxy 7, Proxy 5, Display 3#}"
  by (simp_all add: sample_log_def ledger_simps add_mset_commute)

lemma sample_create:
  "\<exists>buf' h'. run_state (kl_buffer_create sample_env 7 kl_buffer_zero 1920 1080 2 1 9) sample_log
     = ((0, buf'), h') \<and> length h' = 17 \<and> buf_stride buf' = 15360 \<and> buf_wl_buffer buf' = 7"
  by (simp add: kl_buffer_create_def kl_buffer_allocate_shm_file_def sample_ret_def
      size_overflows_def sample_log_def)

theorem kl_buffer_create_accounts_witness:
  "let ((r, buf'), h') =
         run_state (kl_buffer_create sample_env 7 kl_buffer_zero 1920 1080 2 1 9) sample_log
   in r = 0 \<and> safe h' \<and> live h' = live sample_log + buf_owned buf' \<and> buf_ready 1920 1080 2 buf'"
proof -
  obtain buf' h' where run:
    "run_state (kl_buffer_create sample_env 7 kl_buffer_zero 1920 1080 2 1 9) sample_log
       = ((0, buf'), h')"
    using sample_create by blast
  show ?thesis
    using kl_buffer_create_accounts [OF sample_env_ok _ _ _ _ run]
    by (simp add: run)
qed

text \<open>
  \<open>kl_buffer_destroy\<close> gives back exactly what the buffer holds, each object once, and
  leaves a buffer that holds nothing and is not busy; destroying it again makes no call.
\<close>

theorem kl_buffer_destroy_releases:
  assumes "env_ok E" and "safe h" and "live h = F + buf_owned buf"
    and "run_state (kl_buffer_destroy E buf) h = (buf', h')"
  shows "safe h' \<and> live h' = F \<and> buf_empty buf' \<and>
    run_state (kl_buffer_destroy E buf') h'' = (buf', h'')"
proof -
  have "wp (kl_buffer_destroy E buf) (\<lambda>buf' h'. ledger h' F \<and> buf_empty buf') h"
    by (rule kl_buffer_destroy_ledger [OF assms(1), where F = F])
       (use assms(2,3) in \<open>auto simp: ledger_def buf_empty_def\<close>)
  from wp_run [OF this assms(4)] have 1: "ledger h' F" "buf_empty buf'" by auto
  have "run_state (kl_buffer_destroy E buf') h'' = (buf', h'')"
    using 1(2) destroyed_fields [OF assms(4)]
    by (auto simp: kl_buffer_destroy_def buf_empty_def buf_owned_empty_iff)
  with 1 show ?thesis by (simp add: ledger_def)
qed

theorem kl_buffer_destroy_releases_witness:
  "let buf = kl_buffer_zero\<lparr>buf_wl_buffer := 7\<rparr>;
       (buf', h') = run_state (kl_buffer_destroy sample_env buf) sample_log
   in safe h' \<and> live h' = {#Proxy 5, Display 3#} \<and> buf_empty buf'"
proof -
  let ?buf = "kl_buffer_zero\<lparr>buf_wl_buffer := 7\<rparr>"
  obtain buf' h' where run: "run_state (kl_buffer_destroy sample_env ?buf) sample_log = (buf', h')"
    by (metis prod.exhaust)
  have "live sample_log = {#Proxy 5, Display 3#} + buf_owned ?buf"
    by (simp add: buf_owned_def kl_buffer_zero_def own_nonnull add_mset_commute)
  from kl_buffer_destroy_releases [OF sample_env_ok _ this run] show ?thesis
    by (simp add: run)
qed

text \<open>
  Creating a buffer and destroying it again leaves the resources as they were, whether or
  not the creation succeeded.
\<close>

theorem kl_buffer_create_destroy:
  assumes "env_ok E" and "safe h" and "shm = NULL \<or> Proxy shm \<in># live h"
    and "buf_owned buf = {#}" and "buf_busy buf = 0"
    and "run_state (kl_buffer_create E shm buf width height scale cb ud) h = ((r, buf'), h')"
    and "run_state (kl_buffer_destroy E buf') h' = (buf'', h'')"
  shows "safe h'' \<and> live h'' = live h \<and> buf_empty buf''"
proof -
  have h: "ledger h (live h)" using assms(2) by (simp add: ledger_def)
  have "wp (kl_buffer_create E shm buf width height scale cb ud)
    (\<lambda>p. wp (kl_buffer_destroy E (snd p)) (\<lambda>buf'' h''. ledger h'' (live h) \<and> buf_empty buf'')) h"
    by (rule kl_buffer_create_ledger [OF assms(1) h _ assms(4,5)])
       (use assms(1,3) in \<open>auto simp: buf_empty_def intro!: kl_buffer_destroy_ledger\<close>)
  from wp_run [OF this assms(6)] have "wp (kl_buffer_destroy E buf')
    (\<lambda>buf'' h''. ledger h'' (live h) \<and> buf_empty buf'') h'" by simp
  from wp_run [OF this assms(7)] show ?thesis by (simp add: ledger_def)
qed

theorem kl_buffer_create_destroy_witness:
  "let ((r, buf'), h') =
         run_state (kl_buffer_create sample_env 7 kl_buffer_zero 1920 1080 2 1 9) sample_log;
       (buf'', h'') = run_state (kl_buffer_destroy sample_env buf') h'
   in r = 0 \<and> live h'' = live sample_log"
proof -
  obtain buf' h' where run:
    "run_state (kl_buffer_create sample_env 7 kl_buffer_zero 1920 1080 2 1 9) sample_log
       = ((0, buf'), h')"
    using sample_create by blast
  obtain buf'' h'' where run': "run_state (kl_buffer_destroy sample_env buf') h' = (buf'', h'')"
    by (metis prod.exhaust)
  show ?thesis
    using kl_buffer_create_destroy [OF sample_env_ok _ _ _ _ run run'] by (simp add: run run')
qed

text \<open>
  With a 64-bit \<open>size_t\<close> the overflow check of \<open>kl_buffer_create\<close> never rejects a
  positive stride: the byte size of any buffer fits.
\<close>

theorem buffer_size_check_never_fires:
  assumes "0 < stride_signed" and "stride_signed < 2 ^ 31"
  shows "\<not> size_overflows (word_of_int stride_signed) phys_height"
  using assms by (intro size_guard_dead) (simp_all add: stride_word)

theorem buffer_size_check_never_fires_witness:
  "\<not> size_overflows (word_of_int 2147483647) 4294967295"
  by (rule buffer_size_check_never_fires) simp_all

text \<open>
  When the physical size of the output fits a C \<open>int\<close>, a successful
  \<open>kl_buffer_create\<close> has asked the compositor for a wl\_buffer of exactly the logical size
  times the scale, with the stride that cairo computed.
\<close>

theorem kl_buffer_create_physical_size:
  assumes "0 < scale" and "uint width * scale < 2 ^ 31" and "uint height * scale < 2 ^ 31"
    and "run_state (kl_buffer_create E shm buf width height scale cb ud) h = ((0, buf'), h')"
  shows "\<exists>pool. (Wl (wl_shm_pool_create_buffer pool 0 (uint width * scale) (uint height * scale)
      (sint (buf_stride buf'))), buf_wl_buffer buf') \<in> set h'"
proof -
  let ?Q = "\<lambda>(r, buf') h'. r = 0 \<longrightarrow> (\<exists>pool. (Wl (wl_shm_pool_create_buffer pool 0
      (sint (width * word_of_int scale)) (sint (height * word_of_int scale))
      (sint (buf_stride buf'))), buf_wl_buffer buf') \<in> set h')"
  have "wp (kl_buffer_create E shm buf width height scale cb ud) ?Q h"
    unfolding kl_buffer_create_def kl_buffer_allocate_shm_file_def
    by ((rule ifI | rule wp_ext_set | rule wp_destroy_any | simp only: wp_simps
         | (simp add: ex_disj_distrib; fail))+)
  from wp_run [OF this assms(4)] show ?thesis
    by (simp add: physical_size_exact [OF assms(1,2)] physical_size_exact [OF assms(1,3)])
qed

theorem kl_buffer_create_physical_size_witness:
  "let ((r, buf'), h') =
         run_state (kl_buffer_create sample_env 7 kl_buffer_zero 1920 1080 2 1 9) sample_log
   in \<exists>pool. (Wl (wl_shm_pool_create_buffer pool 0 3840 2160 15360), 7) \<in> set h'"
proof -
  obtain buf' h' where run:
    "run_state (kl_buffer_create sample_env 7 kl_buffer_zero 1920 1080 2 1 9) sample_log
       = ((0, buf'), h')" and f: "buf_stride buf' = 15360" "buf_wl_buffer buf' = 7"
    using sample_create by blast
  show ?thesis
    using kl_buffer_create_physical_size [OF _ _ _ run] by (simp add: run f)
qed

text \<open>
  Outside that range the product wraps: for an output of 2147483649 logical columns at scale
  2 \<open>kl_buffer_create\<close> succeeds with a buffer of 2 physical columns (a stride of 8 bytes).
\<close>

theorem kl_buffer_create_width_wraps:
  "\<exists>buf' h'. run_state (kl_buffer_create sample_env 7 kl_buffer_zero 2147483649 1 2 1 9) sample_log
     = ((0, buf'), h') \<and> buf_width buf' = 2147483649 \<and> buf_scale buf' = 2 \<and> buf_stride buf' = 8"
  by (simp add: kl_buffer_create_def kl_buffer_allocate_shm_file_def sample_ret_def
      size_overflows_def sample_log_def)

text \<open>
  The pool size is passed as \<open>(int32_t)size\<close>: for a buffer of 32767 by 32767 pixels,
  which cairo still accepts, the compositor is asked for a pool of a negative size.
\<close>

theorem kl_buffer_create_negative_pool:
  "\<exists>buf' h'. run_state (kl_buffer_create sample_env 7 kl_buffer_zero 32767 32767 1 1 9) sample_log
     = ((0, buf'), h') \<and> (Wl (wl_shm_create_pool 7 7 (-262140)), 7) \<in> set h'"
  by (simp add: kl_buffer_create_def kl_buffer_allocate_shm_file_def sample_ret_def
      size_overflows_def sample_log_def)

end
