(* ===== verification/Render.thy ===== *)
theory Render
  imports Extern
begin

section \<open>The render engine (src/src/render.c)\<close>

text \<open>
  \<open>struct kl_render_engine\<close> keeps a texture (a cairo surface with its pattern) baked for one
  integer scale.  The five functions of render.c are modelled with every cairo call in its order.
  C doubles are reals: rounding is not modelled.  An engine is a heap object; its address is the
  field \<open>eng_addr\<close>, and \<open>kl_render_engine_create\<close> returns \<open>None\<close> when \<open>calloc\<close>
  fails.  The lemmas show that the texture cache never leaks and never draws from a freed object,
  that a second draw at the same scale bakes nothing, and that the animation factor stays within
  0.85 and 1.15, so that its lower clamp is never needed.
\<close>

subsection \<open>Model\<close>

record kl_render_engine =
  eng_addr :: ptr
  eng_baked_surface :: ptr
  eng_baked_pattern :: ptr
  eng_cached_scale :: int
  eng_baked_dim :: int
  eng_pulse_frequency :: real

definition KL_BASE_TEXTURE_DIM :: int where "KL_BASE_TEXTURE_DIM = 256"

definition kl_render_cleanup_baked :: "env \<Rightarrow> kl_render_engine \<Rightarrow> (log, kl_render_engine) state" where
  "kl_render_cleanup_baked E engine =
     do {
       engine \<leftarrow> (if eng_baked_pattern engine \<noteq> NULL
         then do { _ \<leftarrow> cairo E (cairo_pattern_destroy (eng_baked_pattern engine));
                   ret_m (engine\<lparr>eng_baked_pattern := NULL\<rparr>) }
         else ret_m engine);
       engine \<leftarrow> (if eng_baked_surface engine \<noteq> NULL
         then do { _ \<leftarrow> cairo E (cairo_surface_destroy (eng_baked_surface engine));
                   ret_m (engine\<lparr>eng_baked_surface := NULL\<rparr>) }
         else ret_m engine);
       ret_m (engine\<lparr>eng_cached_scale := 0, eng_baked_dim := 0\<rparr>)
     }"

text \<open>The drawing of the texture: a ring and a disc (lines 64 to 76).\<close>

definition kl_render_bake :: "env \<Rightarrow> ptr \<Rightarrow> int \<Rightarrow> (log, unit) state" where
  "kl_render_bake E cr scale =
     (let center = real_of_int KL_BASE_TEXTURE_DIM / 2 in
      do {
        _ \<leftarrow> cairo E (cairo_draw cr (cairo_scale (real_of_int scale) (real_of_int scale)));
        _ \<leftarrow> cairo E (cairo_draw cr (cairo_set_line_width 4));
        _ \<leftarrow> cairo E (cairo_draw cr (cairo_set_source_rgba 0.706 0.745 0.996 0.85));
        _ \<leftarrow> cairo E (cairo_draw cr (cairo_arc center center 75 0 (2 * pi)));
        _ \<leftarrow> cairo E (cairo_draw cr cairo_stroke);
        _ \<leftarrow> cairo E (cairo_draw cr (cairo_set_source_rgb 0.796 0.651 0.969));
        _ \<leftarrow> cairo E (cairo_draw cr (cairo_arc center center 50 0 (2 * pi)));
        _ \<leftarrow> cairo E (cairo_draw cr cairo_fill);
        ret_m ()
      })"

definition kl_render_ensure_baked_surface ::
  "env \<Rightarrow> kl_render_engine \<Rightarrow> int \<Rightarrow> (log, bool \<times> kl_render_engine) state" where
  "kl_render_ensure_baked_surface E engine scale =
     (if eng_baked_surface engine \<noteq> NULL \<and> eng_baked_pattern engine \<noteq> NULL \<and>
         eng_cached_scale engine = scale
      then ret_m (True, engine)
      else do {
        engine \<leftarrow> kl_render_cleanup_baked E engine;
        dim \<leftarrow> ret_m (KL_BASE_TEXTURE_DIM * scale);
        surface \<leftarrow> cairo E (cairo_image_surface_create dim dim);
        engine \<leftarrow> ret_m (engine\<lparr>eng_baked_surface := surface\<rparr>);
        status \<leftarrow> cairo E (cairo_surface_status surface);
        if status \<noteq> 0 then do {
          engine \<leftarrow> kl_render_cleanup_baked E engine; ret_m (False, engine) }
        else do {
        cr \<leftarrow> cairo E (cairo_create surface);
        status \<leftarrow> cairo E (cairo_status cr);
        if status \<noteq> 0 then do {
          _ \<leftarrow> cairo E (cairo_destroy cr);
          engine \<leftarrow> kl_render_cleanup_baked E engine; ret_m (False, engine) }
        else do {
        _ \<leftarrow> kl_render_bake E cr scale;
        _ \<leftarrow> cairo E (cairo_destroy cr);
        pattern \<leftarrow> cairo E (cairo_pattern_create_for_surface surface);
        engine \<leftarrow> ret_m (engine\<lparr>eng_baked_pattern := pattern\<rparr>);
        status \<leftarrow> cairo E (cairo_pattern_status pattern);
        if status \<noteq> 0 then do {
          engine \<leftarrow> kl_render_cleanup_baked E engine; ret_m (False, engine) }
        else ret_m (True, engine\<lparr>eng_cached_scale := scale, eng_baked_dim := dim\<rparr>)
        }}})"

definition kl_render_engine_create :: "env \<Rightarrow> (log, kl_render_engine option) state" where
  "kl_render_engine_create E =
     do {
       engine \<leftarrow> sys E sys_calloc;
       ret_m (if engine = NULL then None
              else Some \<lparr>eng_addr = engine, eng_baked_surface = NULL, eng_baked_pattern = NULL,
                     eng_cached_scale = 0, eng_baked_dim = 0, eng_pulse_frequency = 1\<rparr>)
     }"

text \<open>The conversion \<open>(int)scale\<close> of a double truncates towards zero.\<close>

definition c_trunc :: "real \<Rightarrow> int" where
  "c_trunc x = (if x < 0 then \<lceil>x\<rceil> else \<lfloor>x\<rfloor>)"

text \<open>The animation factor of lines 126 to 130.\<close>

definition pulse_scale :: "real \<Rightarrow> real \<Rightarrow> real" where
  "pulse_scale pulse_frequency elapsed_sec =
     (let pulse = sin (elapsed_sec * pulse_frequency * 2 * pi);
          anim_scale = 1 + 0.15 * pulse
      in if anim_scale \<le> 0.001 then 0.001 else anim_scale)"

definition kl_render_engine_draw ::
  "env \<Rightarrow> kl_render_engine \<Rightarrow> ptr \<Rightarrow> u32 \<Rightarrow> u32 \<Rightarrow> real \<Rightarrow> real \<Rightarrow> (log, kl_render_engine) state" where
  "kl_render_engine_draw E engine cr logical_width logical_height scale elapsed_sec =
     (if cr = NULL \<or> logical_width = 0 \<or> logical_height = 0 then ret_m engine
      else
        let scale_int = (if c_trunc scale < 1 then 1 else c_trunc scale) in
        do {
          (baked, engine) \<leftarrow> kl_render_ensure_baked_surface E engine scale_int;
          if \<not> baked then ret_m engine
          else
            let anim_scale = pulse_scale (eng_pulse_frequency engine) elapsed_sec;
                center_x = real_of_int (uint logical_width) / 2;
                center_y = real_of_int (uint logical_height) / 2;
                half_dim = real_of_int KL_BASE_TEXTURE_DIM / 2
            in do {
              _ \<leftarrow> cairo E (cairo_draw cr (cairo_set_operator CAIRO_OPERATOR_SOURCE));
              _ \<leftarrow> cairo E (cairo_draw cr (cairo_set_source_rgb 0.067 0.067 0.106));
              _ \<leftarrow> cairo E (cairo_draw cr cairo_paint);
              _ \<leftarrow> cairo E (cairo_draw cr (cairo_set_operator CAIRO_OPERATOR_OVER));
              _ \<leftarrow> cairo E (cairo_draw cr cairo_save);
              _ \<leftarrow> cairo E (cairo_draw cr (cairo_translate center_x center_y));
              _ \<leftarrow> cairo E (cairo_draw cr (cairo_scale (anim_scale / real_of_int scale_int)
                                                (anim_scale / real_of_int scale_int)));
              _ \<leftarrow> cairo E (cairo_draw cr (cairo_translate (- half_dim * real_of_int scale_int)
                                                    (- half_dim * real_of_int scale_int)));
              _ \<leftarrow> cairo E (cairo_draw cr (cairo_set_source (eng_baked_pattern engine)));
              _ \<leftarrow> cairo E (cairo_draw cr cairo_paint);
              _ \<leftarrow> cairo E (cairo_draw cr cairo_restore);
              ret_m engine
            }
        })"

definition kl_render_engine_destroy :: "env \<Rightarrow> kl_render_engine \<Rightarrow> (log, unit) state" where
  "kl_render_engine_destroy E engine =
     do {
       engine \<leftarrow> kl_render_cleanup_baked E engine;
       _ \<leftarrow> sys E (sys_free (eng_addr engine));
       ret_m ()
     }"

text \<open>
  \<open>pi\<close> and \<open>sin\<close> have no executable equations.  These two let the program be evaluated
  by \<open>code_simp\<close> on inputs that draw nothing.
\<close>

lemma pi_code [code]: "pi = Code.abort (STR ''pi'') (\<lambda>_. pi)"
  by simp

lemma pulse_scale_code [code]: "pulse_scale f t = Code.abort (STR ''sin'') (\<lambda>_. pulse_scale f t)"
  by simp

subsection \<open>What an engine holds\<close>

definition eng_owned :: "kl_render_engine \<Rightarrow> resource multiset" where
  "eng_owned engine =
     add_mset (Heap (eng_addr engine))
       (own CSurface (eng_baked_surface engine) + own CPattern (eng_baked_pattern engine))"

text \<open>Either a complete texture for a positive scale is cached or nothing is.\<close>

definition eng_inv :: "kl_render_engine \<Rightarrow> bool" where
  "eng_inv engine \<longleftrightarrow>
     (if eng_baked_surface engine = NULL
      then eng_baked_pattern engine = NULL \<and> eng_cached_scale engine = 0 \<and> eng_baked_dim engine = 0
      else eng_baked_pattern engine \<noteq> NULL \<and> 0 < eng_cached_scale engine \<and>
           eng_baked_dim engine = 256 * eng_cached_scale engine) \<and>
     eng_pulse_frequency engine = 1"

subsection \<open>Every path accounts for its resources\<close>

lemma c_trunc_of_int [simp]: "c_trunc (of_int n) = n"
  by (simp add: c_trunc_def)

lemma kl_render_cleanup_baked_ledger:
  assumes E: "env_ok E" and h: "ledger h (F + eng_owned engine)"
    and Q: "\<And>h'. ledger h' (add_mset (Heap (eng_addr engine)) F) \<Longrightarrow>
      Q (engine\<lparr>eng_baked_surface := NULL, eng_baked_pattern := NULL, eng_cached_scale := 0,
           eng_baked_dim := 0\<rparr>) h'"
  shows "wp (kl_render_cleanup_baked E engine) Q h"
proof -
  have Q': "Q e h'" if "ledger h' L" "L = add_mset (Heap (eng_addr engine)) F"
    "e = engine\<lparr>eng_baked_surface := NULL, eng_baked_pattern := NULL, eng_cached_scale := 0,
           eng_baked_dim := 0\<rparr>" for e h' L
    using Q that by simp
  show ?thesis
    unfolding kl_render_cleanup_baked_def
    by (insert h)
       ((rule ifI
         | (rule wp_ext_ledger [OF E], assumption, (simp add: ledger_simps eng_owned_def; fail))
         | (rule Q', assumption, (simp add: ledger_simps eng_owned_def; fail)+)
         | simp only: wp_simps)+)
qed

lemma kl_render_bake_ledger:
  assumes E: "env_ok E" and h: "ledger h L" and cr: "CContext cr \<in># L"
    and Q: "\<And>h'. ledger h' L \<Longrightarrow> Q () h'"
  shows "wp (kl_render_bake E cr scale) Q h"
  unfolding kl_render_bake_def
  by (insert h cr)
     ((rule ifI | (rule wp_ext_ledger [OF E], assumption, (simp add: ledger_simps; fail))
       | (rule Q, (simp add: ledger_simps; fail)) | simp only: wp_simps)+)

lemma kl_render_ensure_baked_surface_ledger:
  assumes E: "env_ok E" and h: "ledger h (F + eng_owned engine)" and i: "eng_inv engine" "0 < scale"
    and Q: "\<And>b engine' h'. ledger h' (F + eng_owned engine') \<Longrightarrow> eng_inv engine' \<Longrightarrow>
      eng_addr engine' = eng_addr engine \<Longrightarrow>
      (b \<Longrightarrow> eng_baked_pattern engine' \<noteq> NULL \<and> eng_cached_scale engine' = scale) \<Longrightarrow>
      Q (b, engine') h'"
  shows "wp (kl_render_ensure_baked_surface E engine scale) Q h"
  unfolding kl_render_ensure_baked_surface_def
  apply (insert h i)
  apply ((rule ifI
       | (rule kl_render_cleanup_baked_ledger [OF E], assumption)
       | (rule kl_render_cleanup_baked_ledger [OF E, where F = F],
          (simp add: ledger_simps eng_owned_def add_mset_commute; fail))
       | (rule kl_render_bake_ledger [OF E], assumption, (simp add: ledger_simps; fail))
       | (rule wp_ext_ledger [OF E], assumption, (simp add: ledger_simps eng_owned_def; fail))
       | (rule Q, (simp add: ledger_simps eng_owned_def eng_inv_def KL_BASE_TEXTURE_DIM_def add_mset_commute; fail)+)
       | simp only: wp_simps)+)
  done

lemma kl_render_engine_create_ledger:
  assumes E: "env_ok E" and h: "ledger h F"
    and N: "\<And>h'. ledger h' F \<Longrightarrow> Q None h'"
    and S: "\<And>engine h'. ledger h' (F + eng_owned engine) \<Longrightarrow> eng_inv engine \<Longrightarrow> Q (Some engine) h'"
  shows "wp (kl_render_engine_create E) Q h"
  unfolding kl_render_engine_create_def
  apply (simp only: wp_simps)
  apply (rule wp_ext_ledger [OF E h])
  by (auto simp add: ledger_simps eng_owned_def eng_inv_def intro!: N S)

lemma kl_render_engine_draw_ledger:
  assumes E: "env_ok E" and h: "ledger h (F + eng_owned engine)" and i: "eng_inv engine"
    and cr: "cr \<noteq> NULL \<Longrightarrow> CContext cr \<in># F"
    and Q: "\<And>engine' h'. ledger h' (F + eng_owned engine') \<Longrightarrow> eng_inv engine' \<Longrightarrow>
      eng_addr engine' = eng_addr engine \<Longrightarrow> Q engine' h'"
  shows "wp (kl_render_engine_draw E engine cr w hgt scale t) Q h"
  unfolding kl_render_engine_draw_def
  apply (insert h i cr)
  apply ((rule ifI
       | (rule kl_render_ensure_baked_surface_ledger [OF E], assumption, assumption, (simp; fail))
       | (rule wp_ext_ledger [OF E], assumption, (simp add: ledger_simps eng_owned_def; fail))
       | (rule Q, (simp add: ledger_simps; fail)+)
       | simp only: wp_simps prod.sel)+)
  done

lemma kl_render_engine_destroy_ledger:
  assumes E: "env_ok E" and h: "ledger h (F + eng_owned engine)"
    and Q: "\<And>h'. ledger h' F \<Longrightarrow> Q () h'"
  shows "wp (kl_render_engine_destroy E engine) Q h"
  unfolding kl_render_engine_destroy_def
  apply (insert h)
  apply ((rule kl_render_cleanup_baked_ledger [OF E], assumption)
       | (rule wp_ext_ledger [OF E], assumption, (simp add: ledger_simps eng_owned_def; fail))
       | (rule Q, (simp add: ledger_simps eng_owned_def; fail)+)
       | simp only: wp_simps)+
  done

interpretation eng: resource_destructor "\<lambda>_. True" eng_owned kl_render_engine_destroy
    "\<lambda>_. True" "\<lambda>_. {#}"
  by unfold_locales (auto intro: kl_render_engine_destroy_ledger)

subsection \<open>Properties\<close>

text \<open>
  Drawing a frame keeps the texture cache consistent (either nothing or a complete texture
  of 256 times the cached scale is baked), uses only live cairo objects, and neither leaks nor
  double-frees one, whichever of cairo's constructors fail.
\<close>

theorem kl_render_engine_draw_accounts:
  assumes "env_ok E" and "safe h" and "live h = F + eng_owned engine" and "eng_inv engine"
    and "cr = NULL \<or> CContext cr \<in># F"
    and "run_state (kl_render_engine_draw E engine cr width height scale t) h = (engine', h')"
  shows "safe h' \<and> live h' = F + eng_owned engine' \<and> eng_inv engine'"
proof -
  have "wp (kl_render_engine_draw E engine cr width height scale t)
    (\<lambda>engine' h'. ledger h' (F + eng_owned engine') \<and> eng_inv engine') h"
    by (rule kl_render_engine_draw_ledger [OF assms(1) ledgerI [OF assms(2,3)] assms(4)])
       (use assms(5) in auto)
  from wp_run [OF this assms(6)] show ?thesis by (simp add: ledger_def)
qed

definition sample_engine :: kl_render_engine where
  "sample_engine = \<lparr>eng_addr = 7, eng_baked_surface = NULL, eng_baked_pattern = NULL,
     eng_cached_scale = 0, eng_baked_dim = 0, eng_pulse_frequency = 1\<rparr>"

theorem kl_render_engine_draw_accounts_witness:
  "let h = [(Cr (cairo_create 7), 7), (Cr (cairo_image_surface_create 64 64), 7), (Sys sys_calloc, 7)];
       (engine', h') = run_state (kl_render_engine_draw sample_env sample_engine 7 64 64 2 0) h
   in safe h' \<and> live h' = {#CContext 7, CSurface 7#} + eng_owned engine' \<and> eng_inv engine'"
proof -
  let ?h = "[(Cr (cairo_create 7), 7), (Cr (cairo_image_surface_create 64 64), 7),
    (Sys sys_calloc, 7)] :: log"
  obtain engine' h' where
    run: "run_state (kl_render_engine_draw sample_env sample_engine 7 64 64 2 0) ?h = (engine', h')"
    by (metis prod.exhaust)
  have "safe ?h" and "live ?h = {#CContext 7, CSurface 7#} + eng_owned sample_engine"
    and "eng_inv sample_engine"
    by (simp_all add: ledger_simps eng_owned_def sample_engine_def eng_inv_def add_mset_commute)
  from kl_render_engine_draw_accounts [OF sample_env_ok this _ run] show ?thesis
    by (simp add: run)
qed

text \<open>
  Once a texture is baked for a scale, drawing again at that scale bakes nothing: the engine
  is unchanged and exactly the eleven drawing calls of the blit are made, all on the given
  context.
\<close>

theorem kl_render_engine_draw_cached:
  assumes "eng_inv engine" and "eng_cached_scale engine = c_trunc scale" and "1 \<le> c_trunc scale"
    and "cr \<noteq> NULL" and "width \<noteq> 0" and "height \<noteq> 0"
    and "run_state (kl_render_engine_draw E engine cr width height scale t) h = (engine', h')"
  shows "engine' = engine \<and>
    (\<exists>ops. length ops = 11 \<and> map fst h' = map (\<lambda>d. Cr (cairo_draw cr d)) ops @ map fst h)"
proof -
  have baked: "run_state (kl_render_ensure_baked_surface E engine (c_trunc scale)) h
      = ((True, engine), h)" for h
    using assms(1-3) by (auto simp: kl_render_ensure_baked_surface_def eng_inv_def split: if_splits)
  let ?Q = "\<lambda>e h'. e = engine \<and>
    (\<exists>ops. length ops = 11 \<and> map fst h' = map (\<lambda>d. Cr (cairo_draw cr d)) ops @ map fst h)"
  have "wp (kl_render_engine_draw E engine cr width height scale t) ?Q h"
    using assms(3-6) unfolding kl_render_engine_draw_def
    by (simp add: wp_def baked Let_def Cons_eq_map_conv)
  from wp_run [OF this assms(7)] show ?thesis .
qed

theorem kl_render_engine_draw_cached_witness:
  "let engine = sample_engine\<lparr>eng_baked_surface := 7, eng_baked_pattern := 7,
         eng_cached_scale := 2, eng_baked_dim := 512\<rparr>;
       (engine', h') = run_state (kl_render_engine_draw sample_env engine 7 64 64 2 0) []
   in engine' = engine \<and>
    (\<exists>ops. length ops = 11 \<and> map fst h' = map (\<lambda>d. Cr (cairo_draw 7 d)) ops)"
proof -
  let ?e = "sample_engine\<lparr>eng_baked_surface := 7, eng_baked_pattern := 7,
         eng_cached_scale := 2, eng_baked_dim := 512\<rparr>"
  obtain engine' h' where
    run: "run_state (kl_render_engine_draw sample_env ?e 7 64 64 2 0) [] = (engine', h')"
    by (metis prod.exhaust)
  have "eng_inv ?e" and "eng_cached_scale ?e = c_trunc 2" and "1 \<le> c_trunc 2"
    by (simp_all add: eng_inv_def sample_engine_def c_trunc_def)
  from kl_render_engine_draw_cached [OF this _ _ _ run] show ?thesis by (simp add: run Let_def)
qed

text \<open>
  (C40) The animation factor lies between 0.85 and 1.15 at every time and frequency; its clamp to
  0.001 is never taken.
\<close>

theorem pulse_scale_bounds:
  "0.85 \<le> pulse_scale f t \<and> pulse_scale f t \<le> 1.15 \<and>
   pulse_scale f t = 1 + 0.15 * sin (t * f * 2 * pi)"
proof -
  define x where "x = sin (t * f * 2 * pi)"
  have "-1 \<le> x" and "x \<le> 1" by (simp_all add: x_def)
  then show ?thesis unfolding pulse_scale_def Let_def x_def [symmetric] by auto
qed

end
