(* ===== verification/Surface.thy ===== *)
theory Surface
  imports Buffer Render
begin

section \<open>Output surfaces (src/src/surface.c)\<close>

text \<open>
  \<open>struct kl_surface\<close>, one per output, with its three buffers and its render engine, and the
  functions and listeners of surface.c.  A surface is a heap object; its address
  \<open>surf_addr\<close> is what listeners get as user data.  \<open>struct kl_context\<close> (lock.h) is
  declared here because surface.c reads it through \<open>surf->ctx\<close>.  Functions take the struct by
  value and return the changed one.

  \<open>surf_inv\<close> is the invariant of a surface: a frame callback exists exactly while a frame is
  pending, the wl\_surface and the lock surface exist together, a configured surface has them, a
  busy buffer has a wl\_buffer.  The lemmas show that every operation and listener keeps it and
  accounts for every resource of the surface.
\<close>

subsection \<open>Model\<close>

record kl_surface =
  surf_addr :: ptr
  surf_global_name :: u32
  surf_wl_output :: ptr
  surf_wl_surface :: ptr
  surf_ext_lock_surface :: ptr
  surf_frame_callback :: ptr
  surf_buffers :: "kl_buffer list"
  surf_current_buffer :: nat
  surf_width :: u32
  surf_height :: u32
  surf_scale :: int
  surf_configured :: bool
  surf_frame_pending :: bool
  surf_dirty :: bool
  surf_engine :: "kl_render_engine option"
  surf_start_time_ns :: u64
  surf_last_frame_time_ns :: u64
  surf_ctx :: ptr

record kl_context =
  ctx_display :: ptr
  ctx_registry :: ptr
  ctx_compositor :: ptr
  ctx_shm :: ptr
  ctx_lock_manager :: ptr
  ctx_lock :: ptr
  ctx_surfaces :: "kl_surface list"
  ctx_is_locked :: bool
  ctx_is_finished :: bool
  ctx_failed :: bool

definition KL_SURFACE_BUFFER_COUNT :: nat where "KL_SURFACE_BUFFER_COUNT = 3"

text \<open>The address of the function \<open>kl_surface_on_buffer_release\<close>, as stored in a buffer.\<close>

definition on_buffer_release_ptr :: ptr where "on_buffer_release_ptr = 1"

definition kl_get_time_ns :: "env \<Rightarrow> (log, u64) state" where
  "kl_get_time_ns E =
     do {
       r \<leftarrow> sys E sys_clock_gettime;
       (sec, nsec) \<leftarrow> peek (clock E);
       ret_m (if r < 0 then 0 else word_of_int sec * 1000000000 + word_of_int nsec)
     }"

definition kl_surface_get_free_buffer :: "kl_surface \<Rightarrow> nat option \<times> kl_surface" where
  "kl_surface_get_free_buffer surf =
     (case find (\<lambda>idx. buf_busy (surf_buffers surf ! idx) = 0)
             (map (\<lambda>i. (surf_current_buffer surf + 1 + i) mod KL_SURFACE_BUFFER_COUNT)
               [0..<KL_SURFACE_BUFFER_COUNT]) of
        None \<Rightarrow> (None, surf)
      | Some idx \<Rightarrow> (Some idx, surf\<lparr>surf_current_buffer := idx\<rparr>))"

text \<open>Lines 267 to 276: a free buffer of the wrong size is made anew; \<open>False\<close> is the early
  return of a failed allocation.\<close>

definition kl_surface_fit_buffer ::
  "env \<Rightarrow> kl_context \<Rightarrow> kl_surface \<Rightarrow> nat \<Rightarrow> (log, bool \<times> kl_surface) state" where
  "kl_surface_fit_buffer E ctx surf idx =
     (let buf = surf_buffers surf ! idx in
      if buf_width buf \<noteq> surf_width surf \<or> buf_height buf \<noteq> surf_height surf \<or>
         buf_scale buf \<noteq> surf_scale surf \<or> buf_wl_buffer buf = NULL
      then do {
        buf \<leftarrow> kl_buffer_destroy E buf;
        (r, buf) \<leftarrow> kl_buffer_create E (ctx_shm ctx) buf (surf_width surf) (surf_height surf)
                      (surf_scale surf) on_buffer_release_ptr (surf_addr surf);
        ret_m (\<not> r < 0, surf\<lparr>surf_buffers := (surf_buffers surf)[idx := buf]\<rparr>)
      }
      else ret_m (True, surf))"

text \<open>Lines 278 to 291: the time of the frame and its picture.\<close>

definition kl_surface_paint :: "env \<Rightarrow> kl_surface \<Rightarrow> nat \<Rightarrow> (log, kl_surface) state" where
  "kl_surface_paint E surf idx =
     do {
       current_time_ns \<leftarrow> kl_get_time_ns E;
       surf \<leftarrow> ret_m (if surf_start_time_ns surf = 0
          then surf\<lparr>surf_start_time_ns := current_time_ns,
                   surf_last_frame_time_ns := current_time_ns\<rparr>
          else surf);
       elapsed_sec \<leftarrow> ret_m (real_of_int (uint (current_time_ns - surf_start_time_ns surf)) / 1000000000);
       surf \<leftarrow> ret_m (surf\<lparr>surf_last_frame_time_ns := current_time_ns\<rparr>);
       buf \<leftarrow> ret_m (surf_buffers surf ! idx);
       _ \<leftarrow> kl_buffer_prepare E buf;
       surf \<leftarrow> (case surf_engine surf of
           None \<Rightarrow> ret_m surf
         | Some engine \<Rightarrow> do {
             engine \<leftarrow> kl_render_engine_draw E engine (buf_cr buf) (surf_width surf)
                         (surf_height surf) (real_of_int (surf_scale surf)) elapsed_sec;
             ret_m (surf\<lparr>surf_engine := Some engine\<rparr>) });
       _ \<leftarrow> kl_buffer_flush E buf;
       ret_m surf
     }"

text \<open>Lines 293 to 320: hand the buffer to the compositor and ask for the next frame.\<close>

definition kl_surface_submit :: "env \<Rightarrow> kl_surface \<Rightarrow> nat \<Rightarrow> (log, kl_surface) state" where
  "kl_surface_submit E surf idx =
     (let buf = surf_buffers surf ! idx;
          surf = surf\<lparr>surf_buffers := (surf_buffers surf)[idx := buf\<lparr>buf_busy := 1\<rparr>]\<rparr>;
          ws = surf_wl_surface surf
      in do {
        _ \<leftarrow> wl E (wl_surface_set_buffer_scale ws (surf_scale surf));
        _ \<leftarrow> wl E (wl_surface_attach ws (buf_wl_buffer buf));
        _ \<leftarrow> wl E (wl_surface_damage ws 0 0 (sint (surf_width surf)) (sint (surf_height surf)));
        callback \<leftarrow> wl E (wl_surface_frame ws);
        surf \<leftarrow> ret_m (surf\<lparr>surf_frame_callback := callback\<rparr>);
        if callback = NULL then do {
          _ \<leftarrow> wl E (wl_surface_commit ws);
          ret_m (surf\<lparr>surf_frame_pending := False\<rparr>) }
        else do {
          r \<leftarrow> wl E (wl_callback_add_listener callback);
          if r < 0 then do {
            _ \<leftarrow> wl E (wl_callback_destroy callback);
            _ \<leftarrow> wl E (wl_surface_commit ws);
            ret_m (surf\<lparr>surf_frame_callback := NULL, surf_frame_pending := False\<rparr>) }
          else do {
            _ \<leftarrow> wl E (wl_surface_commit ws);
            ret_m (surf\<lparr>surf_frame_pending := True, surf_dirty := False\<rparr>) }
        }
      })"

definition kl_surface_render_frame ::
  "env \<Rightarrow> kl_context \<Rightarrow> kl_surface \<Rightarrow> (log, kl_surface) state" where
  "kl_surface_render_frame E ctx surf =
     (if \<not> surf_configured surf \<or> surf_ctx surf = NULL \<or> surf_frame_pending surf then ret_m surf
      else if surf_wl_surface surf = NULL \<or> surf_width surf = 0 \<or> surf_height surf = 0
      then ret_m surf
      else case kl_surface_get_free_buffer surf of
          (None, surf) \<Rightarrow> ret_m (surf\<lparr>surf_dirty := True\<rparr>)
        | (Some idx, surf) \<Rightarrow> do {
            (fits, surf) \<leftarrow> kl_surface_fit_buffer E ctx surf idx;
            if \<not> fits then ret_m surf
            else do {
              surf \<leftarrow> kl_surface_paint E surf idx;
              kl_surface_submit E surf idx
            }
          })"

definition kl_surface_request_render ::
  "env \<Rightarrow> kl_context \<Rightarrow> kl_surface \<Rightarrow> (log, kl_surface) state" where
  "kl_surface_request_render E ctx surf =
     (let surf = surf\<lparr>surf_dirty := True\<rparr> in
      if \<not> surf_frame_pending surf \<and> surf_configured surf
      then kl_surface_render_frame E ctx surf
      else ret_m surf)"

definition kl_output_handle_geometry :: "kl_surface \<Rightarrow> kl_surface" where
  "kl_output_handle_geometry surf = surf"

definition kl_output_handle_mode :: "kl_surface \<Rightarrow> kl_surface" where
  "kl_output_handle_mode surf = surf"

definition kl_output_handle_done :: "kl_surface \<Rightarrow> kl_surface" where
  "kl_output_handle_done surf = surf"

definition kl_output_handle_scale ::
  "env \<Rightarrow> kl_context \<Rightarrow> kl_surface \<Rightarrow> int \<Rightarrow> (log, kl_surface) state" where
  "kl_output_handle_scale E ctx surf factor =
     (if factor > 0 \<and> surf_scale surf \<noteq> factor
      then kl_surface_request_render E ctx (surf\<lparr>surf_scale := factor, surf_dirty := True\<rparr>)
      else ret_m surf)"

definition kl_surface_frame_handle_done ::
  "env \<Rightarrow> kl_context \<Rightarrow> kl_surface option \<Rightarrow> ptr \<Rightarrow> (log, kl_surface option) state" where
  "kl_surface_frame_handle_done E ctx data callback =
     do {
       _ \<leftarrow> (if callback \<noteq> NULL then wl E (wl_callback_destroy callback) else ret_m 0);
       case data of
         None \<Rightarrow> ret_m None
       | Some surf \<Rightarrow> do {
           surf \<leftarrow> kl_surface_render_frame E ctx
                     (surf\<lparr>surf_frame_callback := NULL, surf_frame_pending := False\<rparr>);
           ret_m (Some surf) }
     }"

definition kl_surface_on_buffer_release ::
  "env \<Rightarrow> kl_context \<Rightarrow> kl_surface \<Rightarrow> (log, kl_surface) state" where
  "kl_surface_on_buffer_release E ctx surf =
     (if surf_dirty surf \<and> \<not> surf_frame_pending surf \<and> surf_configured surf
      then kl_surface_render_frame E ctx surf else ret_m surf)"

text \<open>
  The release event of the buffer \<open>idx\<close>: buffer.c's listener clears \<open>busy\<close> and calls the
  \<open>on_release\<close> of the buffer, which is \<open>kl_surface_on_buffer_release\<close> with the surface as
  user data (line 271) or, in a buffer that was never made, null.
\<close>

definition surface_buffer_released ::
  "env \<Rightarrow> kl_context \<Rightarrow> kl_surface \<Rightarrow> nat \<Rightarrow> (log, kl_surface) state" where
  "surface_buffer_released E ctx surf idx =
     (let (buf, callback) = kl_buffer_handle_release (surf_buffers surf ! idx);
          surf = surf\<lparr>surf_buffers := (surf_buffers surf)[idx := buf]\<rparr>
      in case callback of None \<Rightarrow> ret_m surf
         | Some _ \<Rightarrow> kl_surface_on_buffer_release E ctx surf)"

definition kl_lock_surface_handle_configure ::
  "env \<Rightarrow> kl_context \<Rightarrow> kl_surface \<Rightarrow> ptr \<Rightarrow> u32 \<Rightarrow> u32 \<Rightarrow> u32 \<Rightarrow> (log, kl_surface) state" where
  "kl_lock_surface_handle_configure E ctx surf ext_surface serial width height =
     (if ext_surface = NULL then ret_m surf
      else do {
        surf \<leftarrow> ret_m (surf\<lparr>surf_width := width, surf_height := height\<rparr>);
        _ \<leftarrow> lk E (ext_session_lock_surface_v1_ack_configure ext_surface serial);
        kl_surface_request_render E ctx (surf\<lparr>surf_configured := True\<rparr>)
      })"

definition kl_surface_create :: "env \<Rightarrow> ptr \<Rightarrow> ptr \<Rightarrow> u32 \<Rightarrow> (log, kl_surface option) state" where
  "kl_surface_create E ctx output name =
     (if ctx = NULL \<or> output = NULL then ret_m None
      else do {
        surf \<leftarrow> sys E sys_calloc;
        if surf = NULL then ret_m None
        else do {
          engine \<leftarrow> kl_render_engine_create E;
          case engine of
            None \<Rightarrow> do { _ \<leftarrow> sys E (sys_free surf); ret_m None }
          | Some engine \<Rightarrow> do {
              _ \<leftarrow> wl E (wl_output_add_listener output);
              ret_m (Some \<lparr>surf_addr = surf, surf_global_name = name, surf_wl_output = output,
                surf_wl_surface = NULL, surf_ext_lock_surface = NULL, surf_frame_callback = NULL,
                surf_buffers = replicate KL_SURFACE_BUFFER_COUNT kl_buffer_zero,
                surf_current_buffer = 0, surf_width = 0, surf_height = 0, surf_scale = 1,
                surf_configured = False, surf_frame_pending = False, surf_dirty = True,
                surf_engine = Some engine, surf_start_time_ns = 0, surf_last_frame_time_ns = 0,
                surf_ctx = ctx\<rparr>)
            }
        }
      })"

definition kl_surface_attach_lock ::
  "env \<Rightarrow> kl_context \<Rightarrow> kl_surface \<Rightarrow> (log, int \<times> kl_surface) state" where
  "kl_surface_attach_lock E ctx surf =
     (if surf_ctx surf = NULL \<or> ctx_lock ctx = NULL \<or> ctx_compositor ctx = NULL
      then ret_m (-1, surf)
      else if surf_ext_lock_surface surf \<noteq> NULL then ret_m (0, surf)
      else do {
        wl_surface \<leftarrow> wl E (wl_compositor_create_surface (ctx_compositor ctx));
        surf \<leftarrow> ret_m (surf\<lparr>surf_wl_surface := wl_surface\<rparr>);
        if wl_surface = NULL then ret_m (-1, surf)
        else do {
          ext_surface \<leftarrow> lk E (ext_session_lock_v1_get_lock_surface (ctx_lock ctx) wl_surface
                                (surf_wl_output surf));
          surf \<leftarrow> ret_m (surf\<lparr>surf_ext_lock_surface := ext_surface\<rparr>);
          if ext_surface = NULL then do {
            _ \<leftarrow> wl E (wl_surface_destroy wl_surface);
            ret_m (-1, surf\<lparr>surf_wl_surface := NULL\<rparr>) }
          else do {
            r \<leftarrow> lk E (ext_session_lock_surface_v1_add_listener ext_surface);
            if r < 0 then ret_m (-1, surf) else ret_m (0, surf)
          }
        }
      })"

definition kl_surface_detach_lock :: "env \<Rightarrow> kl_surface \<Rightarrow> (log, kl_surface) state" where
  "kl_surface_detach_lock E surf =
     do {
       surf \<leftarrow> (if surf_frame_callback surf \<noteq> NULL
         then do { _ \<leftarrow> wl E (wl_callback_destroy (surf_frame_callback surf));
                   ret_m (surf\<lparr>surf_frame_callback := NULL\<rparr>) }
         else ret_m surf);
       buffers \<leftarrow> map_m (kl_buffer_destroy E) (surf_buffers surf);
       surf \<leftarrow> ret_m (surf\<lparr>surf_buffers := buffers\<rparr>);
       surf \<leftarrow> (if surf_ext_lock_surface surf \<noteq> NULL
         then do { _ \<leftarrow> lk E (ext_session_lock_surface_v1_destroy (surf_ext_lock_surface surf));
                   ret_m (surf\<lparr>surf_ext_lock_surface := NULL\<rparr>) }
         else ret_m surf);
       surf \<leftarrow> (if surf_wl_surface surf \<noteq> NULL
         then do { _ \<leftarrow> wl E (wl_surface_destroy (surf_wl_surface surf));
                   ret_m (surf\<lparr>surf_wl_surface := NULL\<rparr>) }
         else ret_m surf);
       ret_m (surf\<lparr>surf_configured := False, surf_frame_pending := False, surf_dirty := True,
                surf_width := 0, surf_height := 0, surf_current_buffer := 0,
                surf_start_time_ns := 0, surf_last_frame_time_ns := 0\<rparr>)
     }"

text \<open>\<open>WL_OUTPUT_RELEASE_SINCE_VERSION\<close> is 3.  Used here and by the registry listener.\<close>

definition release_output :: "env \<Rightarrow> ptr \<Rightarrow> (log, unit) state" where
  "release_output E output =
     do {
       version \<leftarrow> wl E (wl_output_get_version output);
       _ \<leftarrow> (if version \<ge> 3 then wl E (wl_output_release output) else wl E (wl_output_destroy output));
       ret_m ()
     }"

definition kl_surface_destroy :: "env \<Rightarrow> kl_surface \<Rightarrow> (log, unit) state" where
  "kl_surface_destroy E surf =
     do {
       surf \<leftarrow> kl_surface_detach_lock E surf;
       _ \<leftarrow> (case surf_engine surf of None \<Rightarrow> ret_m ()
            | Some engine \<Rightarrow> kl_render_engine_destroy E engine);
       _ \<leftarrow> (if surf_wl_output surf \<noteq> NULL then release_output E (surf_wl_output surf)
            else ret_m ());
       _ \<leftarrow> sys E (sys_free (surf_addr surf));
       ret_m ()
     }"

subsection \<open>Invariant and resources of a surface\<close>

definition buf_inv :: "kl_buffer \<Rightarrow> bool" where
  "buf_inv buf \<longleftrightarrow>
     (if buf_wl_buffer buf = NULL then buf_void buf \<and> buf_busy buf = 0
      else buf_ready (buf_width buf) (buf_height buf) (buf_scale buf) (buf\<lparr>buf_busy := 0\<rparr>) \<and>
           (buf_busy buf = 0 \<or> buf_busy buf = 1))"

definition surf_inv :: "kl_surface \<Rightarrow> bool" where
  "surf_inv surf \<longleftrightarrow>
     surf_addr surf \<noteq> NULL \<and> surf_wl_output surf \<noteq> NULL \<and> surf_ctx surf \<noteq> NULL \<and>
     length (surf_buffers surf) = 3 \<and> (\<forall>buf \<in> set (surf_buffers surf). buf_inv buf) \<and>
     surf_current_buffer surf < 3 \<and> 0 < surf_scale surf \<and>
     (surf_frame_pending surf \<longleftrightarrow> surf_frame_callback surf \<noteq> NULL) \<and>
     (surf_wl_surface surf = NULL \<longleftrightarrow> surf_ext_lock_surface surf = NULL) \<and>
     (surf_configured surf \<longrightarrow> surf_wl_surface surf \<noteq> NULL) \<and>
     (surf_frame_pending surf \<longrightarrow> surf_configured surf) \<and>
     (\<exists>engine. surf_engine surf = Some engine \<and> eng_inv engine)"

definition surf_proxies :: "kl_surface \<Rightarrow> resource multiset" where
  "surf_proxies surf =
     own Proxy (surf_wl_surface surf) + own Proxy (surf_ext_lock_surface surf) +
     own Proxy (surf_frame_callback surf)"

definition surf_core :: "kl_surface \<Rightarrow> resource multiset" where
  "surf_core surf = {#Heap (surf_addr surf), Proxy (surf_wl_output surf)#}"

definition engine_owned :: "kl_surface \<Rightarrow> resource multiset" where
  "engine_owned surf = (case surf_engine surf of None \<Rightarrow> {#} | Some engine \<Rightarrow> eng_owned engine)"

definition surf_owned :: "kl_surface \<Rightarrow> resource multiset" where
  "surf_owned surf =
     surf_core surf + surf_proxies surf + sum_list (map buf_owned (surf_buffers surf)) +
     engine_owned surf"

lemmas owned_defs = surf_owned_def surf_core_def surf_proxies_def engine_owned_def

text \<open>What no operation on a live surface changes, and what rendering never changes.\<close>

definition surf_link :: "kl_surface \<Rightarrow> ptr \<times> u32 \<times> ptr \<times> ptr" where
  "surf_link surf = (surf_addr surf, surf_global_name surf, surf_wl_output surf, surf_ctx surf)"

definition surf_view :: "kl_surface \<Rightarrow> ptr \<times> ptr \<times> u32 \<times> u32 \<times> int \<times> bool" where
  "surf_view surf = (surf_wl_surface surf, surf_ext_lock_surface surf, surf_width surf,
     surf_height surf, surf_scale surf, surf_configured surf)"

subsection \<open>Choosing a buffer\<close>

lemma get_free_buffer_cases:
  assumes "kl_surface_get_free_buffer surf = (r, surf')"
  shows "(r = None \<and> surf' = surf) \<or>
    (\<exists>idx < 3. r = Some idx \<and> surf' = surf\<lparr>surf_current_buffer := idx\<rparr> \<and>
       buf_busy (surf_buffers surf ! idx) = 0)"
  using assms
  by (auto simp: kl_surface_get_free_buffer_def KL_SURFACE_BUFFER_COUNT_def find_Some_iff
      split: option.splits)

subsection \<open>Rendering accounts for its resources\<close>

lemma buf_ready_inv: "buf_ready w h s buf \<Longrightarrow> buf_inv buf"
  by (auto simp: buf_inv_def buf_ready_def)

lemma buf_inv_busy:
  "buf_inv buf \<Longrightarrow> buf_wl_buffer buf \<noteq> NULL \<Longrightarrow> b = 0 \<or> b = 1 \<Longrightarrow> buf_inv (buf\<lparr>buf_busy := b\<rparr>)"
  by (auto simp: buf_inv_def)

lemma set_list_update: "\<lbrakk>\<forall>y \<in> set xs. P y; P x\<rbrakk> \<Longrightarrow> \<forall>y \<in> set (xs[i := x]). P y"
  using set_update_subset_insert [of xs i x] by auto

text \<open>The resources of a surface with one buffer set apart.\<close>

definition surf_others :: "kl_surface \<Rightarrow> nat \<Rightarrow> resource multiset" where
  "surf_others surf idx = surf_core surf + surf_proxies surf + engine_owned surf +
     rest buf_owned (surf_buffers surf) idx"

abbreviation put_buf :: "kl_surface \<Rightarrow> nat \<Rightarrow> kl_buffer \<Rightarrow> kl_surface" where
  "put_buf surf idx buf \<equiv> surf\<lparr>surf_buffers := (surf_buffers surf)[idx := buf]\<rparr>"

lemma put_buf_owned:
  assumes "surf_inv surf" and "idx < 3"
  shows "surf_owned (put_buf surf idx buf) = surf_others surf idx + buf_owned buf"
  using assms sum_list_rest [of idx "(surf_buffers surf)[idx := buf]" buf_owned]
  by (simp add: surf_others_def surf_owned_def surf_core_def surf_proxies_def engine_owned_def
      surf_inv_def add_ac)

lemma nth_buf_owned:
  assumes "surf_inv surf" and "idx < 3"
  shows "surf_owned surf = surf_others surf idx + buf_owned (surf_buffers surf ! idx)"
  using put_buf_owned [OF assms, of "surf_buffers surf ! idx"] by simp

lemma put_buf_inv: "surf_inv surf \<Longrightarrow> buf_inv buf \<Longrightarrow> surf_inv (put_buf surf idx buf)"
  using set_list_update [of "surf_buffers surf" buf_inv buf idx] by (auto simp: surf_inv_def)

lemma nth_buf_inv: "surf_inv surf \<Longrightarrow> idx < 3 \<Longrightarrow> buf_inv (surf_buffers surf ! idx)"
  by (simp add: surf_inv_def)

definition fits_surface :: "kl_surface \<Rightarrow> kl_buffer \<Rightarrow> bool" where
  "fits_surface surf buf \<longleftrightarrow> buf_wl_buffer buf \<noteq> NULL \<and> buf_width buf = surf_width surf \<and>
     buf_height buf = surf_height surf \<and> buf_scale buf = surf_scale surf"

lemma create_result:
  assumes "if r = (0::int) then buf_ready (surf_width surf) (surf_height surf) (surf_scale surf) buf
      else r = -1 \<and> buf_void buf" and "buf_busy buf = 0"
  shows "buf_inv buf" and "\<not> r < 0 \<Longrightarrow> fits_surface surf buf"
  using assms
  by (auto simp: buf_ready_inv fits_surface_def buf_inv_def buf_void_def split: if_splits)
     (auto simp: buf_ready_def)

lemma fit_buffer_ledger:
  assumes E: "env_ok E" and h: "ledger h (F + surf_owned surf)" and inv: "surf_inv surf"
    and shm: "ctx_shm ctx \<noteq> NULL \<Longrightarrow> Proxy (ctx_shm ctx) \<in># F"
    and idx: "idx < 3" "buf_busy (surf_buffers surf ! idx) = 0"
    and Q: "\<And>fits buf h'. \<lbrakk>ledger h' (F + surf_owned (put_buf surf idx buf));
       surf_inv (put_buf surf idx buf); fits \<Longrightarrow> fits_surface surf buf\<rbrakk> \<Longrightarrow>
       Q (fits, put_buf surf idx buf) h'"
  shows "wp (kl_surface_fit_buffer E ctx surf idx) Q h"
proof -
  let ?buf = "surf_buffers surf ! idx" and ?G = "F + surf_others surf idx"
  have g: "ledger h (?G + buf_owned ?buf)"
    using h nth_buf_owned [OF inv idx(1)] by (simp add: add_ac)
  have shm': "Proxy (ctx_shm ctx) \<in># ?G" if "ctx_shm ctx \<noteq> NULL" using shm that by simp
  have renewed: "wp (kl_buffer_create E (ctx_shm ctx) buf (surf_width surf) (surf_height surf)
      (surf_scale surf) on_buffer_release_ptr (surf_addr surf))
      (\<lambda>p. Q (\<not> fst p < 0, put_buf surf idx (snd p))) h1"
    if "ledger h1 ?G" "buf_owned buf = {#}" "buf_busy buf = 0" for buf h1
  proof (rule kl_buffer_create_ledger [OF E that(1) shm' that(2,3)])
    fix r :: int and buf' h2
    assume l: "ledger h2 (?G + buf_owned buf')" and busy: "buf_busy buf' = 0"
      and r: "if r = 0 then buf_ready (surf_width surf) (surf_height surf) (surf_scale surf) buf'
        else r = -1 \<and> buf_void buf'"
    show "Q (\<not> fst (r, buf') < 0, put_buf surf idx (snd (r, buf'))) h2"
      using l by (auto simp: put_buf_owned [OF inv idx(1)] add_ac
          intro!: Q put_buf_inv [OF inv] create_result [OF r busy])
  qed
  show ?thesis
    unfolding kl_surface_fit_buffer_def Let_def
    by (simp only: wp_simps prod.sel)
       (auto intro!: ifI kl_buffer_destroy_ledger [OF E g] renewed
         Q [of h ?buf True, simplified list_update_id, simplified] simp: h inv fits_surface_def)
qed

lemma engine_owned_put:
  assumes "surf_engine surf = Some engine"
  shows "surf_owned surf = surf_core surf + surf_proxies surf +
      sum_list (map buf_owned (surf_buffers surf)) + eng_owned engine"
  using assms by (simp add: surf_owned_def engine_owned_def)

lemma buffer_context_live:
  assumes "surf_inv surf" and "idx < 3" and "buf_cr (surf_buffers surf ! idx) \<noteq> NULL"
  shows "CContext (buf_cr (surf_buffers surf ! idx)) \<in># sum_list (map buf_owned (surf_buffers surf))"
  using assms sum_list_rest [of idx "surf_buffers surf" buf_owned]
  by (simp add: surf_inv_def buf_owned_def own_nonnull)

lemma buffer_surface_live:
  assumes "surf_inv surf" and "idx < 3" and "buf_cairo_surface (surf_buffers surf ! idx) \<noteq> NULL"
  shows "CSurface (buf_cairo_surface (surf_buffers surf ! idx)) \<in>#
    sum_list (map buf_owned (surf_buffers surf))"
  using assms sum_list_rest [of idx "surf_buffers surf" buf_owned]
  by (simp add: surf_inv_def buf_owned_def own_nonnull)

lemma buffer_proxy_live:
  assumes "surf_inv surf" and "idx < 3" and "buf_wl_buffer (surf_buffers surf ! idx) \<noteq> NULL"
  shows "Proxy (buf_wl_buffer (surf_buffers surf ! idx)) \<in>#
    sum_list (map buf_owned (surf_buffers surf))"
  using assms sum_list_rest [of idx "surf_buffers surf" buf_owned]
  by (simp add: surf_inv_def buf_owned_def own_nonnull)

text \<open>What painting changes: the frame times and the engine.\<close>

abbreviation painted :: "kl_surface \<Rightarrow> u64 \<Rightarrow> u64 \<Rightarrow> kl_render_engine \<Rightarrow> kl_surface" where
  "painted surf start recent engine \<equiv> surf\<lparr>surf_start_time_ns := start,
     surf_last_frame_time_ns := recent, surf_engine := Some engine\<rparr>"

lemma painted_owned:
  "surf_owned (painted surf s t engine) = surf_core surf + surf_proxies surf +
     sum_list (map buf_owned (surf_buffers surf)) + eng_owned engine"
  by (simp add: owned_defs)

lemma painted_inv: "surf_inv surf \<Longrightarrow> eng_inv engine \<Longrightarrow> surf_inv (painted surf s t engine)"
  by (auto simp: surf_inv_def)

lemma kl_get_time_ns_ledger:
  assumes E: "env_ok E" and h: "ledger h F" and Q: "\<And>t h'. ledger h' F \<Longrightarrow> Q t h'"
  shows "wp (kl_get_time_ns E) Q h"
  unfolding kl_get_time_ns_def
  by (simp only: wp_simps, rule wp_ext_ledger [OF E h])
     (auto simp: ledger_simps wp_simps intro!: wp_peek Q)

lemma paint_ledger:
  assumes E: "env_ok E" and h: "ledger h (F + surf_owned surf)" and inv: "surf_inv surf"
    and idx: "idx < 3"
    and Q: "\<And>start recent engine h'. \<lbrakk>ledger h' (F + surf_owned (painted surf start recent engine));
       surf_inv (painted surf start recent engine)\<rbrakk> \<Longrightarrow> Q (painted surf start recent engine) h'"
  shows "wp (kl_surface_paint E surf idx) Q h"
proof -
  obtain e where e: "surf_engine surf = Some e" "eng_inv e" using inv by (auto simp: surf_inv_def)
  let ?G = "F + surf_core surf + surf_proxies surf + sum_list (map buf_owned (surf_buffers surf))"
  let ?buf = "surf_buffers surf ! idx"
  have hG: "ledger h (?G + eng_owned e)" using h by (simp add: engine_owned_put [OF e(1)] add_ac)
  have cr: "buf_cr ?buf \<noteq> NULL \<Longrightarrow> CContext (buf_cr ?buf) \<in># ?G"
    using buffer_context_live [OF inv idx] by simp
  have cs: "buf_cairo_surface ?buf \<noteq> NULL \<Longrightarrow> CSurface (buf_cairo_surface ?buf) \<in># ?G + x" for x
    using buffer_surface_live [OF inv idx] by simp
  have fin: "Q (painted surf s t e') h'" if "ledger h' (?G + eng_owned e')" "eng_inv e'" for s t e' h'
    using that by (intro Q painted_inv [OF inv]) (simp_all add: painted_owned add_ac)
  have draw: "wp (do {
        _ \<leftarrow> kl_buffer_prepare E ?buf;
        engine \<leftarrow> kl_render_engine_draw E e (buf_cr ?buf) w ht sc el;
        _ \<leftarrow> kl_buffer_flush E ?buf;
        ret_m (painted surf s t engine) }) Q h'"
    if h': "ledger h' (?G + eng_owned e)" for h' w ht sc el s t
    by (simp only: wp_simps)
       (rule kl_buffer_prepare_ledger [OF E h'], use cr in simp,
        rule kl_render_engine_draw_ledger [OF E _ e(2) cr], assumption+,
        rule kl_buffer_flush_ledger [OF E _ cs], assumption+, erule (1) fin)
  have same_start: "painted surf (surf_start_time_ns surf) t a =
      surf\<lparr>surf_last_frame_time_ns := t, surf_engine := Some a\<rparr>" for t a
    by (cases surf) simp
  show ?thesis
    unfolding kl_surface_paint_def
    apply (simp only: wp_bind)
    apply (rule kl_get_time_ns_ledger [OF E hG])
    subgoal for t h'
      using draw [where h' = h' and s = "surf_start_time_ns surf"] draw [where h' = h']
      by (cases "surf_start_time_ns surf = 0") (simp_all add: wp_simps e(1) same_start)
    done
qed

lemma submit_ledger:
  assumes E: "env_ok E" and h: "ledger h (F + surf_owned surf)" and inv: "surf_inv surf"
    and idx: "idx < 3" "fits_surface surf (surf_buffers surf ! idx)"
    and st: "surf_wl_surface surf \<noteq> NULL" "surf_configured surf" "\<not> surf_frame_pending surf"
    and Q: "\<And>surf' h'. \<lbrakk>ledger h' (F + surf_owned surf'); surf_inv surf';
       surf_link surf' = surf_link surf; surf_view surf' = surf_view surf\<rbrakk> \<Longrightarrow> Q surf' h'"
  shows "wp (kl_surface_submit E surf idx) Q h"
proof -
  let ?buf = "surf_buffers surf ! idx" and ?ws = "surf_wl_surface surf"
  let ?surf = "put_buf surf idx (?buf\<lparr>buf_busy := 1\<rparr>)"
  have wb: "buf_wl_buffer ?buf \<noteq> NULL" using idx(2) by (simp add: fits_surface_def)
  have inv': "surf_inv ?surf"
    using nth_buf_inv [OF inv idx(1)] wb by (intro put_buf_inv [OF inv] buf_inv_busy) simp_all
  have cb: "surf_frame_callback surf = NULL" using inv st(3) by (simp add: surf_inv_def)
  have owned: "surf_owned ?surf = surf_owned surf"
    using nth_buf_owned [OF inv idx(1)] put_buf_owned [OF inv idx(1)] by simp
  have wsL: "Proxy ?ws \<in># F + surf_owned surf"
    using st(1) by (simp add: owned_defs own_nonnull)
  have wbL: "Proxy (buf_wl_buffer ?buf) \<in># F + surf_owned surf"
    using buffer_proxy_live [OF inv idx(1) wb] by (simp add: surf_owned_def)
  have waiting: "Q (?surf\<lparr>surf_frame_callback := p, surf_frame_pending := True, surf_dirty := False\<rparr>) h'"
    if "p \<noteq> NULL" "ledger h' (add_mset (Proxy p) (F + surf_owned surf))" for p h'
    using that inv' owned cb st
    by (intro Q) (simp_all add: owned_defs surf_inv_def surf_link_def surf_view_def own_nonnull add_ac
        add_mset_commute)
  have idle: "Q (?surf\<lparr>surf_frame_callback := NULL, surf_frame_pending := False\<rparr>) h'"
    if "ledger h' (F + surf_owned surf)" for h'
    using that inv' owned cb st
    by (intro Q) (simp_all add: owned_defs surf_inv_def surf_link_def surf_view_def add_ac)
  show ?thesis
    unfolding kl_surface_submit_def Let_def
    by (insert h wsL wbL)
       ((rule ifI
         | (rule wp_ext_ledger [OF E], assumption, (simp add: ledger_simps; fail))
         | (insert waiting idle, simp add: ledger_simps; fail)
         | simp only: wp_simps)+)
qed

text \<open>The globals of the context that surface.c uses are live.\<close>

definition ctx_live :: "kl_context \<Rightarrow> resource multiset \<Rightarrow> bool" where
  "ctx_live ctx F \<longleftrightarrow> (\<forall>p \<in> {ctx_shm ctx, ctx_compositor ctx, ctx_lock ctx}. p \<noteq> NULL \<longrightarrow> Proxy p \<in># F)"

lemma ctx_liveD:
  assumes "ctx_live ctx F"
  shows "ctx_shm ctx \<noteq> NULL \<Longrightarrow> Proxy (ctx_shm ctx) \<in># F"
    and "ctx_compositor ctx \<noteq> NULL \<Longrightarrow> Proxy (ctx_compositor ctx) \<in># F"
    and "ctx_lock ctx \<noteq> NULL \<Longrightarrow> Proxy (ctx_lock ctx) \<in># F"
  using assms by (simp_all add: ctx_live_def)

lemma free_buffer_keeps:
  "surf_inv surf \<Longrightarrow> idx < 3 \<Longrightarrow> surf_inv (surf\<lparr>surf_current_buffer := idx\<rparr>)"
  "surf_owned (surf\<lparr>surf_current_buffer := idx\<rparr>) = surf_owned surf"
  by (auto simp: surf_inv_def owned_defs)

lemma dirty_keeps:
  "surf_inv (surf\<lparr>surf_dirty := d\<rparr>) = surf_inv surf"
  "surf_owned (surf\<lparr>surf_dirty := d\<rparr>) = surf_owned surf"
  "surf_link (surf\<lparr>surf_dirty := d\<rparr>) = surf_link surf"
  "surf_view (surf\<lparr>surf_dirty := d\<rparr>) = surf_view surf"
  by (simp_all add: surf_inv_def owned_defs surf_link_def surf_view_def)

lemma kl_surface_render_frame_ledger:
  assumes E: "env_ok E" and h: "ledger h (F + surf_owned surf)" and inv: "surf_inv surf"
    and ctx: "ctx_live ctx F"
    and Q: "\<And>surf' h'. \<lbrakk>ledger h' (F + surf_owned surf'); surf_inv surf';
       surf_link surf' = surf_link surf; surf_view surf' = surf_view surf\<rbrakk> \<Longrightarrow> Q surf' h'"
  shows "wp (kl_surface_render_frame E ctx surf) Q h"
proof -
  obtain r surf0 where free: "kl_surface_get_free_buffer surf = (r, surf0)" by fastforce
  have frame: "wp (do {
            (fits, surf) \<leftarrow> kl_surface_fit_buffer E ctx surf0 idx;
            if \<not> fits then ret_m surf
            else do { surf \<leftarrow> kl_surface_paint E surf idx; kl_surface_submit E surf idx } }) Q h"
    if st: "surf_configured surf" "\<not> surf_frame_pending surf" "surf_wl_surface surf \<noteq> NULL"
      and surf0: "surf0 = surf\<lparr>surf_current_buffer := idx\<rparr>" "idx < 3"
        "buf_busy (surf_buffers surf ! idx) = 0" for idx
  proof -
    have surf0': "ledger h (F + surf_owned surf0)" "surf_inv surf0"
      "buf_busy (surf_buffers surf0 ! idx) = 0"
      using surf0 h inv by (simp_all add: free_buffer_keeps)
    have same: "surf_link surf0 = surf_link surf" "surf_view surf0 = surf_view surf"
      by (simp_all add: surf0 surf_link_def surf_view_def)
    note fit = fit_buffer_ledger [OF E surf0'(1,2) ctx_liveD(1) [OF ctx] surf0(2) surf0'(3)]
    have len: "length (surf_buffers surf) = 3" using inv by (simp add: surf_inv_def)
    show ?thesis
      by (simp only: wp_simps, rule fit, assumption)
         (auto simp: wp_simps len surf0 same fits_surface_def surf_link_def surf_view_def st intro!: Q
           paint_ledger [OF E _ _ surf0(2)] submit_ledger [OF E _ _ surf0(2)])
  qed
  have same: "Q surf h" and busy: "Q (surf\<lparr>surf_dirty := True\<rparr>) h"
    using h inv by (auto simp: dirty_keeps intro: Q)
  from get_free_buffer_cases [OF free] show ?thesis
  proof (elim disjE exE conjE)
    assume "r = None" "surf0 = surf"
    then show ?thesis
      by (simp add: kl_surface_render_frame_def free wp_simps same busy)
  next
    fix idx
    assume r: "r = Some idx" and idx: "idx < 3" "surf0 = surf\<lparr>surf_current_buffer := idx\<rparr>"
      "buf_busy (surf_buffers surf ! idx) = 0"
    show ?thesis
      unfolding kl_surface_render_frame_def free r
      by (simp only: wp_if wp_return prod.case option.case if_split)
         (use same frame [OF _ _ _ idx(2,1,3)] in blast)
  qed
qed

lemma kl_surface_request_render_ledger:
  assumes E: "env_ok E" and h: "ledger h (F + surf_owned surf)" and inv: "surf_inv surf"
    and ctx: "ctx_live ctx F"
    and Q: "\<And>surf' h'. \<lbrakk>ledger h' (F + surf_owned surf'); surf_inv surf';
       surf_link surf' = surf_link surf; surf_view surf' = surf_view surf\<rbrakk> \<Longrightarrow> Q surf' h'"
  shows "wp (kl_surface_request_render E ctx surf) Q h"
  unfolding kl_surface_request_render_def Let_def
  using kl_surface_render_frame_ledger [OF E _ _ ctx, of h "surf\<lparr>surf_dirty := True\<rparr>" Q] h inv Q
  by (simp add: wp_simps dirty_keeps)

subsection \<open>The contract of a surface's operations and listeners\<close>

text \<open>
  A handler takes a surface that satisfies the invariant, and perhaps a further condition
  \<open>able\<close> under which libwayland calls it, and leaves one that satisfies the invariant, with
  the same identity and every resource accounted for.  \<open>get\<close> finds the surface in the
  result.
\<close>

locale surface_handler =
  fixes handle :: "env \<Rightarrow> kl_context \<Rightarrow> kl_surface \<Rightarrow> (log, 'r) state"
    and get :: "'r \<Rightarrow> kl_surface"
    and able :: "kl_surface \<Rightarrow> bool"
  assumes handle_ledger:
    "\<lbrakk>env_ok E; ledger h (F + surf_owned surf); surf_inv surf; ctx_live ctx F; able surf;
      \<And>r h'. \<lbrakk>ledger h' (F + surf_owned (get r)); surf_inv (get r);
        surf_link (get r) = surf_link surf\<rbrakk> \<Longrightarrow> Q r h'\<rbrakk> \<Longrightarrow> wp (handle E ctx surf) Q h"
begin

lemma handle_keeps:
  assumes "env_ok E" and "safe h" and "live h = F + surf_owned surf" and "surf_inv surf"
    and "ctx_live ctx F" and "able surf" and run: "run_state (handle E ctx surf) h = (r, h')"
  shows "safe h' \<and> live h' = F + surf_owned (get r) \<and> surf_inv (get r) \<and>
    surf_link (get r) = surf_link surf"
proof -
  have "wp (handle E ctx surf) (\<lambda>r h'. ledger h' (F + surf_owned (get r)) \<and> surf_inv (get r) \<and>
    surf_link (get r) = surf_link surf) h"
    by (rule handle_ledger [OF assms(1) ledgerI [OF assms(2,3)] assms(4-6)]) auto
  from wp_run [OF this run] show ?thesis by (auto simp: ledger_def)
qed

end

interpretation render_frame: surface_handler kl_surface_render_frame "\<lambda>surf. surf" "\<lambda>_. True"
  by unfold_locales (auto intro: kl_surface_render_frame_ledger)

interpretation request_render: surface_handler kl_surface_request_render "\<lambda>surf. surf" "\<lambda>_. True"
  by unfold_locales (auto intro: kl_surface_request_render_ledger)

lemma scale_keeps:
  "surf_inv surf \<Longrightarrow> 0 < factor \<Longrightarrow> surf_inv (surf\<lparr>surf_scale := factor, surf_dirty := d\<rparr>)"
  "surf_owned (surf\<lparr>surf_scale := factor, surf_dirty := d\<rparr>) = surf_owned surf"
  "surf_link (surf\<lparr>surf_scale := factor, surf_dirty := d\<rparr>) = surf_link surf"
  by (auto simp: surf_inv_def owned_defs surf_link_def)

interpretation output_scale: surface_handler
    "\<lambda>E ctx surf. kl_output_handle_scale E ctx surf factor" "\<lambda>surf. surf" "\<lambda>_. True" for factor
  by unfold_locales
     (auto simp: kl_output_handle_scale_def wp_simps scale_keeps
       intro!: kl_surface_request_render_ledger)

lemma frame_done_keeps:
  assumes "surf_inv surf"
  shows "surf_inv (surf\<lparr>surf_frame_callback := NULL, surf_frame_pending := False\<rparr>)"
    and "surf_link (surf\<lparr>surf_frame_callback := NULL, surf_frame_pending := False\<rparr>) = surf_link surf"
    and "surf_owned surf = own Proxy (surf_frame_callback surf) +
      surf_owned (surf\<lparr>surf_frame_callback := NULL, surf_frame_pending := False\<rparr>)"
  using assms by (auto simp: surf_inv_def surf_link_def owned_defs add_ac)

interpretation frame_done: surface_handler
    "\<lambda>E ctx surf. kl_surface_frame_handle_done E ctx (Some surf) (surf_frame_callback surf)" the
    "\<lambda>_. True"
proof
  fix E h F surf ctx and Q :: "kl_surface option \<Rightarrow> log \<Rightarrow> bool"
  assume E: "env_ok E" and h: "ledger h (F + surf_owned surf)" and inv: "surf_inv surf"
    and ctx: "ctx_live ctx F"
    and Q: "\<And>r h'. \<lbrakk>ledger h' (F + surf_owned (the r)); surf_inv (the r);
        surf_link (the r) = surf_link surf\<rbrakk> \<Longrightarrow> Q r h'"
  let ?surf = "surf\<lparr>surf_frame_callback := NULL, surf_frame_pending := False\<rparr>"
  have fin: "wp (kl_surface_render_frame E ctx ?surf) (\<lambda>surf. Q (Some surf)) h'"
    if "ledger h' (F + surf_owned ?surf)" for h'
    by (rule kl_surface_render_frame_ledger [OF E that _ ctx])
       (simp_all add: frame_done_keeps(1,2) inv Q)
  show "wp (kl_surface_frame_handle_done E ctx (Some surf) (surf_frame_callback surf)) Q h"
    unfolding kl_surface_frame_handle_done_def
    by (insert h [unfolded frame_done_keeps(3) [OF inv]])
       ((rule ifI | (rule wp_ext_ledger [OF E], assumption, (simp add: ledger_simps; fail))
         | (rule fin, (simp add: ledger_simps; fail)) | simp only: wp_simps option.case)+)
qed

interpretation buffer_release: surface_handler kl_surface_on_buffer_release "\<lambda>surf. surf" "\<lambda>_. True"
  by unfold_locales
     (auto simp: kl_surface_on_buffer_release_def wp_simps intro!: kl_surface_render_frame_ledger)

text \<open>The release listener of a buffer frees it and calls back its surface: lines 101 to 108 after
  buffer.c's \<open>kl_buffer_handle_release\<close>.\<close>

lemma released_keeps:
  assumes inv: "surf_inv surf" and idx: "idx < 3"
  shows "surf_inv (put_buf surf idx ((surf_buffers surf ! idx)\<lparr>buf_busy := 0\<rparr>))"
    and "surf_owned (put_buf surf idx ((surf_buffers surf ! idx)\<lparr>buf_busy := 0\<rparr>)) = surf_owned surf"
    and "surf_link (put_buf surf idx ((surf_buffers surf ! idx)\<lparr>buf_busy := 0\<rparr>)) = surf_link surf"
proof -
  have "buf_inv ((surf_buffers surf ! idx)\<lparr>buf_busy := 0\<rparr>)"
    using nth_buf_inv [OF inv idx] by (auto simp: buf_inv_def buf_void_def)
  then show "surf_inv (put_buf surf idx ((surf_buffers surf ! idx)\<lparr>buf_busy := 0\<rparr>))"
    by (rule put_buf_inv [OF inv])
qed (use put_buf_owned [OF inv idx] nth_buf_owned [OF inv idx] in \<open>simp_all add: surf_link_def\<close>)

interpretation configure: surface_handler
    "\<lambda>E ctx surf. kl_lock_surface_handle_configure E ctx surf (surf_ext_lock_surface surf)
       serial width height" "\<lambda>surf. surf" "\<lambda>surf. surf_ext_lock_surface surf \<noteq> NULL" for serial width height
proof
  fix E h F surf ctx and Q :: "kl_surface \<Rightarrow> log \<Rightarrow> bool"
  assume E: "env_ok E" and h: "ledger h (F + surf_owned surf)" and inv: "surf_inv surf"
    and ctx: "ctx_live ctx F" and ext: "surf_ext_lock_surface surf \<noteq> NULL"
    and Q: "\<And>r h'. \<lbrakk>ledger h' (F + surf_owned r); surf_inv r; surf_link r = surf_link surf\<rbrakk> \<Longrightarrow> Q r h'"
  let ?surf = "surf\<lparr>surf_width := width, surf_height := height, surf_configured := True\<rparr>"
  have keeps: "surf_inv ?surf" "surf_owned ?surf = surf_owned surf" "surf_link ?surf = surf_link surf"
    using inv ext by (auto simp: surf_inv_def owned_defs surf_link_def)
  have fin: "wp (kl_surface_request_render E ctx ?surf) Q h'" if "ledger h' (F + surf_owned surf)" for h'
    by (rule kl_surface_request_render_ledger [OF E _ _ ctx]) (simp_all add: that keeps Q)
  have live: "Proxy (surf_ext_lock_surface surf) \<in># F + surf_owned surf"
    using ext by (simp add: owned_defs own_nonnull)
  show "wp (kl_lock_surface_handle_configure E ctx surf (surf_ext_lock_surface surf) serial width height) Q h"
    unfolding kl_lock_surface_handle_configure_def
    by (insert h live ext)
       ((rule ifI | (rule wp_ext_ledger [OF E], assumption, (simp add: ledger_simps; fail))
         | (insert fin, simp add: ledger_simps; fail) | simp only: wp_simps)+)
qed

text \<open>Attaching a surface to the session lock: on failure nothing is left half made, except that
  a failing add\_listener keeps both objects for \<open>kl_surface_detach_lock\<close>.\<close>

lemma attach_keeps:
  assumes inv: "surf_inv surf" and none: "surf_ext_lock_surface surf = NULL" and "ws = NULL \<longleftrightarrow> xs = NULL"
  shows "surf_inv (surf\<lparr>surf_wl_surface := ws, surf_ext_lock_surface := xs\<rparr>)"
    and "surf_owned (surf\<lparr>surf_wl_surface := ws, surf_ext_lock_surface := xs\<rparr>) =
      surf_owned surf + own Proxy ws + own Proxy xs"
    and "surf_link (surf\<lparr>surf_wl_surface := ws, surf_ext_lock_surface := xs\<rparr>) = surf_link surf"
  using assms by (auto simp: surf_inv_def owned_defs surf_link_def add_ac)

lemma kl_surface_attach_lock_ledger:
  assumes E: "env_ok E" and h: "ledger h (F + surf_owned surf)" and inv: "surf_inv surf"
    and ctx: "ctx_live ctx F"
    and Q: "\<And>r surf' h'. \<lbrakk>ledger h' (F + surf_owned surf'); surf_inv surf';
        surf_link surf' = surf_link surf; r = 0 \<Longrightarrow> surf_ext_lock_surface surf' \<noteq> NULL;
        r = 0 \<or> r = -1\<rbrakk> \<Longrightarrow> Q (r, surf') h'"
  shows "wp (kl_surface_attach_lock E ctx surf) Q h"
proof (cases "surf_ext_lock_surface surf = NULL")
  case True
  have ws: "surf_wl_surface surf = NULL" using True inv by (simp add: surf_inv_def)
  have out: "Proxy (surf_wl_output surf) \<in># surf_owned surf" by (simp add: owned_defs)
  have fin: "Q (r, surf\<lparr>surf_wl_surface := p, surf_ext_lock_surface := q\<rparr>) h'"
    if "ledger h' (F + surf_owned surf + own Proxy p + own Proxy q)" "p = NULL \<longleftrightarrow> q = NULL"
      "r = 0 \<and> q \<noteq> NULL \<or> r = -1" for r p q h'
    using that by (intro Q) (auto simp: attach_keeps [OF inv True that(2)] add_ac)
  have none: "surf\<lparr>surf_wl_surface := NULL\<rparr> = surf" "surf\<lparr>surf_ext_lock_surface := NULL\<rparr> = surf"
    using ws True by (cases surf; simp)+
  have fail1: "Q (-1, surf) h'" if "ledger h' (F + surf_owned surf)" for h'
    using that inv by (intro Q) auto
  have fail2: "Q (-1, surf\<lparr>surf_ext_lock_surface := NULL, surf_wl_surface := NULL\<rparr>) h'"
    if "ledger h' (F + surf_owned surf)" for h'
    using fail1 [OF that] by (simp add: none)
  show ?thesis
    unfolding kl_surface_attach_lock_def
    by (insert h out ctx_liveD(2,3) [OF ctx] True)
       ((rule ifI | (rule wp_ext_ledger [OF E], assumption, (simp add: ledger_simps; fail))
         | (rule fail1, (simp add: ledger_simps; fail))
         | (insert fin fail1 fail2, simp add: ledger_simps none; fail) | simp only: wp_simps)+)
next
  case False
  then show ?thesis
    unfolding kl_surface_attach_lock_def using h inv by (auto simp: wp_simps intro!: Q)
qed

interpretation attach_lock: surface_handler kl_surface_attach_lock snd "\<lambda>_. True"
  by unfold_locales (rule kl_surface_attach_lock_ledger, auto)

interpretation buffer_released: surface_handler
    "\<lambda>E ctx surf. surface_buffer_released E ctx surf idx" "\<lambda>surf. surf" "\<lambda>_. idx < 3" for idx
proof
  fix E h F surf ctx and Q :: "kl_surface \<Rightarrow> log \<Rightarrow> bool"
  assume E: "env_ok E" and h: "ledger h (F + surf_owned surf)" and inv: "surf_inv surf"
    and ctx: "ctx_live ctx F" and idx: "idx < 3"
    and Q: "\<And>r h'. \<lbrakk>ledger h' (F + surf_owned r); surf_inv r; surf_link r = surf_link surf\<rbrakk> \<Longrightarrow> Q r h'"
  note keeps = released_keeps [OF inv idx]
  let ?surf = "put_buf surf idx ((surf_buffers surf ! idx)\<lparr>buf_busy := 0\<rparr>)"
  have "wp (kl_surface_on_buffer_release E ctx ?surf) Q h"
    by (rule buffer_release.handle_ledger [OF E _ keeps(1) ctx]) (simp_all add: h keeps Q)
  then show "wp (surface_buffer_released E ctx surf idx) Q h"
    using h keeps by (simp add: surface_buffer_released_def kl_buffer_handle_release_def Let_def wp_simps Q)
qed

lemma kl_surface_create_ledger:
  assumes E: "env_ok E" and h: "ledger h F" and out: "output \<noteq> NULL \<Longrightarrow> Proxy output \<in># F"
    and N: "\<And>h'. ledger h' F \<Longrightarrow> Q None h'"
    and S: "\<And>surf h'. \<lbrakk>ledger h' (F - {#Proxy output#} + surf_owned surf); surf_inv surf;
       surf_global_name surf = name; output \<noteq> NULL; surf_ext_lock_surface surf = NULL\<rbrakk> \<Longrightarrow>
       Q (Some surf) h'"
  shows "wp (kl_surface_create E ctx output name) Q h"
proof -
  let ?surf = "\<lambda>surf engine. \<lparr>surf_addr = surf, surf_global_name = name, surf_wl_output = output,
                surf_wl_surface = NULL, surf_ext_lock_surface = NULL, surf_frame_callback = NULL,
                surf_buffers = replicate KL_SURFACE_BUFFER_COUNT kl_buffer_zero,
                surf_current_buffer = 0, surf_width = 0, surf_height = 0, surf_scale = 1,
                surf_configured = False, surf_frame_pending = False, surf_dirty = True,
                surf_engine = Some engine, surf_start_time_ns = 0, surf_last_frame_time_ns = 0,
                surf_ctx = ctx\<rparr>"
  have fin: "Q (Some (?surf p engine)) h'"
    if "ledger h' (add_mset (Heap p) F + eng_owned engine)" "eng_inv engine" "p \<noteq> NULL"
      "output \<noteq> NULL" "ctx \<noteq> NULL" for p engine h'
  proof -
    from out [OF \<open>output \<noteq> NULL\<close>] obtain G where G: "F = add_mset (Proxy output) G"
      by (metis insert_DiffM)
    have "surf_inv (?surf p engine)"
      using that by (simp add: surf_inv_def KL_SURFACE_BUFFER_COUNT_def buf_inv_def buf_void_def
          kl_buffer_zero_def)
    moreover have "surf_owned (?surf p engine) = {#Heap p, Proxy output#} + eng_owned engine"
      by (simp add: owned_defs KL_SURFACE_BUFFER_COUNT_def numeral_3_eq_3)
    ultimately show ?thesis using that by (intro S) (simp_all add: G add_mset_commute)
  qed
  have listen: "wp (wl E (wl_output_add_listener output)) (\<lambda>_. Q (Some (?surf p engine))) h'"
    if "ledger h' (add_mset (Heap p) F + eng_owned engine)" "eng_inv engine" "p \<noteq> NULL"
      "output \<noteq> NULL" "ctx \<noteq> NULL" for p engine h'
    by (rule wp_ext_ledger [OF E that(1)]) (use that fin out in \<open>simp_all add: ledger_simps\<close>)
  show ?thesis
    unfolding kl_surface_create_def
    by (insert h)
       ((rule ifI
         | (rule kl_render_engine_create_ledger [OF E], assumption)
         | (rule wp_ext_ledger [OF E], assumption, (simp add: ledger_simps; fail))
         | (rule N, (simp add: ledger_simps; fail))
         | (rule listen; simp add: ledger_simps; fail)
         | simp only: wp_simps option.case)+)
qed

definition detached :: "kl_surface \<Rightarrow> bool" where
  "detached surf \<longleftrightarrow> surf_wl_surface surf = NULL \<and> surf_ext_lock_surface surf = NULL \<and>
     surf_frame_callback surf = NULL \<and> \<not> surf_configured surf \<and> \<not> surf_frame_pending surf \<and>
     (\<forall>buf \<in> set (surf_buffers surf). buf_empty buf)"

lemma buf_empty_inv: "buf_empty buf \<Longrightarrow> buf_inv buf"
  by (simp add: buf_empty_def buf_inv_def buf_owned_void buf_owned_empty_iff)

lemma kl_surface_detach_lock_ledger:
  assumes E: "env_ok E" and h: "ledger h (F + surf_owned surf)" and inv: "surf_inv surf"
    and Q: "\<And>surf' h'. \<lbrakk>ledger h' (F + surf_owned surf'); surf_inv surf'; detached surf';
        surf_link surf' = surf_link surf; surf_engine surf' = surf_engine surf;
        surf_owned surf' = surf_core surf + engine_owned surf\<rbrakk> \<Longrightarrow> Q surf' h'"
  shows "wp (kl_surface_detach_lock E surf) Q h"
proof -
  let ?C = "F + surf_core surf + engine_owned surf"
  let ?B = "sum_list (map buf_owned (surf_buffers surf))"
  let ?off = "\<lambda>bs. surf\<lparr>surf_frame_callback := NULL, surf_buffers := bs,
    surf_ext_lock_surface := NULL, surf_wl_surface := NULL, surf_configured := False,
    surf_frame_pending := False, surf_dirty := True, surf_width := 0, surf_height := 0,
    surf_current_buffer := 0, surf_start_time_ns := 0, surf_last_frame_time_ns := 0\<rparr>"
  have fin: "Q s h'" if "ledger h' ?C" "\<forall>b \<in> set bs. buf_empty b"
    "length bs = length (surf_buffers surf)" "s = ?off bs" for bs s h'
  proof -
    have owned: "surf_owned (?off bs) = surf_core surf + engine_owned surf"
      using that(2) by (simp add: owned_defs bufs.sum_post_nil)
    have "surf_inv (?off bs)" using inv that(2,3) by (auto simp: surf_inv_def buf_empty_inv)
    then show ?thesis unfolding that(4)
      using that by (intro Q) (simp_all add: owned detached_def surf_link_def add_ac)
  qed
  have h': "ledger h (?C + own Proxy (surf_frame_callback surf) +
      own Proxy (surf_ext_lock_surface surf) + own Proxy (surf_wl_surface surf) + ?B)"
    using h by (simp add: surf_owned_def surf_proxies_def add_ac)
  show ?thesis
    unfolding kl_surface_detach_lock_def
    by (insert h')
       ((rule ifI
         | (rule bufs.map_destroys [OF E], simp, assumption)
         | (rule bufs.map_destroys [OF E, where F = "?C + own Proxy (surf_ext_lock_surface surf) +
              own Proxy (surf_wl_surface surf)"], simp, (simp add: ledger_simps add_ac; fail))
         | (rule wp_ext_ledger [OF E], assumption, (simp add: ledger_simps; fail))
         | (rule fin, (simp add: ledger_simps add_ac; fail), assumption, (simp; fail),
             (cases surf; simp; fail))
         | simp only: wp_simps)+)
qed

interpretation detach_lock: resource_op surf_inv surf_owned kl_surface_detach_lock
    "\<lambda>surf. surf_inv surf \<and> detached surf" surf_owned
  by unfold_locales (auto intro: kl_surface_detach_lock_ledger)

lemma release_output_ledger:
  assumes E: "env_ok E" and h: "ledger h (add_mset (Proxy output) F)"
    and Q: "\<And>h'. ledger h' F \<Longrightarrow> Q () h'"
  shows "wp (release_output E output) Q h"
  unfolding release_output_def
  by (insert h)
     ((rule ifI | (rule wp_ext_ledger [OF E], assumption, (simp add: ledger_simps; fail))
       | (rule Q, (simp add: ledger_simps; fail)) | simp only: wp_simps)+)

lemma kl_surface_destroy_ledger:
  assumes E: "env_ok E" and h: "ledger h (F + surf_owned surf)" and inv: "surf_inv surf"
    and Q: "\<And>h'. ledger h' F \<Longrightarrow> Q () h'"
  shows "wp (kl_surface_destroy E surf) Q h"
proof -
  obtain engine where e: "surf_engine surf = Some engine" and out: "surf_wl_output surf \<noteq> NULL"
    using inv by (auto simp: surf_inv_def)
  let ?G = "add_mset (Heap (surf_addr surf)) F"
  have fr: "wp (sys E (sys_free (surf_addr surf))) (\<lambda>_. Q ()) h'" if "ledger h' ?G" for h'
    by (rule wp_ext_ledger [OF E that]) (simp_all add: ledger_simps Q)
  have rest: "wp (do {
       _ \<leftarrow> (case surf_engine s of None \<Rightarrow> ret_m ()
            | Some engine \<Rightarrow> kl_render_engine_destroy E engine);
       _ \<leftarrow> (if surf_wl_output s \<noteq> NULL then release_output E (surf_wl_output s) else ret_m ());
       _ \<leftarrow> sys E (sys_free (surf_addr s));
       ret_m () }) Q h'"
    if "ledger h' (F + surf_owned s)" "surf_owned s = surf_core surf + engine_owned surf"
      "surf_engine s = surf_engine surf" "surf_link s = surf_link surf" for s h'
  proof -
    have l: "ledger h' (add_mset (Proxy (surf_wl_output surf)) ?G + eng_owned engine)"
      using that(1,2) by (simp add: surf_core_def engine_owned_def e add_mset_commute)
    have "surf_wl_output s = surf_wl_output surf" "surf_addr s = surf_addr surf"
      using that(4) by (simp_all add: surf_link_def)
    then show ?thesis
      by (simp add: that(3) e out wp_simps)
         (rule kl_render_engine_destroy_ledger [OF E l], erule release_output_ledger [OF E], erule fr)
  qed
  show ?thesis
    unfolding kl_surface_destroy_def
    by (simp only: wp_bind, rule kl_surface_detach_lock_ledger [OF E h inv])
       (use rest in \<open>simp only: wp_bind\<close>)
qed

interpretation surfs: resource_destructor surf_inv surf_owned kl_surface_destroy "\<lambda>_. True" "\<lambda>_. {#}"
  by unfold_locales (auto intro: kl_surface_destroy_ledger)

subsection \<open>Which requests a frame makes\<close>

text \<open>The requests and events that concern surfaces, the lock and the display, as opposed to the
  memory, cairo and buffer calls behind them.\<close>

fun wire :: "call \<Rightarrow> bool" where
  "wire (Wl c) =
     (case c of wl_compositor_create_surface _ \<Rightarrow> True
      | wl_surface_set_buffer_scale _ _ \<Rightarrow> True
      | wl_surface_attach _ _ \<Rightarrow> True
      | wl_surface_damage _ _ _ _ _ \<Rightarrow> True
      | wl_surface_frame _ \<Rightarrow> True
      | wl_surface_commit _ \<Rightarrow> True
      | wl_surface_destroy _ \<Rightarrow> True
      | wl_callback_add_listener _ \<Rightarrow> True
      | wl_callback_destroy _ \<Rightarrow> True
      | _ \<Rightarrow> False)"
| "wire (Disp _) = True"
| "wire (Lk _) = True"
| "wire (Cr _) = False"
| "wire (Sys c) = (case c of sys_epoll_wait _ \<Rightarrow> True | _ \<Rightarrow> False)"
| "wire (Ev _) = True"

lemma kl_buffer_destroy_quiet [makes_intros]: "makes (\<lambda>c. \<not> wire c) (kl_buffer_destroy E buf)"
  unfolding kl_buffer_destroy_def by (auto intro!: makes_intros)

lemma kl_buffer_create_quiet [makes_intros]:
  "makes (\<lambda>c. \<not> wire c) (kl_buffer_create E shm buf w ht sc cb ud)"
  unfolding kl_buffer_create_def kl_buffer_allocate_shm_file_def
  by (intro makes_intros) simp_all

lemma kl_surface_fit_buffer_quiet:
  "makes (\<lambda>c. \<not> wire c) (kl_surface_fit_buffer E ctx surf idx)"
  unfolding kl_surface_fit_buffer_def by (intro makes_intros)

lemma kl_render_engine_draw_quiet [makes_intros]:
  "makes (\<lambda>c. \<not> wire c) (kl_render_engine_draw E engine cr w ht sc el)"
  unfolding kl_render_engine_draw_def kl_render_ensure_baked_surface_def kl_render_cleanup_baked_def
    kl_render_bake_def
  by (intro makes_intros) simp_all

lemma kl_surface_paint_quiet: "makes (\<lambda>c. \<not> wire c) (kl_surface_paint E surf idx)"
  unfolding kl_surface_paint_def kl_buffer_prepare_def kl_buffer_flush_def kl_get_time_ns_def
  by (intro makes_intros) simp_all

text \<open>The requests of a submitted frame, most recent first: \<open>tail\<close> is what became of the frame
  callback.\<close>

definition frame_requests :: "kl_surface \<Rightarrow> ptr \<Rightarrow> call list \<Rightarrow> call list" where
  "frame_requests surf b tail =
     Wl (wl_surface_commit (surf_wl_surface surf)) # tail @
     [Wl (wl_surface_frame (surf_wl_surface surf)),
      Wl (wl_surface_damage (surf_wl_surface surf) 0 0 (sint (surf_width surf)) (sint (surf_height surf))),
      Wl (wl_surface_attach (surf_wl_surface surf) b),
      Wl (wl_surface_set_buffer_scale (surf_wl_surface surf) (surf_scale surf))]"

definition frame_submitted :: "kl_surface \<Rightarrow> ptr \<Rightarrow> kl_surface \<Rightarrow> log \<Rightarrow> log \<Rightarrow> bool" where
  "frame_submitted surf b surf' h h' \<longleftrightarrow>
     (if surf_frame_pending surf'
      then trace wire h' = frame_requests surf b
             [Wl (wl_callback_add_listener (surf_frame_callback surf'))] @ trace wire h
      else trace wire h' = frame_requests surf b [] @ trace wire h \<or>
        (\<exists>cb. trace wire h' = frame_requests surf b
             [Wl (wl_callback_destroy cb), Wl (wl_callback_add_listener cb)] @ trace wire h))"

lemma submit_requests:
  assumes Q: "\<And>surf' h'. \<lbrakk>frame_submitted surf (buf_wl_buffer (surf_buffers surf ! idx)) surf' h h';
       surf_buffers surf' = (surf_buffers surf)[idx := (surf_buffers surf ! idx)\<lparr>buf_busy := 1\<rparr>]\<rbrakk>
       \<Longrightarrow> Q surf' h'"
  shows "wp (kl_surface_submit E surf idx) Q h"
  unfolding kl_surface_submit_def Let_def
  by ((rule ifI | rule wp_ext_trace [of wire]
      | (rule Q; simp add: frame_submitted_def frame_requests_def; fail)
      | simp only: wp_simps)+)

definition frame_outcome :: "kl_surface \<Rightarrow> kl_surface \<Rightarrow> log \<Rightarrow> log \<Rightarrow> bool" where
  "frame_outcome surf surf' h h' \<longleftrightarrow>
     trace wire h' = trace wire h \<and> surf_frame_pending surf' = surf_frame_pending surf \<or>
     surf_configured surf \<and> \<not> surf_frame_pending surf \<and> surf_width surf \<noteq> 0 \<and> surf_height surf \<noteq> 0 \<and>
     (\<exists>idx < 3. buf_busy (surf_buffers surf ! idx) = 0 \<and> buf_busy (surf_buffers surf' ! idx) = 1 \<and>
        fits_surface surf (surf_buffers surf' ! idx) \<and>
        frame_submitted surf (buf_wl_buffer (surf_buffers surf' ! idx)) surf' h h')"

lemma paint_keeps:
  assumes Q: "\<And>surf' h'. \<lbrakk>surf_buffers surf' = surf_buffers surf; surf_view surf' = surf_view surf\<rbrakk> \<Longrightarrow> Q surf' h'"
  shows "wp (kl_surface_paint E surf idx) Q h"
  by (rule wpI, rule Q)
     (auto simp: kl_surface_paint_def surf_view_def split: prod.splits option.splits if_splits)

lemma frame_submitted_cong:
  "surf_view s = surf_view t \<Longrightarrow> trace wire h = trace wire g \<Longrightarrow>
   frame_submitted s b surf' h h' = frame_submitted t b surf' g h'"
  by (simp add: frame_submitted_def frame_requests_def surf_view_def)

text \<open>A frame in a free buffer, from fitting the buffer to the commit.\<close>

lemma frame_in_buffer:
  assumes E: "env_ok E" and h: "ledger h (F + surf_owned surf)" and inv: "surf_inv surf"
    and ctx: "ctx_live ctx F"
    and st: "surf_configured surf" "\<not> surf_frame_pending surf" "surf_width surf \<noteq> 0" "surf_height surf \<noteq> 0"
    and surf0: "surf0 = surf\<lparr>surf_current_buffer := idx\<rparr>" "idx < 3" "buf_busy (surf_buffers surf ! idx) = 0"
    and Q: "\<And>surf' h'. frame_outcome surf surf' h h' \<Longrightarrow> Q surf' h'"
  shows "wp (do {
            (fits, surf) \<leftarrow> kl_surface_fit_buffer E ctx surf0 idx;
            if \<not> fits then ret_m surf
            else do { surf \<leftarrow> kl_surface_paint E surf idx; kl_surface_submit E surf idx } }) Q h"
proof -
  have idle: "Q s g" if "trace wire g = trace wire h" "surf_frame_pending s = surf_frame_pending surf" for s g
    using that by (intro Q) (simp add: frame_outcome_def)
  have surf0': "ledger h (F + surf_owned surf0)" "surf_inv surf0"
    "buf_busy (surf_buffers surf0 ! idx) = 0"
    using surf0 h inv by (simp_all add: free_buffer_keeps)
  have len: "length (surf_buffers surf) = 3" using inv by (simp add: surf_inv_def)
  have submit: "wp (kl_surface_submit E s idx) Q h2"
    if s: "surf_view s = surf_view surf" "surf_buffers s = (surf_buffers surf)[idx := buf]"
      and t: "trace wire h2 = trace wire h" and fits: "fits_surface surf buf" for s buf h2
    by (rule submit_requests, rule Q)
       (use st surf0 len s t fits in \<open>auto simp: frame_outcome_def fits_surface_def
          frame_submitted_cong [OF s(1) t] intro!: exI [of _ idx]\<close>)
  have paint: "wp (kl_surface_paint E (put_buf surf0 idx buf) idx)
      (\<lambda>s. wp (kl_surface_submit E s idx) Q) h1"
    if t: "trace wire h1 = trace wire h" and fits: "fits_surface surf buf" for buf h1
    by (rule wp_trace_kept [OF kl_surface_paint_quiet], rule paint_keeps)
       (auto simp: t surf0 surf_view_def intro!: submit [OF _ _ _ fits])
  have fits: "fits_surface (surf\<lparr>surf_current_buffer := idx\<rparr>) = fits_surface surf"
    by (simp add: fits_surface_def fun_eq_iff)
  show ?thesis
    by (simp only: wp_simps, rule wp_trace_kept [OF kl_surface_fit_buffer_quiet],
        rule fit_buffer_ledger [OF E surf0'(1,2) ctx_liveD(1) [OF ctx] surf0(2) surf0'(3)], assumption)
       (use paint in \<open>auto simp: wp_simps fits surf0(1) intro!: idle\<close>)
qed

lemma render_frame_requests:
  assumes E: "env_ok E" and h: "ledger h (F + surf_owned surf)" and inv: "surf_inv surf"
    and ctx: "ctx_live ctx F"
    and Q: "\<And>surf' h'. frame_outcome surf surf' h h' \<Longrightarrow> Q surf' h'"
  shows "wp (kl_surface_render_frame E ctx surf) Q h"
proof -
  obtain r surf0 where free: "kl_surface_get_free_buffer surf = (r, surf0)" by fastforce
  have idle: "Q s g" if "trace wire g = trace wire h" "surf_frame_pending s = surf_frame_pending surf" for s g
    using that by (intro Q) (simp add: frame_outcome_def)
  from get_free_buffer_cases [OF free] show ?thesis
  proof (elim disjE exE conjE)
    assume "r = None" "surf0 = surf"
    then show ?thesis
      by (simp add: kl_surface_render_frame_def free wp_simps idle)
  next
    fix idx
    assume r: "r = Some idx" and idx: "idx < 3" "surf0 = surf\<lparr>surf_current_buffer := idx\<rparr>"
      "buf_busy (surf_buffers surf ! idx) = 0"
    have frame: "wp (do {
            (fits, surf) \<leftarrow> kl_surface_fit_buffer E ctx surf0 idx;
            if \<not> fits then ret_m surf
            else do { surf \<leftarrow> kl_surface_paint E surf idx; kl_surface_submit E surf idx } }) Q h"
      if "surf_configured surf" "\<not> surf_frame_pending surf" "surf_width surf \<noteq> 0" "surf_height surf \<noteq> 0"
      by (rule frame_in_buffer [OF E h inv ctx that idx(2,1,3)]) (rule Q)
    show ?thesis
      unfolding kl_surface_render_frame_def free r
      by (simp only: wp_if wp_return prod.case option.case if_split)
         (use idle [of h surf] frame in blast)
  qed
qed

text \<open>Rendering never touches a busy buffer.\<close>

lemma fit_buffer_others:
  assumes Q: "\<And>fits buf h'. Q (fits, put_buf surf idx buf) h'"
  shows "wp (kl_surface_fit_buffer E ctx surf idx) Q h"
proof -
  have same: "Q (True, surf) h'" for h' using Q [of True "surf_buffers surf ! idx"] by simp
  show ?thesis
    unfolding kl_surface_fit_buffer_def Let_def
    by ((simp only: wp_simps | rule ifI | rule same | rule Q | rule wp_any)+)
qed

lemma render_frame_busy_untouched:
  assumes len: "length (surf_buffers surf) = 3" and j: "j < 3" "buf_busy (surf_buffers surf ! j) \<noteq> 0"
    and Q: "\<And>surf' h'. surf_buffers surf' ! j = surf_buffers surf ! j \<Longrightarrow> Q surf' h'"
  shows "wp (kl_surface_render_frame E ctx surf) Q h"
proof -
  obtain r surf0 where free: "kl_surface_get_free_buffer surf = (r, surf0)" by fastforce
  from get_free_buffer_cases [OF free] show ?thesis
  proof (elim disjE exE conjE)
    assume "r = None" "surf0 = surf"
    then show ?thesis by (simp add: kl_surface_render_frame_def free wp_simps Q)
  next
    fix idx
    assume r: "r = Some idx" and idx: "surf0 = surf\<lparr>surf_current_buffer := idx\<rparr>"
      and free_idx: "buf_busy (surf_buffers surf ! idx) = 0"
    have "idx \<noteq> j" using free_idx j by auto
    then show ?thesis
      unfolding kl_surface_render_frame_def free r
      by (auto simp: wp_simps idx intro!: ifI Q fit_buffer_others paint_keeps submit_requests)
  qed
qed

lemma handler_log_extends:
  "makes (\<lambda>_. True) (kl_surface_request_render E ctx surf)"
  unfolding kl_surface_request_render_def kl_surface_render_frame_def kl_surface_submit_def
  by (auto intro!: makes_intros makes_mono [OF kl_surface_fit_buffer_quiet]
      makes_mono [OF kl_surface_paint_quiet] split: prod.splits option.splits)

text \<open>When a free buffer fits, and the compositor gives a frame callback, the frame goes out and
  the next one is awaited.\<close>

lemma submit_pending:
  assumes "\<And>h. ret E h (Wl (wl_surface_frame (surf_wl_surface surf))) \<noteq> NULL"
    and "\<And>h cb. 0 \<le> ret E h (Wl (wl_callback_add_listener cb))"
    and Q: "\<And>surf' h'. surf_frame_pending surf' \<Longrightarrow> \<not> surf_dirty surf' \<Longrightarrow> Q surf' h'"
  shows "wp (kl_surface_submit E surf idx) Q h"
proof -
  have "(ret E h (Wl (wl_callback_add_listener cb)) < 0) = False" for h cb
    using assms(2) by (simp add: not_less)
  with assms(1) show ?thesis by (simp add: kl_surface_submit_def Let_def wp_def Q)
qed

lemma round_robin_covers:
  "idx < 3 \<Longrightarrow> \<exists>i < 3. (cur + 1 + i) mod 3 = (idx :: nat)"
  by presburger

lemma get_free_buffer_none:
  assumes "kl_surface_get_free_buffer surf = (None, s)" and "idx < 3"
  shows "buf_busy (surf_buffers surf ! idx) \<noteq> 0"
proof -
  obtain i where i: "i < 3" "(surf_current_buffer surf + 1 + i) mod 3 = idx"
    using round_robin_covers [OF assms(2)] by blast
  have "\<forall>i < 3. buf_busy (surf_buffers surf ! ((surf_current_buffer surf + 1 + i) mod 3)) \<noteq> 0"
    using assms(1) by (auto simp: kl_surface_get_free_buffer_def find_None_iff
        KL_SURFACE_BUFFER_COUNT_def split: option.splits)
  with i show ?thesis by blast
qed

lemma render_frame_continues:
  assumes inv: "surf_inv surf" and st: "surf_configured surf" "\<not> surf_frame_pending surf"
    "surf_width surf \<noteq> 0" "surf_height surf \<noteq> 0"
    and free: "\<exists>idx < 3. buf_busy (surf_buffers surf ! idx) = 0"
    and fit: "\<And>idx. idx < 3 \<Longrightarrow> buf_busy (surf_buffers surf ! idx) = 0 \<Longrightarrow>
        fits_surface surf (surf_buffers surf ! idx)"
    and ret: "\<And>h. ret E h (Wl (wl_surface_frame (surf_wl_surface surf))) \<noteq> NULL"
      "\<And>h cb. 0 \<le> ret E h (Wl (wl_callback_add_listener cb))"
    and Q: "\<And>surf' h'. surf_frame_pending surf' \<Longrightarrow> \<not> surf_dirty surf' \<Longrightarrow> Q surf' h'"
  shows "wp (kl_surface_render_frame E ctx surf) Q h"
proof -
  obtain r surf0 where f: "kl_surface_get_free_buffer surf = (r, surf0)" by fastforce
  have "r \<noteq> None"
    using f free get_free_buffer_none [of surf surf0] by auto
  then obtain idx where r: "r = Some idx" and idx: "idx < 3" "surf0 = surf\<lparr>surf_current_buffer := idx\<rparr>"
      "buf_busy (surf_buffers surf ! idx) = 0"
    using get_free_buffer_cases [OF f] by auto
  have "wp (kl_surface_fit_buffer E ctx surf0 idx) R h = R (True, surf0) h" for R
    using fit [OF idx(1,3)]
    by (simp add: kl_surface_fit_buffer_def Let_def idx(2) fits_surface_def wp_simps)
  then show ?thesis
    using inv st unfolding kl_surface_render_frame_def f r
    by (auto simp: wp_simps surf_inv_def idx(2) surf_view_def ret intro!: paint_keeps submit_pending Q)
qed

subsection \<open>A concrete surface\<close>

definition sample_ctx :: kl_context where
  "sample_ctx = \<lparr>ctx_display = 3, ctx_registry = 5, ctx_compositor = 7, ctx_shm = 7,
     ctx_lock_manager = 7, ctx_lock = 7, ctx_surfaces = [], ctx_is_locked = True,
     ctx_is_finished = False, ctx_failed = False\<rparr>"

definition sample_surface :: kl_surface where
  "sample_surface = \<lparr>surf_addr = 7, surf_global_name = 1, surf_wl_output = 7,
     surf_wl_surface = 7, surf_ext_lock_surface = 7, surf_frame_callback = NULL,
     surf_buffers = replicate 3 kl_buffer_zero, surf_current_buffer = 0,
     surf_width = 640, surf_height = 480, surf_scale = 1, surf_configured = True,
     surf_frame_pending = False, surf_dirty = True, surf_engine = Some sample_engine,
     surf_start_time_ns = 0, surf_last_frame_time_ns = 0, surf_ctx = 9\<rparr>"

text \<open>The log of a program that bound its globals, locked and attached that surface.\<close>

definition surface_log :: log where
  "surface_log =
     [(Lk (ext_session_lock_v1_get_lock_surface 7 7 7), 7), (Wl (wl_compositor_create_surface 7), 7),
      (Sys sys_calloc, 7), (Sys sys_calloc, 7), (Disp (wl_registry_bind 5 4 ''wl_output'' 3), 7),
      (Lk (ext_session_lock_manager_v1_lock 7), 7),
      (Disp (wl_registry_bind 5 3 ''ext_session_lock_manager_v1'' 1), 7),
      (Disp (wl_registry_bind 5 2 ''wl_compositor'' 4), 7)] @ sample_log"

definition sample_rest :: "resource multiset" where
  "sample_rest = {#Proxy 7, Proxy 7, Proxy 7, Proxy 7, Proxy 5, Display 3#}"

lemma sample_surface_inv [simp]: "surf_inv sample_surface"
  by (simp add: surf_inv_def sample_surface_def buf_inv_def buf_void_def kl_buffer_zero_def eng_inv_def
      sample_engine_def)

lemma sample_surface_owned:
  "surf_owned sample_surface = {#Heap 7, Heap 7, Proxy 7, Proxy 7, Proxy 7#}"
  by (simp add: owned_defs sample_surface_def eng_owned_def sample_engine_def own_nonnull numeral_3_eq_3)

lemma surface_log_ledger [simp]:
  "safe surface_log" "live surface_log = sample_rest + surf_owned sample_surface"
  unfolding sample_surface_owned
  by (simp_all add: surface_log_def sample_rest_def ledger_simps add_mset_commute)

lemma sample_ctx_live [simp]: "ctx_live sample_ctx sample_rest"
  by (simp add: ctx_live_def sample_ctx_def sample_rest_def)

subsection \<open>Properties\<close>

text \<open>
  \<open>kl_surface_get_free_buffer\<close> searches round robin from the buffer after the current one:
  it returns the first free buffer in that order and makes it current, and returns nothing, changing
  nothing, exactly when all three are busy.
\<close>

theorem kl_surface_get_free_buffer_round_robin:
  "case kl_surface_get_free_buffer surf of
     (None, surf') \<Rightarrow> surf' = surf \<and> (\<forall>idx < 3. buf_busy (surf_buffers surf ! idx) \<noteq> 0)
   | (Some idx, surf') \<Rightarrow> surf' = surf\<lparr>surf_current_buffer := idx\<rparr> \<and>
       (\<exists>k < 3. idx = (surf_current_buffer surf + 1 + k) mod 3 \<and>
          buf_busy (surf_buffers surf ! idx) = 0 \<and>
          (\<forall>j < k. buf_busy (surf_buffers surf ! ((surf_current_buffer surf + 1 + j) mod 3)) \<noteq> 0))"
proof (cases "kl_surface_get_free_buffer surf")
  case (Pair r surf')
  show ?thesis
  proof (cases r)
    case None
    then show ?thesis
      using Pair get_free_buffer_none [of surf surf'] get_free_buffer_cases [OF Pair] by auto
  next
    case (Some idx)
    let ?order = "map (\<lambda>i. (surf_current_buffer surf + 1 + i) mod 3) [0..<3]"
    have "find (\<lambda>idx. buf_busy (surf_buffers surf ! idx) = 0) ?order = Some idx"
      using Pair Some
      by (auto simp: kl_surface_get_free_buffer_def KL_SURFACE_BUFFER_COUNT_def split: option.splits)
    then obtain k where "k < length ?order" "idx = ?order ! k" "buf_busy (surf_buffers surf ! idx) = 0"
      "\<forall>j < k. buf_busy (surf_buffers surf ! (?order ! j)) \<noteq> 0"
      unfolding find_Some_iff by auto
    then show ?thesis
      using Pair Some get_free_buffer_cases [OF Pair] by (auto intro!: exI [of _ k])
  qed
qed

theorem kl_surface_get_free_buffer_round_robin_witness:
  "fst (kl_surface_get_free_buffer sample_surface) = Some 1"
  using kl_surface_get_free_buffer_round_robin [of sample_surface]
  by (simp add: sample_surface_def kl_surface_get_free_buffer_def KL_SURFACE_BUFFER_COUNT_def
      upt_conv_Cons)

text \<open>
  Rendering a frame keeps the surface's invariant, its identity, size, scale and lock objects,
  uses only live objects and accounts for every one it creates or destroys, whichever call fails.
\<close>

theorem kl_surface_render_frame_accounts:
  assumes "env_ok E" and "safe h" and "live h = F + surf_owned surf" and "surf_inv surf"
    and "ctx_live ctx F" and "run_state (kl_surface_render_frame E ctx surf) h = (surf', h')"
  shows "safe h' \<and> live h' = F + surf_owned surf' \<and> surf_inv surf' \<and>
    surf_link surf' = surf_link surf \<and> surf_view surf' = surf_view surf"
proof -
  have "wp (kl_surface_render_frame E ctx surf)
    (\<lambda>surf' h'. ledger h' (F + surf_owned surf') \<and> surf_inv surf' \<and>
      surf_link surf' = surf_link surf \<and> surf_view surf' = surf_view surf) h"
    by (rule kl_surface_render_frame_ledger [OF assms(1) ledgerI [OF assms(2,3)] assms(4,5)]) auto
  from wp_run [OF this assms(6)] show ?thesis by (simp add: ledger_def)
qed

theorem kl_surface_render_frame_accounts_witness:
  "let (surf', h') = run_state (kl_surface_render_frame sample_env sample_ctx sample_surface) surface_log
   in safe h' \<and> live h' = sample_rest + surf_owned surf' \<and> surf_inv surf'"
proof -
  obtain surf' h' where run:
    "run_state (kl_surface_render_frame sample_env sample_ctx sample_surface) surface_log = (surf', h')"
    by (metis prod.exhaust)
  show ?thesis
    using kl_surface_render_frame_accounts [OF sample_env_ok _ _ _ _ run] by (simp add: run)
qed

text \<open>
  (C38) What the compositor sees of a frame: either no request at all, or, on a configured surface
  with no frame pending, exactly the requests scale, attach, damage, frame and one commit, in that
  order.  The attached buffer was free, has the size and scale of the surface and is busy
  afterwards; a frame is pending afterwards exactly when the new frame callback has its listener,
  and a callback that could not get one is destroyed.
\<close>

theorem kl_surface_render_frame_protocol:
  assumes "env_ok E" and "safe h" and "live h = F + surf_owned surf" and "surf_inv surf"
    and "ctx_live ctx F" and "run_state (kl_surface_render_frame E ctx surf) h = (surf', h')"
  shows "frame_outcome surf surf' h h'"
proof -
  have "wp (kl_surface_render_frame E ctx surf) (\<lambda>surf' h'. frame_outcome surf surf' h h') h"
    by (rule render_frame_requests [OF assms(1) ledgerI [OF assms(2,3)] assms(4,5)])
  from wp_run [OF this assms(6)] show ?thesis .
qed

theorem kl_surface_render_frame_protocol_witness:
  "let (surf', h') = run_state (kl_surface_render_frame sample_env sample_ctx sample_surface) surface_log
   in frame_outcome sample_surface surf' surface_log h'"
proof -
  obtain surf' h' where run:
    "run_state (kl_surface_render_frame sample_env sample_ctx sample_surface) surface_log = (surf', h')"
    by (metis prod.exhaust)
  show ?thesis
    using kl_surface_render_frame_protocol [OF sample_env_ok _ _ _ _ run] by (simp add: run)
qed

text \<open>
  A buffer the compositor still holds is not touched: rendering leaves every busy buffer of the
  surface as it is.
\<close>

theorem kl_surface_render_frame_busy_untouched:
  assumes "surf_inv surf" and "idx < 3" and "buf_busy (surf_buffers surf ! idx) \<noteq> 0"
    and "run_state (kl_surface_render_frame E ctx surf) h = (surf', h')"
  shows "surf_buffers surf' ! idx = surf_buffers surf ! idx"
proof -
  have "length (surf_buffers surf) = 3" using assms(1) by (simp add: surf_inv_def)
  from wp_run [OF render_frame_busy_untouched [OF this assms(2,3)] assms(4)] show ?thesis .
qed

definition busy_buffer :: kl_buffer where
  "busy_buffer = kl_buffer_zero\<lparr>buf_wl_buffer := 7, buf_data := 7, buf_size := 1228800,
     buf_width := 640, buf_height := 480, buf_scale := 1, buf_stride := 2560, buf_busy := 1,
     buf_cairo_surface := 7, buf_cr := 7, buf_on_release := on_buffer_release_ptr, buf_user_data := 7\<rparr>"

lemma busy_buffer_inv: "buf_inv busy_buffer"
  by (simp add: buf_inv_def buf_ready_def busy_buffer_def)

theorem kl_surface_render_frame_busy_untouched_witness:
  "let surf = put_buf sample_surface 2 busy_buffer;
       (surf', h') = run_state (kl_surface_render_frame sample_env sample_ctx surf) surface_log
   in surf_buffers surf' ! 2 = busy_buffer"
proof -
  let ?surf = "put_buf sample_surface 2 busy_buffer"
  obtain surf' h' where run:
    "run_state (kl_surface_render_frame sample_env sample_ctx ?surf) surface_log = (surf', h')"
    by (metis prod.exhaust)
  have "surf_inv ?surf" by (rule put_buf_inv [OF sample_surface_inv busy_buffer_inv])
  moreover have "surf_buffers ?surf ! 2 = busy_buffer" by (simp add: sample_surface_def)
  ultimately show ?thesis
    using kl_surface_render_frame_busy_untouched [OF _ _ _ run, of 2]
    unfolding Let_def run by (simp add: busy_buffer_def)
qed

text \<open>
  (C39) The animation goes on: on a configured surface with no pending frame whose free buffers have
  the right size, if the compositor gives a frame callback and its listener can be set, rendering
  leaves a frame pending and the surface clean.
\<close>

theorem kl_surface_render_frame_continues:
  assumes "surf_inv surf" and "surf_configured surf" and "\<not> surf_frame_pending surf"
    and "surf_width surf \<noteq> 0" and "surf_height surf \<noteq> 0"
    and "\<exists>idx < 3. buf_busy (surf_buffers surf ! idx) = 0"
    and "\<forall>idx < 3. buf_busy (surf_buffers surf ! idx) = 0 \<longrightarrow> fits_surface surf (surf_buffers surf ! idx)"
    and "\<forall>h. ret E h (Wl (wl_surface_frame (surf_wl_surface surf))) \<noteq> NULL"
    and "\<forall>h cb. 0 \<le> ret E h (Wl (wl_callback_add_listener cb))"
    and "run_state (kl_surface_render_frame E ctx surf) h = (surf', h')"
  shows "surf_frame_pending surf' \<and> \<not> surf_dirty surf'"
proof -
  have "wp (kl_surface_render_frame E ctx surf) (\<lambda>surf' _. surf_frame_pending surf' \<and> \<not> surf_dirty surf') h"
    by (rule render_frame_continues [OF assms(1-6)]) (use assms(7-9) in auto)
  from wp_run [OF this assms(10)] show ?thesis .
qed

theorem kl_surface_render_frame_continues_witness:
  "let surf = put_buf sample_surface 1 (busy_buffer\<lparr>buf_busy := 0\<rparr>);
       surf = put_buf (put_buf surf 0 busy_buffer) 2 busy_buffer;
       (surf', h') = run_state (kl_surface_render_frame sample_env sample_ctx surf) []
   in surf_frame_pending surf'"
proof -
  let ?surf = "put_buf (put_buf (put_buf sample_surface 1 (busy_buffer\<lparr>buf_busy := 0\<rparr>)) 0 busy_buffer)
    2 busy_buffer"
  obtain surf' h' where run:
    "run_state (kl_surface_render_frame sample_env sample_ctx ?surf) [] = (surf', h')"
    by (metis prod.exhaust)
  have inv: "surf_inv ?surf"
    using busy_buffer_inv by (intro put_buf_inv sample_surface_inv buf_inv_busy) (simp_all add: busy_buffer_def)
  have fits: "fits_surface ?surf (busy_buffer\<lparr>buf_busy := 0\<rparr>)"
    by (simp add: fits_surface_def busy_buffer_def sample_surface_def)
  have bufs: "surf_buffers ?surf = [busy_buffer, busy_buffer\<lparr>buf_busy := 0\<rparr>, busy_buffer]"
    by (simp add: sample_surface_def numeral_3_eq_3 numeral_2_eq_2)
  have one: "\<exists>idx < 3. buf_busy (surf_buffers ?surf ! idx) = 0"
    unfolding bufs by (rule exI [of _ 1]) simp
  have all: "\<forall>idx < 3. buf_busy (surf_buffers ?surf ! idx) = 0 \<longrightarrow> fits_surface ?surf (surf_buffers ?surf ! idx)"
    unfolding bufs using fits by (auto simp: numeral_3_eq_3 less_Suc_eq busy_buffer_def)
  have st: "surf_configured ?surf" "\<not> surf_frame_pending ?surf" "surf_width ?surf \<noteq> 0" "surf_height ?surf \<noteq> 0"
    by (simp_all add: sample_surface_def)
  have "\<forall>h. ret sample_env h (Wl (wl_surface_frame (surf_wl_surface ?surf))) \<noteq> NULL"
    and "\<forall>h cb. 0 \<le> ret sample_env h (Wl (wl_callback_add_listener cb))"
    by (simp_all add: sample_ret_def)
  from kl_surface_render_frame_continues [OF inv st one all this run] show ?thesis
    unfolding Let_def run by simp
qed

text \<open>
  A configure event is acknowledged with its serial before anything else is sent; afterwards
  the surface is configured with the event's size, its invariant holds and every resource is
  accounted for.
\<close>

theorem kl_lock_surface_handle_configure_acks:
  assumes "env_ok E" and "safe h" and "live h = F + surf_owned surf" and "surf_inv surf"
    and "ctx_live ctx F" and "surf_ext_lock_surface surf \<noteq> NULL"
    and "run_state (kl_lock_surface_handle_configure E ctx surf (surf_ext_lock_surface surf)
           serial width height) h = (surf', h')"
  shows "(\<exists>new r. h' = new @ (Lk (ext_session_lock_surface_v1_ack_configure
            (surf_ext_lock_surface surf) serial), r) # h) \<and>
    surf_configured surf' \<and> surf_width surf' = width \<and> surf_height surf' = height \<and>
    safe h' \<and> live h' = F + surf_owned surf' \<and> surf_inv surf'"
proof -
  let ?c = "Lk (ext_session_lock_surface_v1_ack_configure (surf_ext_lock_surface surf) serial)"
  let ?surf = "surf\<lparr>surf_width := width, surf_height := height, surf_configured := True\<rparr>"
  let ?h = "(?c, ret E h ?c) # h"
  have run: "run_state (kl_surface_request_render E ctx ?surf) ?h = (surf', h')"
    using assms(6,7) by (simp add: kl_lock_surface_handle_configure_def)
  have keeps: "surf_inv ?surf" "surf_owned ?surf = surf_owned surf"
    using assms(4,6) by (auto simp: surf_inv_def owned_defs)
  have l: "ledger ?h (F + surf_owned ?surf)"
    using assms(2,3,6) unfolding keeps
    by (simp add: ledger_def ledger_simps owned_defs)
  have "wp (kl_surface_request_render E ctx ?surf) (\<lambda>surf' h'. surf_view surf' = surf_view ?surf) ?h"
    by (rule kl_surface_request_render_ledger [OF assms(1) l keeps(1) assms(5)])
  moreover have "wp (kl_surface_request_render E ctx ?surf) (\<lambda>_ h'. \<exists>new. h' = new @ ?h) ?h"
    by (rule makes_extends [OF handler_log_extends]) blast
  ultimately show ?thesis
    using configure.handle_keeps [OF assms] wp_run [OF _ run] by (fastforce simp: surf_view_def)
qed

theorem kl_lock_surface_handle_configure_acks_witness:
  "let (surf', h') = run_state (kl_lock_surface_handle_configure sample_env sample_ctx sample_surface
         7 42 800 600) surface_log
   in surf_configured surf' \<and> surf_width surf' = 800 \<and>
      Lk (ext_session_lock_surface_v1_ack_configure 7 42) \<in> fst ` set h' \<and> surf_inv surf'"
proof -
  have ext: "surf_ext_lock_surface sample_surface = 7" by (simp add: sample_surface_def)
  obtain surf' h' where run: "run_state (kl_lock_surface_handle_configure sample_env sample_ctx
     sample_surface (surf_ext_lock_surface sample_surface) 42 800 600) surface_log = (surf', h')"
    by (metis prod.exhaust)
  from kl_lock_surface_handle_configure_acks [OF sample_env_ok _ _ _ _ _ run] show ?thesis
    using run by (auto simp: ext)
qed

text \<open>
  The frame-done listener destroys the callback that fired, exactly once, forgets it before it
  renders again, and leaves a surface whose invariant holds with every resource accounted for.
\<close>

theorem kl_surface_frame_handle_done_accounts:
  assumes "env_ok E" and "safe h" and "live h = F + surf_owned surf" and "surf_inv surf"
    and "ctx_live ctx F"
    and "run_state (kl_surface_frame_handle_done E ctx (Some surf) (surf_frame_callback surf)) h = (r, h')"
  shows "\<exists>surf'. r = Some surf' \<and> safe h' \<and> live h' = F + surf_owned surf' \<and> surf_inv surf' \<and>
    surf_link surf' = surf_link surf"
proof -
  have "\<exists>surf'. r = Some surf'"
    using assms(6) by (auto simp: kl_surface_frame_handle_done_def split: prod.splits if_splits)
  with frame_done.handle_keeps [OF assms(1-5) _ assms(6)] show ?thesis by auto
qed

theorem kl_surface_frame_handle_done_accounts_witness:
  "let surf = sample_surface\<lparr>surf_frame_callback := 7, surf_frame_pending := True\<rparr>;
       h = (Wl (wl_surface_frame 7), 7) # surface_log;
       (r, h') = run_state (kl_surface_frame_handle_done sample_env sample_ctx (Some surf) 7) h
   in \<exists>surf'. r = Some surf' \<and> safe h' \<and> live h' = sample_rest + surf_owned surf' \<and> surf_inv surf'"
proof -
  let ?surf = "sample_surface\<lparr>surf_frame_callback := 7, surf_frame_pending := True\<rparr>"
  let ?h = "(Wl (wl_surface_frame 7), 7) # surface_log"
  have 7: "surf_frame_callback ?surf = 7" by simp
  obtain r h' where run: "run_state (kl_surface_frame_handle_done sample_env sample_ctx
      (Some ?surf) (surf_frame_callback ?surf)) ?h = (r, h')"
    by (metis prod.exhaust)
  have "surf_inv ?surf" using sample_surface_inv by (auto simp: surf_inv_def sample_surface_def)
  moreover have "surf_owned ?surf = add_mset (Proxy 7) (surf_owned sample_surface)"
    by (simp add: owned_defs sample_surface_def own_nonnull add_mset_commute)
  moreover have "Proxy 7 \<in># sample_rest" by (simp add: sample_rest_def)
  ultimately show ?thesis
    using kl_surface_frame_handle_done_accounts [OF sample_env_ok _ _ _ _ run, of sample_rest]
    unfolding Let_def run [unfolded 7] by (auto simp: ledger_simps)
qed

text \<open>
  \<open>kl_surface_attach_lock\<close> returns 0 only when the surface has its lock surface, otherwise
  -1; in every case the invariant holds, the identity is kept and nothing leaks.
\<close>

theorem kl_surface_attach_lock_accounts:
  assumes "env_ok E" and "safe h" and "live h = F + surf_owned surf" and "surf_inv surf"
    and "ctx_live ctx F" and "run_state (kl_surface_attach_lock E ctx surf) h = ((r, surf'), h')"
  shows "(r = 0 \<and> surf_ext_lock_surface surf' \<noteq> NULL \<or> r = -1) \<and>
    safe h' \<and> live h' = F + surf_owned surf' \<and> surf_inv surf' \<and> surf_link surf' = surf_link surf"
proof -
  have "wp (kl_surface_attach_lock E ctx surf) (\<lambda>p h'. case p of (r, surf') \<Rightarrow>
    (r = 0 \<and> surf_ext_lock_surface surf' \<noteq> NULL \<or> r = -1) \<and> ledger h' (F + surf_owned surf') \<and>
    surf_inv surf' \<and> surf_link surf' = surf_link surf) h"
    by (rule kl_surface_attach_lock_ledger [OF assms(1) ledgerI [OF assms(2,3)] assms(4,5)]) auto
  from wp_run [OF this assms(6)] show ?thesis by (simp add: ledger_def)
qed

theorem kl_surface_attach_lock_accounts_witness:
  "let ((r, surf'), h') = run_state (kl_surface_attach_lock sample_env sample_ctx sample_surface) surface_log
   in r = 0 \<and> safe h' \<and> live h' = sample_rest + surf_owned surf'"
proof -
  obtain r surf' h' where
    run: "run_state (kl_surface_attach_lock sample_env sample_ctx sample_surface) surface_log
      = ((r, surf'), h')"
    by (metis prod.exhaust)
  moreover have "r = 0"
    using run by (simp add: kl_surface_attach_lock_def sample_ctx_def sample_surface_def)
  ultimately show ?thesis
    using kl_surface_attach_lock_accounts [OF sample_env_ok _ _ _ _ run] by simp
qed

text \<open>
  \<open>kl_surface_detach_lock\<close> takes a surface off the lock whatever state it is in: the frame
  callback, the buffers, the lock surface and the wl\_surface are each destroyed once and forgotten,
  only the output, the struct and the render engine stay, and the surface can be attached anew.
\<close>

theorem kl_surface_detach_lock_resets:
  assumes "env_ok E" and "safe h" and "live h = F + surf_owned surf" and "surf_inv surf"
    and "run_state (kl_surface_detach_lock E surf) h = (surf', h')"
  shows "safe h' \<and> live h' = F + surf_core surf + engine_owned surf \<and> detached surf' \<and> surf_inv surf' \<and>
    surf_link surf' = surf_link surf"
proof -
  have "wp (kl_surface_detach_lock E surf) (\<lambda>surf' h'.
    ledger h' (F + surf_core surf + engine_owned surf) \<and> detached surf' \<and> surf_inv surf' \<and>
    surf_link surf' = surf_link surf) h"
    by (rule kl_surface_detach_lock_ledger [OF assms(1) ledgerI [OF assms(2,3)] assms(4)])
       (auto simp: add_ac)
  from wp_run [OF this assms(5)] show ?thesis by (simp add: ledger_def)
qed

theorem kl_surface_detach_lock_resets_witness:
  "let (surf', h') = run_state (kl_surface_detach_lock sample_env sample_surface) surface_log
   in safe h' \<and> detached surf' \<and> surf_inv surf'"
proof -
  obtain surf' h' where
    run: "run_state (kl_surface_detach_lock sample_env sample_surface) surface_log = (surf', h')"
    by (metis prod.exhaust)
  show ?thesis using kl_surface_detach_lock_resets [OF sample_env_ok _ _ _ run] by (simp add: run)
qed

text \<open>
  \<open>kl_surface_create\<close> takes over the output it is given and returns a surface that satisfies
  the invariant, or returns nothing and holds nothing; destroying a surface in any state its
  operations leave it in gives back everything it holds.
\<close>

theorem kl_surface_create_destroy_balanced:
  assumes "env_ok E" and "safe h" and "Proxy output \<in># live h"
    and "run_state (kl_surface_create E ctx output name) h = (r, h')"
  shows "safe h' \<and>
    (case r of None \<Rightarrow> live h' = live h
     | Some surf \<Rightarrow> surf_inv surf \<and> live h' = live h - {#Proxy output#} + surf_owned surf) \<and>
    (\<forall>F surf g. safe g \<and> live g = F + surf_owned surf \<and> surf_inv surf \<longrightarrow>
       safe (snd (run_state (kl_surface_destroy E surf) g)) \<and>
       live (snd (run_state (kl_surface_destroy E surf) g)) = F)"
proof -
  have "wp (kl_surface_create E ctx output name) (\<lambda>r h'. safe h' \<and>
    (case r of None \<Rightarrow> live h' = live h
     | Some surf \<Rightarrow> surf_inv surf \<and> live h' = live h - {#Proxy output#} + surf_owned surf)) h"
    by (rule kl_surface_create_ledger [OF assms(1) ledgerI [OF assms(2) refl]])
       (use assms(3) in \<open>auto simp: ledger_def\<close>)
  note create = wp_run [OF this assms(4)]
  have "safe (snd (run_state (kl_surface_destroy E surf) g)) \<and>
      live (snd (run_state (kl_surface_destroy E surf) g)) = F"
    if "safe g" "live g = F + surf_owned surf" "surf_inv surf" for F surf g
    using kl_surface_destroy_ledger [OF assms(1) ledgerI [OF that(1,2)] that(3),
        of "\<lambda>_ h'. ledger h' F"]
    by (auto simp: wp_def ledger_def)
  with create show ?thesis by blast
qed

theorem kl_surface_create_destroy_balanced_witness:
  "let (r, h') = run_state (kl_surface_create sample_env 9 7 1) sample_log
   in safe h' \<and> r \<noteq> None \<and> surf_inv (the r) \<and>
      live h' = {#Proxy 5, Display 3#} + surf_owned (the r)"
proof -
  obtain r h' where run: "run_state (kl_surface_create sample_env 9 7 1) sample_log = (r, h')"
    by (metis prod.exhaust)
  moreover have "r \<noteq> None"
    using run by (auto simp: kl_surface_create_def kl_render_engine_create_def sample_ret_def)
  ultimately show ?thesis
    using kl_surface_create_destroy_balanced [OF sample_env_ok _ _ run] by (auto split: option.splits)
qed

end
