(* ===== verification/Session_Lock.thy ===== *)
theory Session_Lock
  imports Extern
begin

section \<open>The session-lock protocol (src/include/protocols/session-lock.h, session-lock.c)\<close>

text \<open>
  What wayland-scanner generated for ext\_session\_lock\_v1: the tables that describe the three
  interfaces to libwayland, and the stubs by which the program makes requests.  A pointer to an
  interface is its name; a pointer into \<open>ext_session_lock_v1_types\<close> is the rest of that array from
  there on; a stub is the call of \<open>wl_proxy_marshal_flags\<close> that it makes, where the version of a proxy
  is a parameter.

  libwayland reads the variable arguments of that call by the signature in the table, so a stub and a
  table that disagree are undefined behaviour.  \<open>marshal_ok\<close> is that contract; the lemmas show that
  the tables are consistent, that every stub meets the contract for all arguments of the types its
  prototype declares, and that the ledger of theory \<open>Extern\<close> counts what the stubs do.
\<close>

subsection \<open>Tables\<close>

record wl_message =
  message_name :: string
  message_signature :: string
  message_types :: "string option list"

record wl_interface =
  interface_name :: string
  interface_version :: nat
  method_count :: nat
  interface_methods :: "wl_message list"
  event_count :: nat
  interface_events :: "wl_message list"

definition ext_session_lock_v1_types :: "string option list" where
  "ext_session_lock_v1_types =
     [None, None, None, Some ''ext_session_lock_v1'', Some ''ext_session_lock_surface_v1'',
      Some ''wl_surface'', Some ''wl_output'']"

abbreviation message :: "string \<Rightarrow> string \<Rightarrow> nat \<Rightarrow> wl_message" where
  "message name signature offset \<equiv>
     \<lparr>message_name = name, message_signature = signature, message_types = drop offset ext_session_lock_v1_types\<rparr>"

definition ext_session_lock_manager_v1_requests :: "wl_message list" where
  "ext_session_lock_manager_v1_requests = [message ''destroy'' '''' 0, message ''lock'' ''n'' 3]"

definition ext_session_lock_manager_v1_interface :: wl_interface where
  "ext_session_lock_manager_v1_interface =
     \<lparr>interface_name = ''ext_session_lock_manager_v1'', interface_version = 1,
      method_count = 2, interface_methods = ext_session_lock_manager_v1_requests,
      event_count = 0, interface_events = []\<rparr>"

definition ext_session_lock_v1_requests :: "wl_message list" where
  "ext_session_lock_v1_requests =
     [message ''destroy'' '''' 0, message ''get_lock_surface'' ''noo'' 4, message ''unlock_and_destroy'' '''' 0]"

definition ext_session_lock_v1_events :: "wl_message list" where
  "ext_session_lock_v1_events = [message ''locked'' '''' 0, message ''finished'' '''' 0]"

definition ext_session_lock_v1_interface :: wl_interface where
  "ext_session_lock_v1_interface =
     \<lparr>interface_name = ''ext_session_lock_v1'', interface_version = 1,
      method_count = 3, interface_methods = ext_session_lock_v1_requests,
      event_count = 2, interface_events = ext_session_lock_v1_events\<rparr>"

definition ext_session_lock_surface_v1_requests :: "wl_message list" where
  "ext_session_lock_surface_v1_requests = [message ''destroy'' '''' 0, message ''ack_configure'' ''u'' 0]"

definition ext_session_lock_surface_v1_events :: "wl_message list" where
  "ext_session_lock_surface_v1_events = [message ''configure'' ''uuu'' 0]"

definition ext_session_lock_surface_v1_interface :: wl_interface where
  "ext_session_lock_surface_v1_interface =
     \<lparr>interface_name = ''ext_session_lock_surface_v1'', interface_version = 1,
      method_count = 2, interface_methods = ext_session_lock_surface_v1_requests,
      event_count = 1, interface_events = ext_session_lock_surface_v1_events\<rparr>"

text \<open>The function pointers of the listener structs, in their order.\<close>

definition ext_session_lock_v1_listener :: "string list" where
  "ext_session_lock_v1_listener = [''locked'', ''finished'']"

definition ext_session_lock_surface_v1_listener :: "string list" where
  "ext_session_lock_surface_v1_listener = [''configure'']"

subsection \<open>Errors\<close>

datatype ext_session_lock_v1_error =
  EXT_SESSION_LOCK_V1_ERROR_INVALID_DESTROY | EXT_SESSION_LOCK_V1_ERROR_INVALID_UNLOCK
| EXT_SESSION_LOCK_V1_ERROR_ROLE | EXT_SESSION_LOCK_V1_ERROR_DUPLICATE_OUTPUT
| EXT_SESSION_LOCK_V1_ERROR_ALREADY_CONSTRUCTED

datatype ext_session_lock_surface_v1_error =
  EXT_SESSION_LOCK_SURFACE_V1_ERROR_COMMIT_BEFORE_FIRST_ACK | EXT_SESSION_LOCK_SURFACE_V1_ERROR_NULL_BUFFER
| EXT_SESSION_LOCK_SURFACE_V1_ERROR_DIMENSIONS_MISMATCH | EXT_SESSION_LOCK_SURFACE_V1_ERROR_INVALID_SERIAL

subsection \<open>Stubs\<close>

definition EXT_SESSION_LOCK_MANAGER_V1_DESTROY :: nat where "EXT_SESSION_LOCK_MANAGER_V1_DESTROY = 0"
definition EXT_SESSION_LOCK_MANAGER_V1_LOCK :: nat where "EXT_SESSION_LOCK_MANAGER_V1_LOCK = 1"
definition EXT_SESSION_LOCK_V1_DESTROY :: nat where "EXT_SESSION_LOCK_V1_DESTROY = 0"
definition EXT_SESSION_LOCK_V1_GET_LOCK_SURFACE :: nat where "EXT_SESSION_LOCK_V1_GET_LOCK_SURFACE = 1"
definition EXT_SESSION_LOCK_V1_UNLOCK_AND_DESTROY :: nat where "EXT_SESSION_LOCK_V1_UNLOCK_AND_DESTROY = 2"
definition EXT_SESSION_LOCK_SURFACE_V1_DESTROY :: nat where "EXT_SESSION_LOCK_SURFACE_V1_DESTROY = 0"
definition EXT_SESSION_LOCK_SURFACE_V1_ACK_CONFIGURE :: nat where "EXT_SESSION_LOCK_SURFACE_V1_ACK_CONFIGURE = 1"

definition WL_MARSHAL_FLAG_DESTROY :: u32 where "WL_MARSHAL_FLAG_DESTROY = 1"

text \<open>The variable arguments: a null pointer for a new id, a proxy, a number.\<close>

datatype wl_argument = ArgNull | ArgProxy ptr | ArgUint u32

record marshal =
  mar_proxy :: ptr
  mar_opcode :: nat
  mar_interface :: "string option"
  mar_version :: u32
  mar_flags :: u32
  mar_args :: "wl_argument list"

definition ext_session_lock_manager_v1_get_version :: "(ptr \<Rightarrow> u32) \<Rightarrow> ptr \<Rightarrow> u32" where
  "ext_session_lock_manager_v1_get_version wl_proxy_get_version p = wl_proxy_get_version p"

definition ext_session_lock_v1_get_version :: "(ptr \<Rightarrow> u32) \<Rightarrow> ptr \<Rightarrow> u32" where
  "ext_session_lock_v1_get_version wl_proxy_get_version p = wl_proxy_get_version p"

definition ext_session_lock_surface_v1_get_version :: "(ptr \<Rightarrow> u32) \<Rightarrow> ptr \<Rightarrow> u32" where
  "ext_session_lock_surface_v1_get_version wl_proxy_get_version p = wl_proxy_get_version p"

text \<open>The user data of a proxy, and its listener with the data that the handlers are called with; both
  are libwayland's, which keeps them in the state \<open>'s\<close>.\<close>

definition ext_session_lock_manager_v1_set_user_data :: "(ptr \<Rightarrow> ptr \<Rightarrow> 's \<Rightarrow> 's) \<Rightarrow> ptr \<Rightarrow> ptr \<Rightarrow> 's \<Rightarrow> 's" where
  "ext_session_lock_manager_v1_set_user_data wl_proxy_set_user_data p user_data = wl_proxy_set_user_data p user_data"

definition ext_session_lock_manager_v1_get_user_data :: "(ptr \<Rightarrow> 's \<Rightarrow> ptr) \<Rightarrow> ptr \<Rightarrow> 's \<Rightarrow> ptr" where
  "ext_session_lock_manager_v1_get_user_data wl_proxy_get_user_data p = wl_proxy_get_user_data p"

definition ext_session_lock_v1_set_user_data :: "(ptr \<Rightarrow> ptr \<Rightarrow> 's \<Rightarrow> 's) \<Rightarrow> ptr \<Rightarrow> ptr \<Rightarrow> 's \<Rightarrow> 's" where
  "ext_session_lock_v1_set_user_data wl_proxy_set_user_data p user_data = wl_proxy_set_user_data p user_data"

definition ext_session_lock_v1_get_user_data :: "(ptr \<Rightarrow> 's \<Rightarrow> ptr) \<Rightarrow> ptr \<Rightarrow> 's \<Rightarrow> ptr" where
  "ext_session_lock_v1_get_user_data wl_proxy_get_user_data p = wl_proxy_get_user_data p"

definition ext_session_lock_surface_v1_set_user_data :: "(ptr \<Rightarrow> ptr \<Rightarrow> 's \<Rightarrow> 's) \<Rightarrow> ptr \<Rightarrow> ptr \<Rightarrow> 's \<Rightarrow> 's" where
  "ext_session_lock_surface_v1_set_user_data wl_proxy_set_user_data p user_data = wl_proxy_set_user_data p user_data"

definition ext_session_lock_surface_v1_get_user_data :: "(ptr \<Rightarrow> 's \<Rightarrow> ptr) \<Rightarrow> ptr \<Rightarrow> 's \<Rightarrow> ptr" where
  "ext_session_lock_surface_v1_get_user_data wl_proxy_get_user_data p = wl_proxy_get_user_data p"

type_synonym 's add_listener = "ptr \<Rightarrow> string list \<Rightarrow> ptr \<Rightarrow> 's \<Rightarrow> int \<times> 's"

definition lock_add_listener_stub :: "'s add_listener \<Rightarrow> ptr \<Rightarrow> string list \<Rightarrow> ptr \<Rightarrow> 's \<Rightarrow> int \<times> 's" where
  "lock_add_listener_stub wl_proxy_add_listener p listener data = wl_proxy_add_listener p listener data"

definition lock_surface_add_listener_stub :: "'s add_listener \<Rightarrow> ptr \<Rightarrow> string list \<Rightarrow> ptr \<Rightarrow> 's \<Rightarrow> int \<times> 's" where
  "lock_surface_add_listener_stub wl_proxy_add_listener p listener data = wl_proxy_add_listener p listener data"

definition manager_destroy_stub :: "(ptr \<Rightarrow> u32) \<Rightarrow> ptr \<Rightarrow> marshal" where
  "manager_destroy_stub version p =
     \<lparr>mar_proxy = p, mar_opcode = EXT_SESSION_LOCK_MANAGER_V1_DESTROY, mar_interface = None,
      mar_version = version p, mar_flags = WL_MARSHAL_FLAG_DESTROY, mar_args = []\<rparr>"

definition manager_lock_stub :: "(ptr \<Rightarrow> u32) \<Rightarrow> ptr \<Rightarrow> marshal" where
  "manager_lock_stub version p =
     \<lparr>mar_proxy = p, mar_opcode = EXT_SESSION_LOCK_MANAGER_V1_LOCK,
      mar_interface = Some (interface_name ext_session_lock_v1_interface),
      mar_version = version p, mar_flags = 0, mar_args = [ArgNull]\<rparr>"

definition lock_destroy_stub :: "(ptr \<Rightarrow> u32) \<Rightarrow> ptr \<Rightarrow> marshal" where
  "lock_destroy_stub version p =
     \<lparr>mar_proxy = p, mar_opcode = EXT_SESSION_LOCK_V1_DESTROY, mar_interface = None,
      mar_version = version p, mar_flags = WL_MARSHAL_FLAG_DESTROY, mar_args = []\<rparr>"

definition get_lock_surface_stub :: "(ptr \<Rightarrow> u32) \<Rightarrow> ptr \<Rightarrow> ptr \<Rightarrow> ptr \<Rightarrow> marshal" where
  "get_lock_surface_stub version p surface output =
     \<lparr>mar_proxy = p, mar_opcode = EXT_SESSION_LOCK_V1_GET_LOCK_SURFACE,
      mar_interface = Some (interface_name ext_session_lock_surface_v1_interface),
      mar_version = version p, mar_flags = 0, mar_args = [ArgNull, ArgProxy surface, ArgProxy output]\<rparr>"

definition unlock_and_destroy_stub :: "(ptr \<Rightarrow> u32) \<Rightarrow> ptr \<Rightarrow> marshal" where
  "unlock_and_destroy_stub version p =
     \<lparr>mar_proxy = p, mar_opcode = EXT_SESSION_LOCK_V1_UNLOCK_AND_DESTROY, mar_interface = None,
      mar_version = version p, mar_flags = WL_MARSHAL_FLAG_DESTROY, mar_args = []\<rparr>"

definition surface_destroy_stub :: "(ptr \<Rightarrow> u32) \<Rightarrow> ptr \<Rightarrow> marshal" where
  "surface_destroy_stub version p =
     \<lparr>mar_proxy = p, mar_opcode = EXT_SESSION_LOCK_SURFACE_V1_DESTROY, mar_interface = None,
      mar_version = version p, mar_flags = WL_MARSHAL_FLAG_DESTROY, mar_args = []\<rparr>"

definition ack_configure_stub :: "(ptr \<Rightarrow> u32) \<Rightarrow> ptr \<Rightarrow> u32 \<Rightarrow> marshal" where
  "ack_configure_stub version p serial =
     \<lparr>mar_proxy = p, mar_opcode = EXT_SESSION_LOCK_SURFACE_V1_ACK_CONFIGURE, mar_interface = None,
      mar_version = version p, mar_flags = 0, mar_args = [ArgUint serial]\<rparr>"

text \<open>The request that a call of the program makes; adding a listener makes none.\<close>

fun request :: "(ptr \<Rightarrow> u32) \<Rightarrow> lock_call \<Rightarrow> marshal option" where
  "request version (ext_session_lock_manager_v1_destroy p) = Some (manager_destroy_stub version p)"
| "request version (ext_session_lock_manager_v1_lock p) = Some (manager_lock_stub version p)"
| "request version (ext_session_lock_v1_destroy p) = Some (lock_destroy_stub version p)"
| "request version (ext_session_lock_v1_get_lock_surface p s w) = Some (get_lock_surface_stub version p s w)"
| "request version (ext_session_lock_v1_unlock_and_destroy p) = Some (unlock_and_destroy_stub version p)"
| "request version (ext_session_lock_surface_v1_destroy p) = Some (surface_destroy_stub version p)"
| "request version (ext_session_lock_surface_v1_ack_configure p serial) = Some (ack_configure_stub version p serial)"
| "request version (ext_session_lock_v1_add_listener p) = None"
| "request version (ext_session_lock_surface_v1_add_listener p) = None"

subsection \<open>The contract with libwayland\<close>

text \<open>The interfaces of the arguments that the prototype of a stub declares.\<close>

fun prototype_ok :: "(ptr \<Rightarrow> string option) \<Rightarrow> lock_call \<Rightarrow> bool" where
  "prototype_ok kind (ext_session_lock_manager_v1_destroy p) \<longleftrightarrow> kind p = Some ''ext_session_lock_manager_v1''"
| "prototype_ok kind (ext_session_lock_manager_v1_lock p) \<longleftrightarrow> kind p = Some ''ext_session_lock_manager_v1''"
| "prototype_ok kind (ext_session_lock_v1_destroy p) \<longleftrightarrow> kind p = Some ''ext_session_lock_v1''"
| "prototype_ok kind (ext_session_lock_v1_get_lock_surface p s w) \<longleftrightarrow>
     kind p = Some ''ext_session_lock_v1'' \<and> kind s = Some ''wl_surface'' \<and> kind w = Some ''wl_output''"
| "prototype_ok kind (ext_session_lock_v1_unlock_and_destroy p) \<longleftrightarrow> kind p = Some ''ext_session_lock_v1''"
| "prototype_ok kind (ext_session_lock_surface_v1_destroy p) \<longleftrightarrow> kind p = Some ''ext_session_lock_surface_v1''"
| "prototype_ok kind (ext_session_lock_surface_v1_ack_configure p serial) \<longleftrightarrow>
     kind p = Some ''ext_session_lock_surface_v1''"
| "prototype_ok kind (ext_session_lock_v1_add_listener p) \<longleftrightarrow> kind p = Some ''ext_session_lock_v1''"
| "prototype_ok kind (ext_session_lock_surface_v1_add_listener p) \<longleftrightarrow> kind p = Some ''ext_session_lock_surface_v1''"

definition interface_of_name :: "string \<Rightarrow> wl_interface option" where
  "interface_of_name name =
     find (\<lambda>i. interface_name i = name)
       [ext_session_lock_manager_v1_interface, ext_session_lock_v1_interface, ext_session_lock_surface_v1_interface]"

text \<open>The arguments against a signature and the types array: \<open>n\<close> takes a null pointer and makes an
  object of the interface passed, \<open>o\<close> takes a proxy of the interface in the array, \<open>u\<close> a number.\<close>

fun args_ok :: "(ptr \<Rightarrow> string option) \<Rightarrow> string option \<Rightarrow> string \<Rightarrow> string option list \<Rightarrow> wl_argument list \<Rightarrow> bool" where
  "args_ok kind new [] types args \<longleftrightarrow> args = []"
| "args_ok kind new (c # signature) (t # types) (a # args) \<longleftrightarrow>
     (case a of
        ArgNull \<Rightarrow> c = CHR ''n'' \<and> t \<noteq> None \<and> new = t
      | ArgProxy p \<Rightarrow> c = CHR ''o'' \<and> t \<noteq> None \<and> kind p = t
      | ArgUint _ \<Rightarrow> c = CHR ''u'' \<and> t = None) \<and>
     args_ok kind new signature types args"
| "args_ok kind new signature types args \<longleftrightarrow> False"

definition marshal_ok :: "(ptr \<Rightarrow> string option) \<Rightarrow> marshal \<Rightarrow> bool" where
  "marshal_ok kind req \<longleftrightarrow>
     (case Option.bind (kind (mar_proxy req)) interface_of_name of
        None \<Rightarrow> False
      | Some i \<Rightarrow> mar_opcode req < method_count i \<and>
          (let m = interface_methods i ! mar_opcode req
           in args_ok kind (mar_interface req) (message_signature m) (message_types m) (mar_args req) \<and>
              (mar_interface req \<noteq> None \<longleftrightarrow> CHR ''n'' \<in> set (message_signature m))))"

text \<open>A table: the counts are the lengths, and the array of types covers every signature, with an
  interface exactly where the signature has an object.\<close>

definition typed_position :: "char \<Rightarrow> string option \<Rightarrow> bool" where
  "typed_position c t \<longleftrightarrow> (if c = CHR ''n'' \<or> c = CHR ''o'' then t \<noteq> None else t = None)"

definition message_ok :: "wl_message \<Rightarrow> bool" where
  "message_ok m \<longleftrightarrow> length (message_signature m) \<le> length (message_types m) \<and>
     list_all2 typed_position (message_signature m) (take (length (message_signature m)) (message_types m))"

definition table_ok :: "wl_interface \<Rightarrow> bool" where
  "table_ok i \<longleftrightarrow> method_count i = length (interface_methods i) \<and> event_count i = length (interface_events i) \<and>
     list_all message_ok (interface_methods i @ interface_events i) \<and>
     distinct (map message_name (interface_methods i)) \<and> distinct (map message_name (interface_events i))"

lemmas interface_defs = ext_session_lock_manager_v1_interface_def ext_session_lock_v1_interface_def
  ext_session_lock_surface_v1_interface_def ext_session_lock_manager_v1_requests_def
  ext_session_lock_v1_requests_def ext_session_lock_v1_events_def ext_session_lock_surface_v1_requests_def
  ext_session_lock_surface_v1_events_def ext_session_lock_v1_types_def

lemmas stub_defs = manager_destroy_stub_def manager_lock_stub_def lock_destroy_stub_def get_lock_surface_stub_def
  unlock_and_destroy_stub_def surface_destroy_stub_def ack_configure_stub_def
  EXT_SESSION_LOCK_MANAGER_V1_DESTROY_def EXT_SESSION_LOCK_MANAGER_V1_LOCK_def EXT_SESSION_LOCK_V1_DESTROY_def
  EXT_SESSION_LOCK_V1_GET_LOCK_SURFACE_def EXT_SESSION_LOCK_V1_UNLOCK_AND_DESTROY_def
  EXT_SESSION_LOCK_SURFACE_V1_DESTROY_def EXT_SESSION_LOCK_SURFACE_V1_ACK_CONFIGURE_def

text \<open>libwayland documents that \<open>wl_proxy_add_listener\<close> fails if the proxy has a listener, and else
  sets the proxy's user data; so a handler gets the data its stub was given, until somebody sets other.\<close>

lemma listener_data:
  assumes "\<And>p listener data w w'. wl_proxy_add_listener p listener data w = (0, w') \<Longrightarrow>
      wl_proxy_get_user_data p w' = data"
    and "\<And>p data w. wl_proxy_get_user_data p (wl_proxy_set_user_data p data w) = data"
  shows "lock_add_listener_stub wl_proxy_add_listener p ext_session_lock_v1_listener data w = (0, w') \<Longrightarrow>
      ext_session_lock_v1_get_user_data wl_proxy_get_user_data p w' = data \<and>
      ext_session_lock_v1_get_user_data wl_proxy_get_user_data p
        (ext_session_lock_v1_set_user_data wl_proxy_set_user_data p other w') = other"
    and "lock_surface_add_listener_stub wl_proxy_add_listener p ext_session_lock_surface_v1_listener data w = (0, w') \<Longrightarrow>
      ext_session_lock_surface_v1_get_user_data wl_proxy_get_user_data p w' = data \<and>
      ext_session_lock_surface_v1_get_user_data wl_proxy_get_user_data p
        (ext_session_lock_surface_v1_set_user_data wl_proxy_set_user_data p other w') = other"
  using assms
  by (simp_all add: lock_add_listener_stub_def lock_surface_add_listener_stub_def ext_session_lock_v1_get_user_data_def
      ext_session_lock_v1_set_user_data_def ext_session_lock_surface_v1_get_user_data_def
      ext_session_lock_surface_v1_set_user_data_def)

subsection \<open>Properties\<close>

text \<open>
  The tables are consistent with each other and with the listener structs.
\<close>

theorem session_lock_tables_ok:
  "list_all table_ok [ext_session_lock_manager_v1_interface, ext_session_lock_v1_interface,
     ext_session_lock_surface_v1_interface] \<and>
   map message_name (interface_events ext_session_lock_v1_interface) = ext_session_lock_v1_listener \<and>
   map message_name (interface_events ext_session_lock_surface_v1_interface) = ext_session_lock_surface_v1_listener"
  by code_simp

text \<open>
  (C31) Every request the program can make is well typed.  Given arguments of the interfaces that the
  prototypes declare, a stub passes an opcode of the receiver's table and exactly the arguments that
  this opcode's signature and types ask for; and it destroys the receiver's proxy, or creates one,
  exactly where the ledger says that the call releases or acquires it.
\<close>

theorem session_lock_requests_typed:
  assumes "request version c = Some req" and "prototype_ok kind c"
  shows "marshal_ok kind req \<and>
    releases (Lk c) = (if mar_flags req = WL_MARSHAL_FLAG_DESTROY then {#Proxy (mar_proxy req)#} else {#}) \<and>
    acquires (Lk c) r = (if mar_interface req \<noteq> None then own Proxy r else {#})"
  using assms
  by (cases c) (auto simp: marshal_ok_def stub_defs interface_defs interface_of_name_def WL_MARSHAL_FLAG_DESTROY_def)

theorem session_lock_requests_typed_witness:
  "marshal_ok (\<lambda>p. if p = 1 then Some ''ext_session_lock_v1'' else if p = 2 then Some ''wl_surface'' else Some ''wl_output'')
     (get_lock_surface_stub (\<lambda>_. 1) 1 2 3)"
proof -
  let ?kind = "\<lambda>p. if p = (1::int) then Some ''ext_session_lock_v1'' else if p = 2 then Some ''wl_surface'' else Some ''wl_output''"
  have "request (\<lambda>_. 1) (ext_session_lock_v1_get_lock_surface 1 2 3) = Some (get_lock_surface_stub (\<lambda>_. 1) 1 2 3)"
    "prototype_ok ?kind (ext_session_lock_v1_get_lock_surface 1 2 3)" by simp_all
  from session_lock_requests_typed [OF this] show ?thesis by blast
qed

end
