(* ===== verification/Lock.thy ===== *)
theory Lock
  imports Surface Session_Lock
begin

section \<open>The session lock (src/src/lock.c)\<close>

text \<open>
  \<open>struct kl_context\<close>, the registry and lock listeners, and the four functions of lock.h.
  Listeners run inside the dispatching calls of libwayland (roundtrip, dispatch,
  dispatch\_pending): such a call returns a value and hands a list of events, chosen by the
  environment, to \<open>dispatch_event\<close>, which runs the listener of each event on its object and
  drops an event whose object is gone, as libwayland does for a destroyed proxy.  An event that
  reached its listener is recorded in the log.

  The lemmas show that every function and listener keeps the context's invariant and accounts for
  its resources; what a second advertisement of a global makes the program forget is named by
  \<open>lost\<close>.  A monitor of the ext\_session\_lock\_v1 protocol judges the destroy and unlock
  requests.
\<close>

subsection \<open>Listeners\<close>

text \<open>The address of the \<open>kl_context\<close> on main's stack: it is only compared with null.\<close>

definition kl_context_ptr :: ptr where "kl_context_ptr = 1"

definition kl_lock_handle_locked :: "kl_context \<Rightarrow> kl_context" where
  "kl_lock_handle_locked ctx = ctx\<lparr>ctx_is_locked := True\<rparr>"

definition kl_lock_handle_finished :: "kl_context \<Rightarrow> kl_context" where
  "kl_lock_handle_finished ctx = ctx\<lparr>ctx_is_finished := True\<rparr>"

definition kl_registry_handle_global ::
  "env \<Rightarrow> kl_context \<Rightarrow> ptr \<Rightarrow> u32 \<Rightarrow> string \<Rightarrow> u32 \<Rightarrow> (log, kl_context) state" where
  "kl_registry_handle_global E ctx registry name interface version =
     (if registry = NULL then ret_m ctx
      else if interface = ''wl_output'' then do {
        output \<leftarrow> disp E (wl_registry_bind registry name ''wl_output'' 3);
        if output = NULL then ret_m (ctx\<lparr>ctx_failed := True\<rparr>)
        else do {
          surf \<leftarrow> kl_surface_create E kl_context_ptr output name;
          case surf of
            None \<Rightarrow> do { _ \<leftarrow> release_output E output; ret_m (ctx\<lparr>ctx_failed := True\<rparr>) }
          | Some surf \<Rightarrow>
              if ctx_lock ctx \<noteq> NULL \<and> \<not> ctx_is_finished ctx then do {
                (r, surf) \<leftarrow> kl_surface_attach_lock E ctx surf;
                _ \<leftarrow> disp E (wl_display_flush (ctx_display ctx));
                ret_m (ctx\<lparr>ctx_surfaces := surf # ctx_surfaces ctx\<rparr>) }
              else ret_m (ctx\<lparr>ctx_surfaces := surf # ctx_surfaces ctx\<rparr>)
        }}
      else if interface = ''wl_compositor'' then do {
        p \<leftarrow> disp E (wl_registry_bind registry name ''wl_compositor'' 4);
        ret_m (ctx\<lparr>ctx_compositor := p, ctx_failed := ctx_failed ctx \<or> p = NULL\<rparr>) }
      else if interface = ''wl_shm'' then do {
        p \<leftarrow> disp E (wl_registry_bind registry name ''wl_shm'' 1);
        ret_m (ctx\<lparr>ctx_shm := p, ctx_failed := ctx_failed ctx \<or> p = NULL\<rparr>) }
      else if interface = ''ext_session_lock_manager_v1'' then do {
        p \<leftarrow> disp E (wl_registry_bind registry name ''ext_session_lock_manager_v1'' 1);
        ret_m (ctx\<lparr>ctx_lock_manager := p, ctx_failed := ctx_failed ctx \<or> p = NULL\<rparr>) }
      else ret_m ctx)"

text \<open>The first surface of a list that satisfies a condition: \<open>wl_list_for_each\<close> with a break.\<close>

definition first_index :: "(kl_surface \<Rightarrow> bool) \<Rightarrow> kl_surface list \<Rightarrow> nat option" where
  "first_index P xs = find (\<lambda>i. P (xs ! i)) [0..<length xs]"

definition kl_registry_handle_global_remove ::
  "env \<Rightarrow> kl_context \<Rightarrow> u32 \<Rightarrow> (log, kl_context) state" where
  "kl_registry_handle_global_remove E ctx name =
     (case first_index (\<lambda>surf. surf_global_name surf = name) (ctx_surfaces ctx) of
        None \<Rightarrow> ret_m ctx
      | Some i \<Rightarrow> do {
          _ \<leftarrow> kl_surface_destroy E (ctx_surfaces ctx ! i);
          ret_m (ctx\<lparr>ctx_surfaces := take i (ctx_surfaces ctx) @ drop (Suc i) (ctx_surfaces ctx)\<rparr>) })"

subsection \<open>Dispatching events\<close>

definition log_event :: "wl_event \<Rightarrow> (log, unit) state" where
  "log_event e = State (\<lambda>h. ((), (Ev e, 0) # h))"

text \<open>An event for an object of the surface at address \<open>p\<close>: \<open>alive\<close> says that the surface
  still has that object.\<close>

definition on_surface ::
  "wl_event \<Rightarrow> ptr \<Rightarrow> (kl_surface \<Rightarrow> bool) \<Rightarrow> (kl_surface \<Rightarrow> (log, kl_surface) state) \<Rightarrow> kl_context \<Rightarrow>
   (log, kl_context) state" where
  "on_surface e p alive handler ctx =
     (case first_index (\<lambda>surf. surf_addr surf = p) (ctx_surfaces ctx) of
        None \<Rightarrow> ret_m ctx
      | Some i \<Rightarrow>
          if alive (ctx_surfaces ctx ! i) then do {
            _ \<leftarrow> log_event e;
            surf \<leftarrow> handler (ctx_surfaces ctx ! i);
            ret_m (ctx\<lparr>ctx_surfaces := (ctx_surfaces ctx)[i := surf]\<rparr>) }
          else ret_m ctx)"

definition dispatch_event :: "env \<Rightarrow> kl_context \<Rightarrow> wl_event \<Rightarrow> (log, kl_context) state" where
  "dispatch_event E ctx e =
     (case e of
        EvGlobal name interface version \<Rightarrow>
          if ctx_registry ctx = NULL then ret_m ctx
          else do { _ \<leftarrow> log_event e;
                    kl_registry_handle_global E ctx (ctx_registry ctx) name interface version }
      | EvGlobalRemove name \<Rightarrow>
          if ctx_registry ctx = NULL then ret_m ctx
          else do { _ \<leftarrow> log_event e; kl_registry_handle_global_remove E ctx name }
      | EvLocked \<Rightarrow>
          if ctx_lock ctx = NULL then ret_m ctx
          else do { _ \<leftarrow> log_event e; ret_m (kl_lock_handle_locked ctx) }
      | EvFinished \<Rightarrow>
          if ctx_lock ctx = NULL then ret_m ctx
          else do { _ \<leftarrow> log_event e; ret_m (kl_lock_handle_finished ctx) }
      | EvConfigure p serial width height \<Rightarrow>
          on_surface e p (\<lambda>surf. surf_ext_lock_surface surf \<noteq> NULL)
            (\<lambda>surf. kl_lock_surface_handle_configure E ctx surf (surf_ext_lock_surface surf)
                      serial width height) ctx
      | EvFrameDone p time \<Rightarrow>
          on_surface e p (\<lambda>surf. surf_frame_callback surf \<noteq> NULL)
            (\<lambda>surf. do { r \<leftarrow> kl_surface_frame_handle_done E ctx (Some surf) (surf_frame_callback surf);
                         ret_m (the r) }) ctx
      | EvRelease p i \<Rightarrow>
          on_surface e p (\<lambda>surf. i < KL_SURFACE_BUFFER_COUNT \<and> buf_wl_buffer (surf_buffers surf ! i) \<noteq> NULL)
            (\<lambda>surf. surface_buffer_released E ctx surf i) ctx
      | EvScale p factor \<Rightarrow>
          on_surface e p (\<lambda>_. True) (\<lambda>surf. kl_output_handle_scale E ctx surf factor) ctx
      | EvGeometry p \<Rightarrow> on_surface e p (\<lambda>_. True) (\<lambda>surf. ret_m (kl_output_handle_geometry surf)) ctx
      | EvMode p \<Rightarrow> on_surface e p (\<lambda>_. True) (\<lambda>surf. ret_m (kl_output_handle_mode surf)) ctx
      | EvDone p \<Rightarrow> on_surface e p (\<lambda>_. True) (\<lambda>surf. ret_m (kl_output_handle_done surf)) ctx)"

fun dispatch_events :: "env \<Rightarrow> kl_context \<Rightarrow> wl_event list \<Rightarrow> (log, kl_context) state" where
  "dispatch_events E ctx [] = ret_m ctx"
| "dispatch_events E ctx (e # es) =
     do { ctx \<leftarrow> dispatch_event E ctx e; dispatch_events E ctx es }"

text \<open>A call of libwayland that may run listeners.\<close>

definition dispatching :: "env \<Rightarrow> display_call \<Rightarrow> kl_context \<Rightarrow> (log, int \<times> kl_context) state" where
  "dispatching E c ctx =
     do {
       r \<leftarrow> disp E c;
       es \<leftarrow> peek (deliver E);
       ctx \<leftarrow> dispatch_events E ctx es;
       ret_m (r, ctx)
     }"

subsection \<open>The functions of lock.h\<close>

text \<open>Lines 254 to 261.\<close>

definition destroy_lock :: "env \<Rightarrow> kl_context \<Rightarrow> (log, kl_context) state" where
  "destroy_lock E ctx =
     (if ctx_lock ctx \<noteq> NULL
      then do {
        _ \<leftarrow> (if ctx_is_locked ctx \<and> \<not> ctx_is_finished ctx
             then lk E (ext_session_lock_v1_unlock_and_destroy (ctx_lock ctx))
             else lk E (ext_session_lock_v1_destroy (ctx_lock ctx)));
        ret_m (ctx\<lparr>ctx_lock := NULL\<rparr>) }
      else ret_m ctx)"

definition kl_context_destroy :: "env \<Rightarrow> kl_context \<Rightarrow> (log, kl_context) state" where
  "kl_context_destroy E ctx =
     do {
       _ \<leftarrow> map_m (kl_surface_destroy E) (ctx_surfaces ctx);
       ctx \<leftarrow> ret_m (ctx\<lparr>ctx_surfaces := []\<rparr>);
       ctx \<leftarrow> destroy_lock E ctx;
       ctx \<leftarrow> (if ctx_lock_manager ctx \<noteq> NULL
         then do { _ \<leftarrow> lk E (ext_session_lock_manager_v1_destroy (ctx_lock_manager ctx));
                   ret_m (ctx\<lparr>ctx_lock_manager := NULL\<rparr>) }
         else ret_m ctx);
       ctx \<leftarrow> (if ctx_shm ctx \<noteq> NULL
         then do { _ \<leftarrow> wl E (wl_shm_destroy (ctx_shm ctx)); ret_m (ctx\<lparr>ctx_shm := NULL\<rparr>) }
         else ret_m ctx);
       ctx \<leftarrow> (if ctx_compositor ctx \<noteq> NULL
         then do { _ \<leftarrow> wl E (wl_compositor_destroy (ctx_compositor ctx));
                   ret_m (ctx\<lparr>ctx_compositor := NULL\<rparr>) }
         else ret_m ctx);
       ctx \<leftarrow> (if ctx_registry ctx \<noteq> NULL
         then do { _ \<leftarrow> disp E (wl_registry_destroy (ctx_registry ctx));
                   ret_m (ctx\<lparr>ctx_registry := NULL\<rparr>) }
         else ret_m ctx);
       ctx \<leftarrow> (if ctx_display ctx \<noteq> NULL
         then do { (r, ctx) \<leftarrow> dispatching E (wl_display_roundtrip (ctx_display ctx)) ctx;
                   _ \<leftarrow> disp E (wl_display_disconnect (ctx_display ctx));
                   ret_m (ctx\<lparr>ctx_display := NULL\<rparr>) }
         else ret_m ctx);
       ret_m (ctx\<lparr>ctx_is_locked := False, ctx_is_finished := False, ctx_failed := False\<rparr>)
     }"

definition kl_context_zero :: kl_context where
  "kl_context_zero = \<lparr>ctx_display = NULL, ctx_registry = NULL, ctx_compositor = NULL,
     ctx_shm = NULL, ctx_lock_manager = NULL, ctx_lock = NULL, ctx_surfaces = [],
     ctx_is_locked = False, ctx_is_finished = False, ctx_failed = False\<rparr>"

text \<open>The error exit of \<open>kl_context_init\<close>: destroy what was made and return -1.\<close>

definition init_fails :: "env \<Rightarrow> kl_context \<Rightarrow> (log, int \<times> kl_context) state" where
  "init_fails E ctx = do { ctx \<leftarrow> kl_context_destroy E ctx; ret_m (-1, ctx) }"

definition kl_context_init :: "env \<Rightarrow> (log, int \<times> kl_context) state" where
  "kl_context_init E =
     do {
       display \<leftarrow> disp E wl_display_connect;
       ctx \<leftarrow> ret_m (kl_context_zero\<lparr>ctx_display := display\<rparr>);
       if display = NULL then init_fails E ctx
       else do {
         registry \<leftarrow> disp E (wl_display_get_registry display);
         ctx \<leftarrow> ret_m (ctx\<lparr>ctx_registry := registry\<rparr>);
         if registry = NULL then init_fails E ctx
         else do {
           r \<leftarrow> disp E (wl_registry_add_listener registry);
           if r < 0 then init_fails E ctx
           else do {
             (r, ctx) \<leftarrow> dispatching E (wl_display_roundtrip display) ctx;
             if r = -1 \<or> ctx_failed ctx then init_fails E ctx
             else if ctx_compositor ctx = NULL \<or> ctx_shm ctx = NULL \<or> ctx_lock_manager ctx = NULL
             then init_fails E ctx
             else if ctx_surfaces ctx = [] then init_fails E ctx
             else ret_m (0, ctx)
           }
         }
       }
     }"

text \<open>Lines 195 to 200: attach the surfaces in turn; \<open>False\<close> is the early return.\<close>

fun attach_all :: "env \<Rightarrow> kl_context \<Rightarrow> kl_surface list \<Rightarrow> (log, bool \<times> kl_surface list) state" where
  "attach_all E ctx [] = ret_m (True, [])"
| "attach_all E ctx (surf # surfs) =
     do {
       (r, surf) \<leftarrow> kl_surface_attach_lock E ctx surf;
       if r < 0 then ret_m (False, surf # surfs)
       else do {
         (ok, surfs) \<leftarrow> attach_all E ctx surfs;
         ret_m (ok, surf # surfs)
       }
     }"

text \<open>Lines 202 to 207, the wait for the compositor's answer: \<open>None\<close> when the fuel runs out,
  \<open>Some (False, _)\<close> on a dispatch error.\<close>

fun wait_answer :: "nat \<Rightarrow> env \<Rightarrow> kl_context \<Rightarrow> (log, (bool \<times> kl_context) option) state" where
  "wait_answer 0 E ctx = ret_m None"
| "wait_answer (Suc n) E ctx =
     (if ctx_is_locked ctx \<or> ctx_is_finished ctx then ret_m (Some (True, ctx))
      else do {
        (r, ctx) \<leftarrow> dispatching E (wl_display_dispatch (ctx_display ctx)) ctx;
        if r = -1 then ret_m (Some (False, ctx))
        else wait_answer n E ctx
      })"

definition EAGAIN :: int where "EAGAIN = 11"

text \<open>Lines 209 to 214.\<close>

definition lock_result :: "env \<Rightarrow> kl_context \<Rightarrow> (log, (int \<times> kl_context) option) state" where
  "lock_result E ctx =
     do {
       r \<leftarrow> disp E (wl_display_flush (ctx_display ctx));
       errno \<leftarrow> peek (errno_of E);
       if r < 0 \<and> errno \<noteq> EAGAIN then ret_m (Some (-1, ctx))
       else ret_m (Some (if ctx_is_locked ctx then 0 else -1, ctx))
     }"

definition kl_context_lock_session ::
  "nat \<Rightarrow> env \<Rightarrow> kl_context \<Rightarrow> (log, (int \<times> kl_context) option) state" where
  "kl_context_lock_session fuel E ctx =
     (if ctx_lock_manager ctx = NULL \<or> ctx_compositor ctx = NULL then ret_m (Some (-1, ctx))
      else if ctx_surfaces ctx = [] then ret_m (Some (-1, ctx))
      else do {
        lock \<leftarrow> lk E (ext_session_lock_manager_v1_lock (ctx_lock_manager ctx));
        ctx \<leftarrow> ret_m (ctx\<lparr>ctx_lock := lock\<rparr>);
        if lock = NULL then ret_m (Some (-1, ctx))
        else do {
          r \<leftarrow> lk E (ext_session_lock_v1_add_listener lock);
          if r < 0 then ret_m (Some (-1, ctx))
          else do {
            (ok, surfs) \<leftarrow> attach_all E ctx (ctx_surfaces ctx);
            ctx \<leftarrow> ret_m (ctx\<lparr>ctx_surfaces := surfs\<rparr>);
            if \<not> ok then ret_m (Some (-1, ctx))
            else do {
              w \<leftarrow> wait_answer fuel E ctx;
              case w of
                None \<Rightarrow> ret_m None
              | Some (ok, ctx) \<Rightarrow>
                  if \<not> ok then ret_m (Some (-1, ctx)) else lock_result E ctx
            }
          }
        }
      })"

definition kl_context_unlock_session :: "env \<Rightarrow> kl_context \<Rightarrow> (log, int \<times> kl_context) state" where
  "kl_context_unlock_session E ctx =
     (if ctx_lock ctx = NULL \<or> \<not> ctx_is_locked ctx \<or> ctx_is_finished ctx then ret_m (-1, ctx)
      else do {
        surfs \<leftarrow> map_m (kl_surface_detach_lock E) (ctx_surfaces ctx);
        ctx \<leftarrow> ret_m (ctx\<lparr>ctx_surfaces := surfs\<rparr>);
        _ \<leftarrow> lk E (ext_session_lock_v1_unlock_and_destroy (ctx_lock ctx));
        ctx \<leftarrow> ret_m (ctx\<lparr>ctx_lock := NULL, ctx_is_locked := False, ctx_is_finished := False\<rparr>);
        (r, ctx) \<leftarrow> dispatching E (wl_display_roundtrip (ctx_display ctx)) ctx;
        ret_m (if r = -1 then -1 else 0, ctx)
      })"

subsection \<open>What the log says about the context\<close>

text \<open>The calls of lock.c and main.c that matter for the context's state; surface.c makes none of
  them.\<close>

fun core :: "call \<Rightarrow> bool" where
  "core (Disp _) = True"
| "core (Lk c) =
     (case c of ext_session_lock_manager_v1_lock _ \<Rightarrow> True
      | ext_session_lock_v1_unlock_and_destroy _ \<Rightarrow> True
      | ext_session_lock_v1_destroy _ \<Rightarrow> True
      | _ \<Rightarrow> False)"
| "core (Ev _) = True"
| "core (Wl _) = False"
| "core (Cr _) = False"
| "core (Sys c) = (case c of sys_epoll_wait _ \<Rightarrow> True | _ \<Rightarrow> False)"

text \<open>The last proxy bound for an interface, and the proxies that a later bind of the same interface
  made the context forget.\<close>

definition single_global :: "string \<Rightarrow> bool" where
  "single_global i \<longleftrightarrow> i = ''wl_compositor'' \<or> i = ''wl_shm'' \<or> i = ''ext_session_lock_manager_v1''"

definition bind_of :: "call \<Rightarrow> string option" where
  "bind_of c = (case c of Disp (wl_registry_bind _ _ i _) \<Rightarrow> Some i | _ \<Rightarrow> None)"

fun bound :: "string \<Rightarrow> log \<Rightarrow> ptr" where
  "bound i [] = NULL"
| "bound i ((c, r) # h) = (if bind_of c = Some i then r else bound i h)"

fun lost :: "log \<Rightarrow> resource multiset" where
  "lost [] = {#}"
| "lost ((c, r) # h) =
     (case bind_of c of
        Some i \<Rightarrow> if single_global i then lost h + own Proxy (bound i h) else lost h
      | None \<Rightarrow> lost h)"

text \<open>
  The ext\_session\_lock\_v1 protocol: whether the locked and the finished event of the current lock
  object were received, and its rules that unlock\_and\_destroy may only follow the locked event and
  destroy may not (session-lock.h, lines 356 to 358 and 461 to 462).
\<close>

fun flags_after :: "bool \<times> bool \<Rightarrow> call \<Rightarrow> int \<Rightarrow> bool \<times> bool" where
  "flags_after fl (Lk (ext_session_lock_manager_v1_lock _)) r = (False, False)"
| "flags_after fl (Ev EvLocked) r = (True, snd fl)"
| "flags_after fl (Ev EvFinished) r = (fst fl, True)"
| "flags_after fl _ r = fl"

fun request_allowed :: "bool \<times> bool \<Rightarrow> call \<Rightarrow> bool" where
  "request_allowed fl (Lk (ext_session_lock_v1_unlock_and_destroy _)) = fst fl"
| "request_allowed fl (Lk (ext_session_lock_v1_destroy _)) = (\<not> fst fl)"
| "request_allowed fl _ = True"

fun lock_flags :: "log \<Rightarrow> bool \<times> bool" where
  "lock_flags [] = (False, False)"
| "lock_flags ((c, r) # h) = flags_after (lock_flags h) c r"

fun protocol_ok :: "log \<Rightarrow> bool" where
  "protocol_ok [] = True"
| "protocol_ok ((c, r) # h) = (protocol_ok h \<and> request_allowed (lock_flags h) c)"

text \<open>The errors the compositor may raise for them: those of the lock object's own requests.\<close>

fun lock_error :: "bool \<times> bool \<Rightarrow> call \<Rightarrow> ext_session_lock_v1_error option" where
  "lock_error fl (Lk (ext_session_lock_v1_unlock_and_destroy _)) =
     (if fst fl then None else Some EXT_SESSION_LOCK_V1_ERROR_INVALID_UNLOCK)"
| "lock_error fl (Lk (ext_session_lock_v1_destroy _)) =
     (if fst fl then Some EXT_SESSION_LOCK_V1_ERROR_INVALID_DESTROY else None)"
| "lock_error fl _ = None"

fun raised :: "log \<Rightarrow> ext_session_lock_v1_error set" where
  "raised [] = {}"
| "raised ((c, r) # h) = (case lock_error (lock_flags h) c of None \<Rightarrow> raised h | Some e \<Rightarrow> insert e (raised h))"

lemma allowed_no_error: "request_allowed fl c \<longleftrightarrow> lock_error fl c = None"
  by (cases "(fl, c)" rule: request_allowed.cases) simp_all

lemma raised_Cons: "raised ((c, r) # h) = (if request_allowed (lock_flags h) c then raised h
    else insert (the (lock_error (lock_flags h) c)) (raised h))"
  by (auto simp: allowed_no_error split: option.splits)

declare raised.simps(2) [simp del]
declare raised_Cons [simp]

lemma raised_protocol: "raised h = {} \<longleftrightarrow> protocol_ok h"
proof (induction h)
  case (Cons e h)
  then show ?case by (cases e) simp
qed simp

lemma lock_error_kinds: "lock_error fl c = Some e \<Longrightarrow>
    e = EXT_SESSION_LOCK_V1_ERROR_INVALID_DESTROY \<or> e = EXT_SESSION_LOCK_V1_ERROR_INVALID_UNLOCK"
  by (cases "(fl, c)" rule: lock_error.cases) (auto split: if_splits)

lemma raised_kinds:
  "raised h \<subseteq> {EXT_SESSION_LOCK_V1_ERROR_INVALID_DESTROY, EXT_SESSION_LOCK_V1_ERROR_INVALID_UNLOCK}"
proof (induction h)
  case (Cons e h)
  then show ?case by (cases e) (auto simp: allowed_no_error dest: lock_error_kinds)
qed simp

interpretation proto: monitor lock_flags protocol_ok flags_after request_allowed
  by unfold_locales simp_all

text \<open>No lock object was both locked and finished.\<close>

fun never_both :: "log \<Rightarrow> bool" where
  "never_both [] = True"
| "never_both (e # h) = (never_both h \<and> lock_flags (e # h) \<noteq> (True, True))"

lemma noncore_facts:
  assumes "\<not> core c"
  shows "bind_of c = None" and "flags_after fl c r = fl" and "request_allowed fl c"
  using assms
  by (auto simp: bind_of_def split: call.splits lock_call.splits elim: core.elims
      intro: flags_after.cases [of "(fl, c, r)"] request_allowed.cases [of "(fl, c)"])

lemma never_both_flags: "never_both h \<Longrightarrow> lock_flags h \<noteq> (True, True)"
  by (cases h) auto

lemma bound_core: "bound i (entries core h) = bound i h"
proof (induction h)
  case (Cons e h)
  then show ?case using noncore_facts(1) by (cases e) (auto simp: entries_Cons)
qed simp

lemma core_view:
  "lost (entries core h) = lost h \<and> lock_flags (entries core h) = lock_flags h \<and>
   protocol_ok (entries core h) = protocol_ok h \<and> never_both (entries core h) = never_both h \<and>
   raised (entries core h) = raised h"
proof (induction h)
  case (Cons e h)
  obtain c r where e: "e = (c, r)" by fastforce
  show ?case
    using Cons noncore_facts [of c] never_both_flags [of h] bound_core [of _ h]
    by (cases "core c") (simp_all add: e entries_Cons split: option.splits, blast)
qed simp

text \<open>So a computation that makes no core call changes none of them.\<close>

lemma core_cong:
  assumes "entries core h' = entries core h"
  shows "bound i h' = bound i h" "lost h' = lost h" "lock_flags h' = lock_flags h"
    "protocol_ok h' = protocol_ok h" "never_both h' = never_both h" "raised h' = raised h"
  using assms bound_core core_view by metis+

subsection \<open>Surface operations make no core call\<close>

lemma noncore_of_quiet: "makes (\<lambda>c. \<not> wire c) m \<Longrightarrow> makes (\<lambda>c. \<not> core c) m"
  by (erule makes_mono) (auto elim!: core.elims split: sys_call.splits)

lemma render_frame_noncore [makes_intros]:
  "makes (\<lambda>c. \<not> core c) (kl_surface_render_frame E ctx surf)"
  unfolding kl_surface_render_frame_def kl_surface_submit_def
  by (auto intro!: makes_intros noncore_of_quiet [OF kl_surface_fit_buffer_quiet]
      noncore_of_quiet [OF kl_surface_paint_quiet] split: prod.splits option.splits)

lemma surface_handlers_noncore [makes_intros]:
  "makes (\<lambda>c. \<not> core c) (kl_surface_request_render E ctx surf)"
  "makes (\<lambda>c. \<not> core c) (kl_output_handle_scale E ctx surf factor)"
  "makes (\<lambda>c. \<not> core c) (kl_surface_frame_handle_done E ctx data callback)"
  "makes (\<lambda>c. \<not> core c) (surface_buffer_released E ctx surf i)"
  "makes (\<lambda>c. \<not> core c) (kl_lock_surface_handle_configure E ctx surf p serial w ht)"
  unfolding kl_surface_request_render_def kl_output_handle_scale_def kl_surface_frame_handle_done_def
    surface_buffer_released_def kl_surface_on_buffer_release_def kl_lock_surface_handle_configure_def
  by (auto simp: Let_def split: prod.splits intro!: makes_intros)

lemma attach_lock_noncore [makes_intros]: "makes (\<lambda>c. \<not> core c) (kl_surface_attach_lock E ctx surf)"
  unfolding kl_surface_attach_lock_def by (auto intro!: makes_intros)

lemma kl_buffer_destroy_noncore [makes_intros]: "makes (\<lambda>c. \<not> core c) (kl_buffer_destroy E buf)"
  by (rule noncore_of_quiet [OF kl_buffer_destroy_quiet])

lemma detach_lock_noncore [makes_intros]: "makes (\<lambda>c. \<not> core c) (kl_surface_detach_lock E surf)"
  unfolding kl_surface_detach_lock_def by (auto intro!: makes_intros)

lemma release_output_noncore [makes_intros]: "makes (\<lambda>c. \<not> core c) (release_output E output)"
  unfolding release_output_def by (auto intro!: makes_intros)

lemma surface_destroy_noncore [makes_intros]: "makes (\<lambda>c. \<not> core c) (kl_surface_destroy E surf)"
  unfolding kl_surface_destroy_def kl_render_engine_destroy_def kl_render_cleanup_baked_def
  by (auto intro!: makes_intros)

lemma surface_create_noncore [makes_intros]: "makes (\<lambda>c. \<not> core c) (kl_surface_create E ctx output name)"
  unfolding kl_surface_create_def kl_render_engine_create_def by (auto intro!: makes_intros)

subsection \<open>Invariant and resources of the context\<close>

definition ctx_owned :: "kl_context \<Rightarrow> resource multiset" where
  "ctx_owned ctx =
     own Display (ctx_display ctx) + own Proxy (ctx_registry ctx) + own Proxy (ctx_compositor ctx) +
     own Proxy (ctx_shm ctx) + own Proxy (ctx_lock_manager ctx) + own Proxy (ctx_lock ctx) +
     sum_list (map surf_owned (ctx_surfaces ctx))"

text \<open>\<open>tracked\<close>: the fields of the context agree with the log: the globals are the last ones bound
  and the flags are those of the current lock object.\<close>

definition tracked :: "kl_context \<Rightarrow> log \<Rightarrow> bool" where
  "tracked ctx h \<longleftrightarrow>
     ctx_compositor ctx = bound ''wl_compositor'' h \<and> ctx_shm ctx = bound ''wl_shm'' h \<and>
     ctx_lock_manager ctx = bound ''ext_session_lock_manager_v1'' h \<and>
     (if ctx_lock ctx = NULL then \<not> ctx_is_locked ctx \<and> \<not> ctx_is_finished ctx
      else (ctx_is_locked ctx, ctx_is_finished ctx) = lock_flags h)"

definition conforms :: "log \<Rightarrow> bool" where
  "conforms h \<longleftrightarrow> (never_both h \<longrightarrow> protocol_ok h) \<and>
     EXT_SESSION_LOCK_V1_ERROR_INVALID_UNLOCK \<notin> raised h"

definition ctx_inv :: "kl_context \<Rightarrow> bool" where
  "ctx_inv ctx \<longleftrightarrow> ctx_display ctx \<noteq> NULL \<and> ctx_registry ctx \<noteq> NULL \<and>
     (\<forall>surf \<in> set (ctx_surfaces ctx). surf_inv surf)"

definition ctx_state :: "resource multiset \<Rightarrow> kl_context \<Rightarrow> log \<Rightarrow> bool" where
  "ctx_state F ctx h \<longleftrightarrow> ledger h (F + lost h + ctx_owned ctx) \<and> ctx_inv ctx \<and> tracked ctx h \<and> conforms h"

text \<open>What no dispatched event changes.\<close>

definition ctx_base :: "kl_context \<Rightarrow> ptr \<times> ptr \<times> ptr" where
  "ctx_base ctx = (ctx_display ctx, ctx_registry ctx, ctx_lock ctx)"

definition ctx_fixed :: "kl_context \<Rightarrow> resource multiset" where
  "ctx_fixed ctx =
     own Display (ctx_display ctx) + own Proxy (ctx_registry ctx) + own Proxy (ctx_compositor ctx) +
     own Proxy (ctx_shm ctx) + own Proxy (ctx_lock_manager ctx) + own Proxy (ctx_lock ctx)"

lemma ctx_owned_fixed: "ctx_owned ctx = ctx_fixed ctx + sum_list (map surf_owned (ctx_surfaces ctx))"
  by (simp add: ctx_owned_def ctx_fixed_def)

lemma ctx_fixed_surfaces [simp]: "ctx_fixed (ctx\<lparr>ctx_surfaces := xs\<rparr>) = ctx_fixed ctx"
  by (simp add: ctx_fixed_def)

lemma ctx_fixed_live: "ctx_live ctx (ctx_fixed ctx + G)" "ctx_live ctx (G + ctx_fixed ctx)"
  by (simp_all add: ctx_live_def ctx_fixed_def own_def)

lemma ctx_live_mono: "ctx_live ctx F \<Longrightarrow> F \<subseteq># G \<Longrightarrow> ctx_live ctx G"
  by (auto simp: ctx_live_def dest: mset_subset_eqD)

lemma tracked_surfaces [simp]: "tracked (ctx\<lparr>ctx_surfaces := xs\<rparr>) h = tracked ctx h"
  by (simp add: tracked_def)

text \<open>After calls that are not core, only the ledger and the surfaces have to be looked at.\<close>

lemma ctx_state_surfaces:
  assumes st: "ctx_state F ctx h" and same: "entries core h' = entries core h"
    and l: "ledger h' (F' + lost h + ctx_fixed ctx + sum_list (map surf_owned xs))"
    and xs: "\<forall>surf \<in> set xs. surf_inv surf"
  shows "ctx_state F' (ctx\<lparr>ctx_surfaces := xs\<rparr>) h'"
  using assms core_cong [OF same]
  by (simp add: ctx_state_def ctx_inv_def tracked_def conforms_def ctx_owned_fixed add_ac)

lemma wp_noncore:
  assumes "makes (\<lambda>c. \<not> core c) m" and "wp m (\<lambda>a h'. entries core h' = entries core h \<longrightarrow> Q a h') h"
  shows "wp m Q h"
  using assms by (rule wp_entries_kept)

lemma wp_log_event: "wp (log_event e) Q h = Q () ((Ev e, 0) # h)"
  by (simp add: wp_def log_event_def)

lemma ledger_event: "ledger ((Ev e, r) # h) L = ledger h L"
  by (simp add: ledger_def ledger_simps)

lemma ctx_state_event:
  assumes "ctx_state F ctx h" and "flags_after (lock_flags h) (Ev e) 0 = lock_flags h"
  shows "ctx_state F ctx ((Ev e, 0) # h)"
  using assms never_both_flags [of h]
  by (auto simp: ctx_state_def ledger_event tracked_def conforms_def bind_of_def)

lemma first_index_Some: "first_index P xs = Some i \<Longrightarrow> i < length xs \<and> P (xs ! i)"
  by (auto simp: first_index_def find_Some_iff)

lemma on_surface_state:
  assumes st: "ctx_state F ctx h" and e: "\<And>fl. flags_after fl (Ev e) 0 = fl"
    and handler: "\<And>surf G g R. \<lbrakk>surf_inv surf; alive surf; ledger g (G + surf_owned surf); ctx_live ctx G;
        \<And>surf' g'. ledger g' (G + surf_owned surf') \<Longrightarrow> surf_inv surf' \<Longrightarrow> R surf' g'\<rbrakk> \<Longrightarrow>
        wp (handler surf) R g"
    and nc: "\<And>surf. makes (\<lambda>c. \<not> core c) (handler surf)"
    and Q: "\<And>ctx' h'. ctx_state F ctx' h' \<Longrightarrow> ctx_base ctx' = ctx_base ctx \<Longrightarrow> Q ctx' h'"
  shows "wp (on_surface e p alive handler ctx) Q h"
proof (cases "first_index (\<lambda>surf. surf_addr surf = p) (ctx_surfaces ctx)")
  case None
  then show ?thesis using st by (simp add: on_surface_def wp_simps Q)
next
  case (Some i)
  let ?xs = "ctx_surfaces ctx" and ?h = "(Ev e, 0) # h"
  let ?G = "F + lost ?h + ctx_fixed ctx + rest surf_owned ?xs i"
  have i: "i < length ?xs" using first_index_Some [OF Some] by simp
  have st': "ctx_state F ctx ?h" by (rule ctx_state_event [OF st]) (simp add: e)
  have inv: "surf_inv (?xs ! i)" and all: "\<forall>surf \<in> set ?xs. surf_inv surf"
    using st i by (auto simp: ctx_state_def ctx_inv_def)
  have g: "ledger ?h (?G + surf_owned (?xs ! i))"
    using st' sum_list_rest [OF i, of surf_owned] by (simp add: ctx_state_def ctx_owned_fixed add_ac)
  have live: "ctx_live ctx ?G" by (rule ctx_live_mono [OF ctx_fixed_live(2) [of ctx "F + lost ?h"]]) simp
  have fin: "Q (ctx\<lparr>ctx_surfaces := ?xs[i := surf']\<rparr>) g'"
    if "ledger g' (?G + surf_owned surf')" "surf_inv surf'" "entries core g' = entries core ?h" for surf' g'
    using that sum_list_rest [of i "?xs[i := surf']" surf_owned] i set_list_update [OF all that(2)]
    by (intro Q ctx_state_surfaces [OF st' that(3)]) (simp_all add: ctx_base_def add_ac)
  have "wp (handler (?xs ! i)) (\<lambda>surf. Q (ctx\<lparr>ctx_surfaces := ?xs[i := surf]\<rparr>)) ?h"
    if "alive (?xs ! i)"
    by (rule wp_noncore [OF nc], rule handler [OF inv that g live]) (simp add: fin)
  then show ?thesis
    using st by (simp add: on_surface_def Some wp_simps wp_log_event Q)
qed

context surface_handler
begin

lemma on_surface_handle:
  assumes E: "env_ok E" and st: "ctx_state F ctx h" and e: "\<And>fl. flags_after fl (Ev e) 0 = fl"
    and able: "\<And>surf. alive surf \<Longrightarrow> able surf"
    and nc: "\<And>surf. makes (\<lambda>c. \<not> core c) (handle E ctx surf)"
    and Q: "\<And>ctx' h'. ctx_state F ctx' h' \<Longrightarrow> ctx_base ctx' = ctx_base ctx \<Longrightarrow> Q ctx' h'"
  shows "wp (on_surface e p alive (\<lambda>surf. do { r \<leftarrow> handle E ctx surf; ret_m (get r) }) ctx) Q h"
proof (rule on_surface_state [OF st e _ _ Q])
  fix surf G g and R :: "kl_surface \<Rightarrow> log \<Rightarrow> bool"
  assume "surf_inv surf" "alive surf" "ledger g (G + surf_owned surf)" "ctx_live ctx G"
    and R: "\<And>surf' g'. ledger g' (G + surf_owned surf') \<Longrightarrow> surf_inv surf' \<Longrightarrow> R surf' g'"
  then show "wp (do { r \<leftarrow> handle E ctx surf; ret_m (get r) }) R g"
    by (simp only: wp_simps) (rule handle_ledger [OF E], auto intro: able)
qed (auto intro: makes_intros nc)

end

subsection \<open>The registry and lock listeners\<close>

lemma ctx_state_failed [simp]: "ctx_state F (ctx\<lparr>ctx_failed := b\<rparr>) h = ctx_state F ctx h"
  by (simp add: ctx_state_def ctx_owned_def ctx_inv_def tracked_def)

lemma ctx_base_simps [simp]:
  "ctx_base (ctx\<lparr>ctx_failed := b\<rparr>) = ctx_base ctx" "ctx_base (ctx\<lparr>ctx_surfaces := xs\<rparr>) = ctx_base ctx"
  "ctx_base (ctx\<lparr>ctx_is_locked := b\<rparr>) = ctx_base ctx" "ctx_base (ctx\<lparr>ctx_is_finished := b\<rparr>) = ctx_base ctx"
  "ctx_base (ctx\<lparr>ctx_compositor := p\<rparr>) = ctx_base ctx" "ctx_base (ctx\<lparr>ctx_shm := p\<rparr>) = ctx_base ctx"
  "ctx_base (ctx\<lparr>ctx_lock_manager := p\<rparr>) = ctx_base ctx"
  by (simp_all add: ctx_base_def)

lemma ctx_state_reframe:
  assumes "ctx_state F ctx h" and "entries core h' = entries core h"
    and "ledger h' (F' + lost h + ctx_owned ctx)"
  shows "ctx_state F' ctx h'"
  using ctx_state_surfaces [OF assms(1,2), of F' "ctx_surfaces ctx"] assms
  by (simp add: ctx_owned_fixed add_ac ctx_state_def ctx_inv_def)

lemma ctx_state_ledger: "ctx_state F ctx h \<Longrightarrow> ledger h (F + lost h + ctx_owned ctx)"
  by (simp add: ctx_state_def)

lemma ctx_state_insert:
  assumes "ctx_state (F + surf_owned surf) ctx h" and "surf_inv surf"
  shows "ctx_state F (ctx\<lparr>ctx_surfaces := surf # ctx_surfaces ctx\<rparr>) h"
  using assms by (simp add: ctx_state_def ctx_owned_def ctx_inv_def add_ac)

text \<open>A call on the display that creates and destroys nothing.\<close>

lemma wp_display_state:
  assumes E: "env_ok E" and st: "ctx_state F ctx h"
    and c: "acquires (Disp c) = (\<lambda>_. {#})" "releases (Disp c) = {#}"
      "needs (Disp c) \<subseteq> {Display (ctx_display ctx)}" "bind_of (Disp c) = None"
    and Q: "\<And>r h'. ctx_state F ctx h' \<Longrightarrow> Q r h'"
  shows "wp (disp E c) Q h"
proof (rule wp_ext)
  fix r h' assume h': "h' = (Disp c, r) # h"
  have "Display (ctx_display ctx) \<in># live h"
    using st by (simp add: ctx_state_def ledger_def ctx_owned_def ctx_inv_def own_def)
  then have "needs (Disp c) \<subseteq> set_mset (live h)" using c(3) by blast
  then have "ledger h' (live h)" if "safe h"
    using that c(1,2) unfolding h' by (simp add: ledger_def permitted_def transfer_def del: needs.simps acquires.simps releases.simps)
  then have "ctx_state F ctx h'"
    using st never_both_flags [of h]
    by (auto simp: ctx_state_def h' tracked_def conforms_def c(4) ledger_def)
  then show "Q r h'" by (rule Q)
qed

lemma bind_ledger:
  assumes st: "ctx_state F ctx h"
  shows "ledger ((Disp (wl_registry_bind (ctx_registry ctx) name i v), r) # h)
    (F + lost h + ctx_owned ctx + own Proxy r)"
  using st by (simp add: ctx_state_def ledger_def ledger_simps ctx_owned_def ctx_inv_def own_def)

lemma bind_output_state:
  assumes st: "ctx_state F ctx h"
  shows "ctx_state (F + own Proxy r) ctx
    ((Disp (wl_registry_bind (ctx_registry ctx) name ''wl_output'' v), r) # h)"
  using st bind_ledger [OF st, of name "''wl_output''" v r] never_both_flags [of h]
  by (auto simp: ctx_state_def tracked_def conforms_def bind_of_def single_global_def add_ac)

lemma bind_global_state:
  assumes st: "ctx_state F ctx h"
  shows "ctx_state F (ctx\<lparr>ctx_compositor := r\<rparr>)
      ((Disp (wl_registry_bind (ctx_registry ctx) name ''wl_compositor'' v), r) # h)"
    and "ctx_state F (ctx\<lparr>ctx_shm := r\<rparr>)
      ((Disp (wl_registry_bind (ctx_registry ctx) name ''wl_shm'' v), r) # h)"
    and "ctx_state F (ctx\<lparr>ctx_lock_manager := r\<rparr>)
      ((Disp (wl_registry_bind (ctx_registry ctx) name ''ext_session_lock_manager_v1'' v), r) # h)"
  using st bind_ledger [OF st, of name "''wl_compositor''" v r] bind_ledger [OF st, of name "''wl_shm''" v r]
    bind_ledger [OF st, of name "''ext_session_lock_manager_v1''" v r] never_both_flags [of h]
  by (auto simp: ctx_state_def tracked_def conforms_def bind_of_def single_global_def ctx_owned_def
      ctx_inv_def add_ac)

lemma new_output_state:
  assumes E: "env_ok E" and st: "ctx_state (add_mset (Proxy output) F) ctx h" and o: "output \<noteq> NULL"
    and Q: "\<And>ctx' h'. ctx_state F ctx' h' \<Longrightarrow> ctx_base ctx' = ctx_base ctx \<Longrightarrow> Q ctx' h'"
  shows "wp (do {
          surf \<leftarrow> kl_surface_create E kl_context_ptr output name;
          case surf of
            None \<Rightarrow> do { _ \<leftarrow> release_output E output; ret_m (ctx\<lparr>ctx_failed := True\<rparr>) }
          | Some surf \<Rightarrow>
              if ctx_lock ctx \<noteq> NULL \<and> \<not> ctx_is_finished ctx then do {
                (r, surf) \<leftarrow> kl_surface_attach_lock E ctx surf;
                _ \<leftarrow> disp E (wl_display_flush (ctx_display ctx));
                ret_m (ctx\<lparr>ctx_surfaces := surf # ctx_surfaces ctx\<rparr>) }
              else ret_m (ctx\<lparr>ctx_surfaces := surf # ctx_surfaces ctx\<rparr>) }) Q h"
proof -
  let ?G = "F + lost h + ctx_owned ctx"
  have insert: "Q (ctx\<lparr>ctx_surfaces := surf # ctx_surfaces ctx\<rparr>) h'"
    if "ctx_state (F + surf_owned surf) ctx h'" "surf_inv surf" for surf h'
    by (rule Q [OF ctx_state_insert [OF that]]) simp
  have flush: "wp (disp E (wl_display_flush (ctx_display ctx)))
      (\<lambda>_. Q (ctx\<lparr>ctx_surfaces := surf # ctx_surfaces ctx\<rparr>)) h'"
    if "ctx_state (F + surf_owned surf) ctx h'" "surf_inv surf" for surf h'
    by (rule wp_display_state [OF E that(1)]) (simp_all add: bind_of_def fun_eq_iff insert [OF _ that(2)])
  have step: "ctx_state F' ctx h'" if "ledger h' (F' + lost h + ctx_owned ctx)"
    "entries core h' = entries core h" for F' h'
    by (rule ctx_state_reframe [OF st that(2,1)])
  have fixed: "ctx_live ctx ?G"
    by (rule ctx_live_mono [OF ctx_fixed_live(2) [of ctx "F + lost h"]]) (simp add: ctx_owned_fixed add_ac)
  have attach: "wp (kl_surface_attach_lock E ctx surf)
      (\<lambda>p. wp (disp E (wl_display_flush (ctx_display ctx)))
         (\<lambda>_. Q (ctx\<lparr>ctx_surfaces := snd p # ctx_surfaces ctx\<rparr>))) h'"
    if l: "ledger h' (?G + surf_owned surf)" "surf_inv surf" "entries core h' = entries core h" for surf h'
    by (rule wp_noncore [OF attach_lock_noncore], rule attach_lock.handle_ledger [OF E l(1,2) fixed])
       (auto intro!: flush step simp: l(3) add_ac)
  have release: "wp (release_output E output) (\<lambda>_. Q (ctx\<lparr>ctx_failed := True\<rparr>)) h'"
    if "ledger h' (add_mset (Proxy output) ?G)" "entries core h' = entries core h" for h'
    by (rule wp_noncore [OF release_output_noncore], rule release_output_ledger [OF E that(1)])
       (auto intro!: Q simp: that step)
  have h: "ledger h (add_mset (Proxy output) ?G)" using ctx_state_ledger [OF st] by simp
  show ?thesis
    apply (simp only: wp_bind)
    apply (rule wp_noncore [OF surface_create_noncore])
    apply (rule kl_surface_create_ledger [OF E h])
    by (use release attach insert step in \<open>auto simp: wp_simps add_ac\<close>)
qed

lemma kl_registry_handle_global_state:
  assumes E: "env_ok E" and st: "ctx_state F ctx h"
    and Q: "\<And>ctx' h'. ctx_state F ctx' h' \<Longrightarrow> ctx_base ctx' = ctx_base ctx \<Longrightarrow> Q ctx' h'"
  shows "wp (kl_registry_handle_global E ctx (ctx_registry ctx) name i v) Q h"
proof -
  have bind: "wp (disp E (wl_registry_bind (ctx_registry ctx) name j w)) R h"
    if "\<And>r h'. h' = (Disp (wl_registry_bind (ctx_registry ctx) name j w), r) # h \<Longrightarrow> R r h'" for j w R
    by (rule wp_ext) (rule that)
  have globals: "Q (ctx\<lparr>ctx_compositor := r, ctx_failed := b\<rparr>)
        ((Disp (wl_registry_bind (ctx_registry ctx) name ''wl_compositor'' w), r) # h)"
      "Q (ctx\<lparr>ctx_shm := r, ctx_failed := b\<rparr>)
        ((Disp (wl_registry_bind (ctx_registry ctx) name ''wl_shm'' w), r) # h)"
      "Q (ctx\<lparr>ctx_lock_manager := r, ctx_failed := b\<rparr>)
        ((Disp (wl_registry_bind (ctx_registry ctx) name ''ext_session_lock_manager_v1'' w), r) # h)"
    for r w b
    using bind_global_state [OF st] by (auto intro!: Q)
  have out: "ctx_state (add_mset (Proxy r) F) ctx
      ((Disp (wl_registry_bind (ctx_registry ctx) name ''wl_output'' w), r) # h)" if "r \<noteq> NULL" for r w
    using bind_output_state [OF st, of r name w] that by (simp add: own_nonnull)
  have failed: "Q (ctx\<lparr>ctx_failed := True\<rparr>)
      ((Disp (wl_registry_bind (ctx_registry ctx) name ''wl_output'' w), NULL) # h)" for w
    using bind_output_state [OF st, of NULL name w] by (intro Q) simp_all
  show ?thesis
    unfolding kl_registry_handle_global_def
    apply (simp only: wp_if wp_return)
    apply (intro ifI)
         apply (rule Q [OF st refl])
        apply (simp only: wp_bind [of "disp _ _"])
        apply (rule bind)
        apply (simp only: wp_if wp_return)
        apply (rule ifI)
         apply (simp add: failed)
        apply (hypsubst, rule new_output_state [OF E out], assumption+, erule (1) Q)
    by (simp_all add: wp_simps Q [OF st] bind globals)
qed

lemma kl_registry_handle_global_remove_state:
  assumes E: "env_ok E" and st: "ctx_state F ctx h"
    and Q: "\<And>ctx' h'. ctx_state F ctx' h' \<Longrightarrow> ctx_base ctx' = ctx_base ctx \<Longrightarrow> Q ctx' h'"
  shows "wp (kl_registry_handle_global_remove E ctx name) Q h"
proof (cases "first_index (\<lambda>surf. surf_global_name surf = name) (ctx_surfaces ctx)")
  case None
  then show ?thesis using st by (simp add: kl_registry_handle_global_remove_def wp_simps Q)
next
  case (Some i)
  let ?xs = "ctx_surfaces ctx"
  let ?ys = "take i ?xs @ drop (Suc i) ?xs"
  have i: "i < length ?xs" using first_index_Some [OF Some] by simp
  have inv: "surf_inv (?xs ! i)" and all: "\<forall>surf \<in> set ?ys. surf_inv surf"
    using st i by (auto simp: ctx_state_def ctx_inv_def dest: in_set_takeD in_set_dropD)
  have g: "ledger h ((F + lost h + ctx_fixed ctx + sum_list (map surf_owned ?ys)) + surf_owned (?xs ! i))"
    using st sum_list_rest [OF i, of surf_owned]
    by (simp add: ctx_state_def ctx_owned_fixed rest_def add_ac)
  have "wp (kl_surface_destroy E (?xs ! i)) (\<lambda>_. Q (ctx\<lparr>ctx_surfaces := ?ys\<rparr>)) h"
    by (rule wp_noncore [OF surface_destroy_noncore], rule kl_surface_destroy_ledger [OF E g inv])
       (auto intro!: Q ctx_state_surfaces [OF st] simp: all [simplified])
  then show ?thesis by (simp add: kl_registry_handle_global_remove_def Some wp_simps)
qed

lemma lock_event_state:
  assumes st: "ctx_state F ctx h" and lock: "ctx_lock ctx \<noteq> NULL"
  shows "ctx_state F (kl_lock_handle_locked ctx) ((Ev EvLocked, 0) # h)"
    and "ctx_state F (kl_lock_handle_finished ctx) ((Ev EvFinished, 0) # h)"
  using st lock
  by (auto simp: ctx_state_def ledger_event tracked_def conforms_def bind_of_def ctx_owned_def ctx_inv_def
      kl_lock_handle_locked_def kl_lock_handle_finished_def) (metis prod.sel)+

text \<open>The events of a surface's objects.\<close>

lemma object_events_state:
  assumes E: "env_ok E" and st: "ctx_state F ctx h"
    and Q: "\<And>ctx' h'. ctx_state F ctx' h' \<Longrightarrow> ctx_base ctx' = ctx_base ctx \<Longrightarrow> Q ctx' h'"
  shows "wp (dispatch_event E ctx (EvConfigure p serial w ht)) Q h"
    and "wp (dispatch_event E ctx (EvFrameDone p time)) Q h"
    and "wp (dispatch_event E ctx (EvRelease p i)) Q h"
    and "wp (dispatch_event E ctx (EvScale p factor)) Q h"
proof -
  have "wp (on_surface (EvConfigure p serial w ht) p (\<lambda>surf. surf_ext_lock_surface surf \<noteq> NULL)
      (\<lambda>surf. do { r \<leftarrow> kl_lock_surface_handle_configure E ctx surf (surf_ext_lock_surface surf) serial w ht;
        ret_m r }) ctx) Q h"
    by (rule configure.on_surface_handle [OF E st _ _ _ Q]) (auto intro!: makes_intros)
  then show "wp (dispatch_event E ctx (EvConfigure p serial w ht)) Q h" by (simp add: dispatch_event_def)
  have "wp (on_surface (EvFrameDone p time) p (\<lambda>surf. surf_frame_callback surf \<noteq> NULL)
      (\<lambda>surf. do { r \<leftarrow> kl_surface_frame_handle_done E ctx (Some surf) (surf_frame_callback surf);
        ret_m (the r) }) ctx) Q h"
    by (rule frame_done.on_surface_handle [OF E st _ _ _ Q]) (auto intro!: makes_intros)
  then show "wp (dispatch_event E ctx (EvFrameDone p time)) Q h" by (simp add: dispatch_event_def)
  have "wp (on_surface (EvRelease p i) p
        (\<lambda>surf. i < KL_SURFACE_BUFFER_COUNT \<and> buf_wl_buffer (surf_buffers surf ! i) \<noteq> NULL)
      (\<lambda>surf. do { r \<leftarrow> surface_buffer_released E ctx surf i; ret_m r }) ctx) Q h"
    by (rule buffer_released.on_surface_handle [OF E st _ _ _ Q])
       (auto simp: KL_SURFACE_BUFFER_COUNT_def intro!: makes_intros)
  then show "wp (dispatch_event E ctx (EvRelease p i)) Q h" by (simp add: dispatch_event_def)
  have "wp (on_surface (EvScale p factor) p (\<lambda>_. True)
      (\<lambda>surf. do { r \<leftarrow> kl_output_handle_scale E ctx surf factor; ret_m r }) ctx) Q h"
    by (rule output_scale.on_surface_handle [OF E st _ _ _ Q]) (auto intro!: makes_intros)
  then show "wp (dispatch_event E ctx (EvScale p factor)) Q h" by (simp add: dispatch_event_def)
qed

lemma dispatch_event_state:
  assumes E: "env_ok E" and st: "ctx_state F ctx h"
    and Q: "\<And>ctx' h'. ctx_state F ctx' h' \<Longrightarrow> ctx_base ctx' = ctx_base ctx \<Longrightarrow> Q ctx' h'"
  shows "wp (dispatch_event E ctx e) Q h"
proof -
  have same: "ctx_state F ctx ((Ev ev, 0) # h)" if "\<And>fl. flags_after fl (Ev ev) 0 = fl" for ev
    by (rule ctx_state_event [OF st]) (rule that)
  have pure: "wp (on_surface ev p alive (\<lambda>surf. ret_m surf) ctx) Q h" if "\<And>fl. flags_after fl (Ev ev) 0 = fl" for ev p alive
    by (rule on_surface_state [OF st that _ _ Q]) (auto simp: wp_simps intro: makes_intros)
  show ?thesis
  proof (cases e)
    case (EvGlobal name i v)
    then show ?thesis
      using st by (auto simp: dispatch_event_def wp_simps wp_log_event
          intro!: Q kl_registry_handle_global_state [OF E same])
  next
    case (EvGlobalRemove name)
    then show ?thesis
      using st by (auto simp: dispatch_event_def wp_simps wp_log_event
          intro!: Q kl_registry_handle_global_remove_state [OF E same])
  next
    case EvLocked
    then show ?thesis
      using st lock_event_state [OF st]
      by (simp add: dispatch_event_def wp_simps wp_log_event Q kl_lock_handle_locked_def)
  next
    case EvFinished
    then show ?thesis
      using st lock_event_state [OF st]
      by (simp add: dispatch_event_def wp_simps wp_log_event Q kl_lock_handle_finished_def)
  qed (simp_all add: object_events_state [OF E st Q], simp_all add: dispatch_event_def pure
      kl_output_handle_geometry_def kl_output_handle_mode_def kl_output_handle_done_def)
qed

lemma dispatch_events_state:
  assumes E: "env_ok E"
  shows "\<lbrakk>ctx_state F ctx h;
    \<And>ctx' h'. ctx_state F ctx' h' \<Longrightarrow> ctx_base ctx' = ctx_base ctx \<Longrightarrow> Q ctx' h'\<rbrakk> \<Longrightarrow>
    wp (dispatch_events E ctx es) Q h"
  by (induction es arbitrary: ctx h)
     (auto simp: wp_simps intro!: dispatch_event_state [OF E])

lemma dispatching_state:
  assumes E: "env_ok E" and st: "ctx_state F ctx h"
    and c: "acquires (Disp c) = (\<lambda>_. {#})" "releases (Disp c) = {#}"
      "needs (Disp c) \<subseteq> {Display (ctx_display ctx)}" "bind_of (Disp c) = None"
    and Q: "\<And>r ctx' h'. ctx_state F ctx' h' \<Longrightarrow> ctx_base ctx' = ctx_base ctx \<Longrightarrow> Q (r, ctx') h'"
  shows "wp (dispatching E c ctx) Q h"
  unfolding dispatching_def
  by (simp only: wp_simps, rule wp_display_state [OF E st c], rule wp_peek,
      rule dispatch_events_state [OF E], assumption, rule Q)

subsection \<open>Tearing the context down\<close>

text \<open>The ledger together with what must not change while the context is dismantled.\<close>

definition books :: "log \<Rightarrow> resource multiset \<Rightarrow> resource multiset \<Rightarrow> bool" where
  "books h L X \<longleftrightarrow> ledger h L \<and> lost h = X \<and> conforms h"

definition plain :: "call \<Rightarrow> bool" where
  "plain c \<longleftrightarrow> bind_of c = None \<and> (\<forall>fl r. flags_after fl c r = fl \<and> request_allowed fl c)"

lemma books_noncore: "books h L X \<Longrightarrow> entries core h' = entries core h \<Longrightarrow> ledger h' L' \<Longrightarrow> books h' L' X"
  using core_cong [of h' h] by (simp add: books_def conforms_def)

lemma books_plain:
  assumes "books h L X" and "permitted L c" and "plain c"
  shows "books ((c, r) # h) (transfer L c r) X"
  using assms never_both_flags [of h]
  by (cases "lock_flags h") (auto simp: books_def conforms_def plain_def ledger_def)

lemma wp_drop:
  assumes "books h (L + own k p) X"
    and c: "releases c = {#k p#}" "needs c = {}" "acquires c = (\<lambda>_. {#})" "plain c"
    and same: "p = NULL \<Longrightarrow> x = y" and Q: "\<And>h'. books h' L X \<Longrightarrow> Q y h'"
  shows "wp (if p \<noteq> NULL then do { _ \<leftarrow> ext E c; ret_m y } else ret_m x) Q h"
proof (cases "p = NULL")
  case True
  then show ?thesis using assms by (simp add: wp_simps)
next
  case False
  then have "books ((c, r) # h) L X" for r
    using books_plain [OF assms(1) _ c(4), of r] c by (simp add: permitted_def transfer_def own_nonnull)
  then show ?thesis using False by (auto simp: wp_simps intro!: wp_ext Q)
qed

lemma plain_simps [simp]:
  "plain (Lk (ext_session_lock_manager_v1_destroy p))" "plain (Wl c)" "plain (Disp (wl_registry_destroy p))"
  "plain (Disp (wl_display_roundtrip p))" "plain (Disp (wl_display_disconnect p))"
  "plain (Disp wl_display_connect)" "plain (Disp (wl_display_get_registry p))"
  "plain (Disp (wl_registry_add_listener p))"
  "plain (Lk (ext_session_lock_v1_add_listener p))" "plain (Sys sc)" "plain (Cr cc)"
  by (simp_all add: plain_def bind_of_def)

text \<open>The lock object: unlocked when it is locked and not finished, destroyed otherwise.\<close>

lemma drop_lock_books:
  assumes b: "books h (add_mset (Proxy p) L) X" and fl: "(locked, finished) = lock_flags h"
  shows "locked \<and> \<not> finished \<Longrightarrow> books ((Lk (ext_session_lock_v1_unlock_and_destroy p), r) # h) L X"
    and "\<not> (locked \<and> \<not> finished) \<Longrightarrow> books ((Lk (ext_session_lock_v1_destroy p), r) # h) L X"
  using b fl never_both_flags [of h]
  by (auto simp: books_def conforms_def ledger_def ledger_simps bind_of_def) (metis prod.sel)+

lemma wp_drop_lock:
  assumes b: "books h (L + own Proxy (ctx_lock ctx)) X"
    and fl: "ctx_lock ctx \<noteq> NULL \<Longrightarrow> (ctx_is_locked ctx, ctx_is_finished ctx) = lock_flags h"
    and Q: "\<And>h'. books h' L X \<Longrightarrow> Q (ctx\<lparr>ctx_lock := NULL\<rparr>) h'"
  shows "wp (destroy_lock E ctx) Q h"
proof (cases "ctx_lock ctx = NULL")
  case True
  then have "ctx\<lparr>ctx_lock := NULL\<rparr> = ctx" by (cases ctx) simp
  moreover have "books h L X" using b True by simp
  ultimately have "Q ctx h" using Q [of h] by metis
  then show ?thesis using True by (simp add: destroy_lock_def wp_simps)
next
  case False
  then have "books h (add_mset (Proxy (ctx_lock ctx)) L) X" using b by (simp add: own_nonnull)
  note lk = drop_lock_books [OF this fl [OF False]]
  show ?thesis using False by (auto simp: destroy_lock_def wp_simps intro!: wp_ext Q lk)
qed

lemma idle_dispatch:
  assumes "ctx_registry ctx = NULL" and "ctx_lock ctx = NULL" and "ctx_surfaces ctx = []"
  shows "dispatch_events E ctx es = ret_m ctx"
proof (induction es)
  case (Cons e es)
  have "dispatch_event E ctx e = ret_m ctx"
    using assms by (cases e) (simp_all add: dispatch_event_def on_surface_def first_index_def)
  with Cons show ?case by simp
qed simp

lemma disconnect_books:
  assumes b: "books h (L + own Display (ctx_display ctx)) X"
    and idle: "ctx_registry ctx = NULL" "ctx_lock ctx = NULL" "ctx_surfaces ctx = []"
    and Q: "\<And>h'. books h' L X \<Longrightarrow> Q (ctx\<lparr>ctx_display := NULL\<rparr>) h'"
  shows "wp (if ctx_display ctx \<noteq> NULL
         then do { (r, ctx) \<leftarrow> dispatching E (wl_display_roundtrip (ctx_display ctx)) ctx;
                   _ \<leftarrow> disp E (wl_display_disconnect (ctx_display ctx));
                   ret_m (ctx\<lparr>ctx_display := NULL\<rparr>) }
         else ret_m ctx) Q h"
proof (cases "ctx_display ctx = NULL")
  case True
  then have "ctx\<lparr>ctx_display := NULL\<rparr> = ctx" by (cases ctx) simp
  moreover have "books h L X" using b True by simp
  ultimately have "Q ctx h" using Q [of h] by metis
  then show ?thesis using True by (simp add: wp_simps)
next
  case False
  let ?c = "Disp (wl_display_roundtrip (ctx_display ctx))"
  let ?d = "Disp (wl_display_disconnect (ctx_display ctx))"
  have 1: "books ((?c, r) # h) (L + own Display (ctx_display ctx)) X" for r
    using books_plain [OF b, of ?c r] False by (simp add: ledger_simps)
  have 2: "books ((?d, r') # (?c, r) # h) L X" for r r'
    using books_plain [OF 1, of ?d r'] False by (simp add: ledger_simps)
  show ?thesis
    using False by (simp add: dispatching_def idle_dispatch [OF idle] wp_simps)
      (auto simp: wp_simps intro!: wp_ext wp_peek Q 2)
qed

lemma kl_context_destroy_books:
  assumes E: "env_ok E" and b: "books h (F + ctx_owned ctx) X"
    and inv: "\<forall>surf \<in> set (ctx_surfaces ctx). surf_inv surf"
    and fl: "ctx_lock ctx \<noteq> NULL \<Longrightarrow> (ctx_is_locked ctx, ctx_is_finished ctx) = lock_flags h"
    and Q: "\<And>h'. books h' F X \<Longrightarrow> Q kl_context_zero h'"
  shows "wp (kl_context_destroy E ctx) Q h"
proof -
  let ?ctx = "ctx\<lparr>ctx_surfaces := []\<rparr>"
  have surfaces: "wp (map_m (kl_surface_destroy E) (ctx_surfaces ctx)) R h"
    if "\<And>ys h'. books h' (F + ctx_fixed ctx) X \<Longrightarrow> lock_flags h' = lock_flags h \<Longrightarrow> R ys h'" for R
  proof (rule wp_noncore, intro makes_intros, rule surfs.map_destroys [OF E inv])
    show "ledger h ((F + ctx_fixed ctx) + sum_list (map surf_owned (ctx_surfaces ctx)))"
      using b by (simp add: books_def ctx_owned_fixed add_ac)
  qed (auto intro!: that books_noncore [OF b] dest: core_cong)
  have zero: "\<lparr>ctx_display = NULL, ctx_registry = NULL, ctx_compositor = NULL,
     ctx_shm = NULL, ctx_lock_manager = NULL, ctx_lock = NULL, ctx_surfaces = [],
     ctx_is_locked = False, ctx_is_finished = False, ctx_failed = False\<rparr> = kl_context_zero"
    by (simp add: kl_context_zero_def)
  show ?thesis
    unfolding kl_context_destroy_def
    apply (simp only: wp_bind wp_return)
    apply (rule surfaces)
    apply (rule wp_drop_lock [where L = "F + own Display (ctx_display ctx) + own Proxy (ctx_registry ctx) +
        own Proxy (ctx_compositor ctx) + own Proxy (ctx_shm ctx) + own Proxy (ctx_lock_manager ctx)" and X = X])
      apply (simp add: ctx_fixed_def add_ac)
     apply (simp add: fl)
    apply (rule wp_drop, simp, simp, simp, simp add: fun_eq_iff, simp, (cases ctx; simp))
    apply (rule wp_drop, simp, simp, simp, simp add: fun_eq_iff, simp, (cases ctx; simp))
    apply (rule wp_drop, simp, simp, simp, simp add: fun_eq_iff, simp, (cases ctx; simp))
    apply (rule wp_drop, simp, simp, simp, simp add: fun_eq_iff, simp, (cases ctx; simp))
    apply (rule disconnect_books, simp, simp, simp, simp)
    apply (cases ctx; simp add: zero Q)
    done
qed

subsection \<open>Connecting, locking and unlocking\<close>

lemma wp_call: "(\<And>r. Q r ((c, r) # h)) \<Longrightarrow> wp (ext E c) Q h"
  by (rule wp_ext) simp

lemma ctx_state_books: "ctx_state F ctx h \<Longrightarrow> books h ((F + lost h) + ctx_owned ctx) (lost h)"
  by (simp add: ctx_state_def books_def)

lemma ctx_state_flags:
  "ctx_state F ctx h \<Longrightarrow> ctx_lock ctx \<noteq> NULL \<Longrightarrow> (ctx_is_locked ctx, ctx_is_finished ctx) = lock_flags h"
  by (simp add: ctx_state_def tracked_def)

lemma destroy_state:
  assumes E: "env_ok E" and st: "ctx_state F ctx h"
    and Q: "\<And>h'. ledger h' (F + lost h') \<Longrightarrow> conforms h' \<Longrightarrow> Q kl_context_zero h'"
  shows "wp (kl_context_destroy E ctx) Q h"
  by (rule kl_context_destroy_books [OF E ctx_state_books [OF st] _ ctx_state_flags [OF st]])
     (use st Q in \<open>auto simp: ctx_state_def ctx_inv_def books_def\<close>)

definition init_done :: "int \<Rightarrow> kl_context \<Rightarrow> log \<Rightarrow> bool" where
  "init_done r ctx h \<longleftrightarrow>
     (if r = 0 then ctx_state {#} ctx h \<and> ctx_lock ctx = NULL \<and> ctx_compositor ctx \<noteq> NULL \<and>
        ctx_shm ctx \<noteq> NULL \<and> ctx_lock_manager ctx \<noteq> NULL \<and> ctx_surfaces ctx \<noteq> []
      else r = -1 \<and> ctx = kl_context_zero \<and> ledger h (lost h) \<and> conforms h)"

lemma init_fails_done:
  assumes E: "env_ok E" and st: "ctx_state {#} ctx h"
    and Q: "\<And>r ctx' h'. init_done r ctx' h' \<Longrightarrow> Q (r, ctx') h'"
  shows "wp (init_fails E ctx) Q h"
  unfolding init_fails_def
  by (simp only: wp_simps, rule destroy_state [OF E st]) (auto intro!: Q simp: init_done_def)

lemma init_fails_early:
  assumes E: "env_ok E" and h: "ledger h (own Display d)" "lost h = {#}" "conforms h"
    and Q: "\<And>r ctx' h'. init_done r ctx' h' \<Longrightarrow> Q (r, ctx') h'"
  shows "wp (init_fails E (kl_context_zero\<lparr>ctx_display := d, ctx_registry := NULL\<rparr>)) Q h"
  unfolding init_fails_def
  by (simp only: wp_simps, rule kl_context_destroy_books [OF E, where F = "{#}" and X = "{#}"])
     (use h in \<open>auto intro!: Q simp: books_def init_done_def ctx_owned_def kl_context_zero_def\<close>)

lemma kl_context_init_done:
  assumes E: "env_ok E" and Q: "\<And>r ctx h. init_done r ctx h \<Longrightarrow> Q (r, ctx) h"
  shows "wp (kl_context_init E) Q []"
proof -
  let ?c1 = "Disp wl_display_connect"
  have zero: "kl_context_zero\<lparr>ctx_display := d\<rparr> =
      kl_context_zero\<lparr>ctx_display := d, ctx_registry := NULL\<rparr>" for d
    by (simp add: kl_context_zero_def)
  have early: "wp (init_fails E (kl_context_zero\<lparr>ctx_display := d\<rparr>)) Q [(?c1, d)]" for d
    by (subst zero, rule init_fails_early [OF E])
       (auto simp: ledger_def ledger_simps own_def conforms_def bind_of_def intro: Q)
  have no_registry: "wp (init_fails E (kl_context_zero\<lparr>ctx_display := d, ctx_registry := NULL\<rparr>)) Q
      [(Disp (wl_display_get_registry d), NULL), (?c1, d)]" if "d \<noteq> NULL" for d
    by (rule init_fails_early [OF E])
       (use that in \<open>auto simp: ledger_def ledger_simps own_def conforms_def bind_of_def intro: Q\<close>)
  have st: "ctx_state {#} (kl_context_zero\<lparr>ctx_display := d, ctx_registry := p\<rparr>)
      [(Disp (wl_registry_add_listener p), r), (Disp (wl_display_get_registry d), p), (?c1, d)]"
    if "d \<noteq> NULL" "p \<noteq> NULL" for d p r
    using that by (simp add: ctx_state_def ledger_def ledger_simps ctx_owned_def kl_context_zero_def
        ctx_inv_def tracked_def conforms_def bind_of_def add_mset_commute)
  have fin: "wp (if r = -1 \<or> ctx_failed ctx then init_fails E ctx
             else if ctx_compositor ctx = NULL \<or> ctx_shm ctx = NULL \<or> ctx_lock_manager ctx = NULL
             then init_fails E ctx
             else if ctx_surfaces ctx = [] then init_fails E ctx
             else ret_m (0, ctx)) Q h"
    if "ctx_state {#} ctx h" "ctx_lock ctx = NULL" for r :: int and ctx h
    using that by (auto simp: wp_simps init_done_def intro!: init_fails_done [OF E] Q)
  have trip: "wp (dispatching E (wl_display_roundtrip d) ctx)
      (\<lambda>a. wp (case a of (r, ctx) \<Rightarrow> if r = -1 \<or> ctx_failed ctx then init_fails E ctx
             else if ctx_compositor ctx = NULL \<or> ctx_shm ctx = NULL \<or> ctx_lock_manager ctx = NULL
             then init_fails E ctx
             else if ctx_surfaces ctx = [] then init_fails E ctx
             else ret_m (0, ctx)) Q) h"
    if "ctx_state {#} ctx h" "ctx_lock ctx = NULL" "d = ctx_display ctx" for d ctx h
    by (rule dispatching_state [OF E that(1)])
       (use that fin in \<open>auto simp: bind_of_def fun_eq_iff ctx_base_def\<close>)
  show ?thesis
    unfolding kl_context_init_def
    apply (simp only: wp_bind wp_return)
    apply (rule wp_call, (simp only: wp_if wp_bind wp_return)?, rule ifI, rule early)
    apply (rule wp_call, (simp only: wp_if wp_bind wp_return)?, rule ifI, simp only: no_registry simp_thms)
    apply (rule wp_call, (simp only: wp_if wp_bind wp_return)?, rule ifI)
     apply (rule init_fails_done [OF E st], assumption+, erule Q)
    apply (rule trip [OF st], assumption+)
     apply (simp_all add: kl_context_zero_def)
    done
qed

lemma attach_all_noncore: "makes (\<lambda>c. \<not> core c) (attach_all E ctx surfs)"
  by (induction surfs) (auto intro!: makes_intros)

lemma attach_all_ledger:
  assumes E: "env_ok E"
  shows "\<lbrakk>ledger h (G + sum_list (map surf_owned surfs)); \<forall>surf \<in> set surfs. surf_inv surf; ctx_live ctx G;
    \<And>ok xs h'. \<lbrakk>ledger h' (G + sum_list (map surf_owned xs)); \<forall>surf \<in> set xs. surf_inv surf;
      ok \<Longrightarrow> \<forall>surf \<in> set xs. surf_ext_lock_surface surf \<noteq> NULL; length xs = length surfs\<rbrakk> \<Longrightarrow> Q (ok, xs) h'\<rbrakk>
    \<Longrightarrow> wp (attach_all E ctx surfs) Q h"
proof (induction surfs arbitrary: G h Q)
  case Nil
  then show ?case by (auto simp: wp_simps)
next
  case (Cons surf surfs)
  let ?G = "G + sum_list (map surf_owned surfs)"
  have l: "ledger h (?G + surf_owned surf)" and inv: "surf_inv surf" "\<forall>surf \<in> set surfs. surf_inv surf"
    using Cons.prems by (simp_all add: add_ac)
  have live: "ctx_live ctx ?G" by (rule ctx_live_mono [OF Cons.prems(3)]) simp
  show ?case
    unfolding attach_all.simps wp_bind
  proof (rule kl_surface_attach_lock_ledger [OF E l inv(1) live])
    fix r :: int and surf' h'
    assume a: "ledger h' (?G + surf_owned surf')" "surf_inv surf'"
      "r = 0 \<Longrightarrow> surf_ext_lock_surface surf' \<noteq> NULL" "r = 0 \<or> r = -1"
    have "ledger h' ((G + surf_owned surf') + sum_list (map surf_owned surfs))"
      using a(1) by (simp add: add_ac)
    then have rest: "wp (attach_all E ctx surfs) (\<lambda>p. Q (fst p, surf' # snd p)) h'" if "r = 0"
      by (rule Cons.IH [OF _ inv(2) ctx_live_mono [OF Cons.prems(3)]])
         (use a that in \<open>auto intro!: Cons.prems(4) simp: add_ac\<close>)
    have "Q (False, surf' # surfs) h'" using a inv by (intro Cons.prems(4)) (auto simp: add_ac)
    with rest a(4) show "wp (case (r, surf') of (r, surf) \<Rightarrow>
        if r < 0 then ret_m (False, surf # surfs)
        else attach_all E ctx surfs \<bind> (\<lambda>(ok, surfs). ret_m (ok, surf # surfs))) Q h'"
      by (auto simp: wp_simps)
  qed
qed

lemma wait_answer_state:
  assumes E: "env_ok E"
  shows "\<lbrakk>ctx_state F ctx h; \<And>ctx' h'. ctx_state F ctx' h' \<Longrightarrow> Q None h';
    \<And>ok ctx' h'. \<lbrakk>ctx_state F ctx' h'; ctx_base ctx' = ctx_base ctx;
      ok \<Longrightarrow> ctx_is_locked ctx' \<or> ctx_is_finished ctx'\<rbrakk> \<Longrightarrow> Q (Some (ok, ctx')) h'\<rbrakk>
    \<Longrightarrow> wp (wait_answer n E ctx) Q h"
proof (induction n arbitrary: ctx h)
  case 0
  then show ?case by (simp add: wp_simps)
next
  case (Suc n)
  have "wp (dispatching E (wl_display_dispatch (ctx_display ctx)) ctx)
    (\<lambda>a. wp (case a of (r, ctx) \<Rightarrow> if r = -1 then ret_m (Some (False, ctx)) else wait_answer n E ctx) Q) h"
    by (rule dispatching_state [OF E Suc.prems(1)])
       (auto simp: bind_of_def fun_eq_iff wp_simps intro!: Suc.prems(3) Suc.IH [OF _ Suc.prems(2,3)])
  then show ?case using Suc.prems(1,3) by (auto simp: wp_simps)
qed

text \<open>What a finished \<open>kl_context_lock_session\<close> leaves.\<close>

definition lock_done :: "resource multiset \<Rightarrow> (int \<times> kl_context) option \<Rightarrow> log \<Rightarrow> bool" where
  "lock_done F r h \<longleftrightarrow>
     (case r of
        None \<Rightarrow> \<exists>ctx. ctx_state F ctx h
      | Some (r, ctx) \<Rightarrow> ctx_state F ctx h \<and>
          (r = 0 \<and> ctx_lock ctx \<noteq> NULL \<and> ctx_is_locked ctx \<or> r = -1))"

lemma lock_object_state:
  assumes st: "ctx_state F ctx h" and lock: "ctx_lock ctx = NULL" and m: "ctx_lock_manager ctx \<noteq> NULL"
  shows "ctx_state F (ctx\<lparr>ctx_lock := p\<rparr>)
    ((Lk (ext_session_lock_manager_v1_lock (ctx_lock_manager ctx)), p) # h)"
  using assms
  by (auto simp: ctx_state_def ledger_def ledger_simps ctx_owned_def tracked_def conforms_def bind_of_def
      ctx_inv_def own_def add_ac)

lemma lock_listener_state:
  assumes st: "ctx_state F ctx h" and lock: "ctx_lock ctx \<noteq> NULL"
  shows "ctx_state F ctx ((Lk (ext_session_lock_v1_add_listener (ctx_lock ctx)), r) # h)"
  by (rule ctx_state_reframe [OF st])
     (use st lock in \<open>auto simp: entries_Cons ctx_state_def ledger_def ledger_simps ctx_owned_def own_def\<close>)

lemma lock_fails: "ctx_state F ctx h \<Longrightarrow> lock_done F (Some (-1, ctx)) h"
  by (simp add: lock_done_def)

lemma lock_unanswered: "ctx_state F ctx h \<Longrightarrow> lock_done F None h"
  by (auto simp: lock_done_def)

lemma lock_result_done:
  assumes "env_ok E" and "ctx_state F ctx h" and "ctx_lock ctx \<noteq> NULL"
    and "\<And>r h'. lock_done F r h' \<Longrightarrow> Q r h'"
  shows "wp (lock_result E ctx) Q h"
  unfolding lock_result_def wp_bind
  by (rule wp_display_state [OF assms(1,2)])
     (use assms(3) in \<open>auto simp: bind_of_def fun_eq_iff wp_simps lock_done_def intro!: wp_peek assms(4)\<close>)

lemma attach_all_state:
  assumes E: "env_ok E" and st: "ctx_state F ctx h"
    and Q: "\<And>ok xs h'. ctx_state F (ctx\<lparr>ctx_surfaces := xs\<rparr>) h' \<Longrightarrow> Q (ok, xs) h'"
  shows "wp (attach_all E ctx (ctx_surfaces ctx)) Q h"
proof (rule wp_noncore [OF attach_all_noncore], rule attach_all_ledger [OF E])
  show "ledger h ((F + lost h + ctx_fixed ctx) + sum_list (map surf_owned (ctx_surfaces ctx)))"
    using st by (simp add: ctx_state_def ctx_owned_fixed add_ac)
  show "\<forall>surf \<in> set (ctx_surfaces ctx). surf_inv surf" using st by (simp add: ctx_state_def ctx_inv_def)
  show "ctx_live ctx (F + lost h + ctx_fixed ctx)" by (rule ctx_fixed_live(2))
qed (auto intro!: Q ctx_state_surfaces [OF st])

lemma kl_context_lock_session_done:
  assumes E: "env_ok E" and st: "ctx_state F ctx h" and lock: "ctx_lock ctx = NULL"
    and Q: "\<And>r h'. lock_done F r h' \<Longrightarrow> Q r h'"
  shows "wp (kl_context_lock_session fuel E ctx) Q h"
proof -
  have fails: "Q (Some (-1, c)) h'" if "ctx_state F c h'" for c h'
    by (rule Q [OF lock_fails [OF that]])
  have out: "Q None h'" if "ctx_state F c h'" for c h'
    by (rule Q [OF lock_unanswered [OF that]])
  have wait: "wp (wait_answer fuel E c) (\<lambda>w. wp (case w of None \<Rightarrow> ret_m None
      | Some (ok, ctx) \<Rightarrow> if \<not> ok then ret_m (Some (-1, ctx)) else lock_result E ctx) Q) h'"
    if "ctx_state F c h'" "ctx_lock c \<noteq> NULL" for c h'
    by (rule wait_answer_state [OF E that(1)])
       (use that(2) in \<open>auto simp: wp_return out fails ctx_base_def intro!: lock_result_done [OF E _ _ Q]\<close>)
  have attached: "wp (attach_all E c (ctx_surfaces c)) (\<lambda>a. wp (case a of (ok, surfs) \<Rightarrow>
        do { ctx \<leftarrow> ret_m (c\<lparr>ctx_surfaces := surfs\<rparr>);
             if \<not> ok then ret_m (Some (-1, ctx))
             else do { w \<leftarrow> wait_answer fuel E ctx;
               case w of None \<Rightarrow> ret_m None
               | Some (ok, ctx) \<Rightarrow> if \<not> ok then ret_m (Some (-1, ctx)) else lock_result E ctx } }) Q) h'"
    if "ctx_state F c h'" "ctx_lock c \<noteq> NULL" for c h'
    by (rule attach_all_state [OF E that(1)]) (use that(2) wait in \<open>auto simp: wp_simps fails\<close>)
  let ?lk = "Lk (ext_session_lock_manager_v1_lock (ctx_lock_manager ctx))"
  have locked: "ctx_state F (ctx\<lparr>ctx_lock := p\<rparr>) ((?lk, p) # h)" if "ctx_lock_manager ctx \<noteq> NULL" for p
    by (rule lock_object_state [OF st lock that])
  have listening: "ctx_state F (ctx\<lparr>ctx_lock := p\<rparr>)
      ((Lk (ext_session_lock_v1_add_listener p), r) # (?lk, p) # h)"
    if "ctx_lock_manager ctx \<noteq> NULL" "p \<noteq> NULL" for p r
    using lock_listener_state [OF locked, of p r] that by simp
  show ?thesis
    unfolding kl_context_lock_session_def
    apply (simp only: wp_if wp_return)
    apply (intro ifI)
      apply (rule fails [OF st])
     apply (rule fails [OF st])
    apply (simp only: wp_bind wp_return)
    apply (rule wp_call, (simp only: wp_if wp_bind wp_return)?, rule ifI)
     apply (rule fails [OF locked], simp)
    apply (rule wp_call, (simp only: wp_if wp_bind wp_return)?, rule ifI)
     apply (rule fails [OF listening], simp, assumption)
    apply (use attached [OF listening] in simp)
    done
qed

lemma unlock_object_state:
  assumes st: "ctx_state F ctx h" and ok: "ctx_lock ctx \<noteq> NULL" "ctx_is_locked ctx" "\<not> ctx_is_finished ctx"
  shows "ctx_state F (ctx\<lparr>ctx_lock := NULL, ctx_is_locked := False, ctx_is_finished := False\<rparr>)
    ((Lk (ext_session_lock_v1_unlock_and_destroy (ctx_lock ctx)), r) # h)"
  using st ok never_both_flags [of h]
  by (auto simp: ctx_state_def ledger_def ledger_simps ctx_owned_def tracked_def conforms_def bind_of_def
      ctx_inv_def own_def add_ac) (metis prod.sel(1))+

lemma kl_context_unlock_session_state:
  assumes E: "env_ok E" and st: "ctx_state F ctx h"
    and Q: "\<And>r ctx' h'. \<lbrakk>ctx_state F ctx' h'; ctx_display ctx' = ctx_display ctx;
       if ctx_lock ctx = NULL \<or> \<not> ctx_is_locked ctx \<or> ctx_is_finished ctx
       then r = -1 \<and> ctx' = ctx else (r = 0 \<or> r = -1) \<and> ctx_lock ctx' = NULL\<rbrakk> \<Longrightarrow> Q (r, ctx') h'"
  shows "wp (kl_context_unlock_session E ctx) Q h"
proof (cases "ctx_lock ctx = NULL \<or> \<not> ctx_is_locked ctx \<or> ctx_is_finished ctx")
  case True
  then show ?thesis using st by (simp add: kl_context_unlock_session_def wp_simps Q)
next
  case False
  then have ok: "ctx_lock ctx \<noteq> NULL" "ctx_is_locked ctx" "\<not> ctx_is_finished ctx" by auto
  let ?off = "\<lambda>xs. ctx\<lparr>ctx_surfaces := xs, ctx_lock := NULL, ctx_is_locked := False, ctx_is_finished := False\<rparr>"
  have trip: "wp (dispatching E (wl_display_roundtrip (ctx_display ctx)) (?off xs))
      (\<lambda>p. Q (if fst p = -1 then -1 else 0, snd p)) h'" if "ctx_state F (?off xs) h'" for xs h'
    by (rule dispatching_state [OF E that])
       (use False in \<open>auto simp: bind_of_def fun_eq_iff ctx_base_def intro!: Q\<close>)
  have detach: "wp (map_m (kl_surface_detach_lock E) (ctx_surfaces ctx)) R h"
    if R: "\<And>xs g. ctx_state F (ctx\<lparr>ctx_surfaces := xs\<rparr>) g \<Longrightarrow> R xs g" for R
  proof (rule wp_noncore, intro makes_intros, rule detach_lock.map_ledger [OF E])
    show "\<forall>surf \<in> set (ctx_surfaces ctx). surf_inv surf" using st by (simp add: ctx_state_def ctx_inv_def)
    show "ledger h ((F + lost h + ctx_fixed ctx) + sum_list (map surf_owned (ctx_surfaces ctx)))"
      using st by (simp add: ctx_state_def ctx_owned_fixed add_ac)
  qed (auto intro!: R ctx_state_surfaces [OF st])
  have unlock: "wp (lk E (ext_session_lock_v1_unlock_and_destroy (ctx_lock ctx)))
      (\<lambda>_. wp (dispatching E (wl_display_roundtrip (ctx_display ctx)) (?off xs))
         (\<lambda>p. Q (if fst p = -1 then -1 else 0, snd p))) g"
    if "ctx_state F (ctx\<lparr>ctx_surfaces := xs\<rparr>) g" for xs g
    by (rule wp_call, rule trip) (use unlock_object_state [OF that] ok in simp)
  show ?thesis
    unfolding kl_context_unlock_session_def using False
    by (simp add: wp_simps) (rule detach, erule unlock)
qed

subsection \<open>A concrete context\<close>

definition locked_ctx :: kl_context where
  "locked_ctx = sample_ctx\<lparr>ctx_surfaces := [sample_surface]\<rparr>"

definition locked_log :: log where
  "locked_log = (Ev EvLocked, 0) # surface_log"

lemma locked_ctx_state: "ctx_state {#} locked_ctx locked_log"
proof -
  have "lost locked_log = {#}"
    by (simp add: locked_log_def surface_log_def sample_log_def bind_of_def single_global_def)
  moreover have "ctx_owned locked_ctx = sample_rest + surf_owned sample_surface"
    by (simp add: ctx_owned_def locked_ctx_def sample_ctx_def own_nonnull sample_rest_def add_mset_commute)
  ultimately have "ledger locked_log (lost locked_log + ctx_owned locked_ctx)"
    by (simp add: locked_log_def ledger_event) (simp add: ledger_def ledger_simps)
  then show ?thesis
    by (simp add: ctx_state_def ctx_inv_def tracked_def conforms_def locked_ctx_def sample_ctx_def
        locked_log_def surface_log_def sample_log_def bind_of_def)
qed

lemma locked_ctx_fields [simp]:
  "ctx_lock locked_ctx = 7" "ctx_is_locked locked_ctx" "\<not> ctx_is_finished locked_ctx"
  "ctx_display locked_ctx = 3" "ctx_registry locked_ctx = 5" "ctx_compositor locked_ctx = 7"
  by (simp_all add: locked_ctx_def sample_ctx_def)

subsection \<open>Properties\<close>

text \<open>
  (C16) Whatever events arrive, in whatever order, for live or dead objects, the listeners keep the
  context's state: every call they make is safe, every resource is accounted for, every surface
  satisfies its invariant, the flags agree with the lock events received, and the display, the
  registry and the lock object stay.
\<close>

theorem dispatch_events_keep_state:
  assumes "env_ok E" and "ctx_state F ctx h" and "run_state (dispatch_events E ctx es) h = (ctx', h')"
  shows "ctx_state F ctx' h' \<and> ctx_base ctx' = ctx_base ctx"
proof -
  have "wp (dispatch_events E ctx es)
    (\<lambda>ctx' h'. ctx_state F ctx' h' \<and> ctx_base ctx' = ctx_base ctx) h"
    by (rule dispatch_events_state [OF assms(1,2)]) simp
  from wp_run [OF this assms(3)] show ?thesis .
qed

theorem dispatch_events_keep_state_witness:
  "let es = [EvConfigure 7 1 800 600, EvFrameDone 7 16, EvScale 7 2, EvGlobalRemove 1,
         EvGlobal 9 ''wl_output'' 4, EvFinished];
       (ctx', h') = run_state (dispatch_events sample_env locked_ctx es) locked_log
   in ctx_state {#} ctx' h' \<and> ctx_base ctx' = (3, 5, 7)"
proof -
  let ?es = "[EvConfigure 7 1 800 600, EvFrameDone 7 16, EvScale 7 2, EvGlobalRemove 1,
         EvGlobal 9 ''wl_output'' 4, EvFinished]"
  obtain ctx' h' where
    run: "run_state (dispatch_events sample_env locked_ctx ?es) locked_log = (ctx', h')"
    by (metis prod.exhaust)
  show ?thesis
    using dispatch_events_keep_state [OF sample_env_ok locked_ctx_state run]
    unfolding Let_def run by (simp add: ctx_base_def)
qed


lemma init_without_globals: "fst (fst (run_state (kl_context_init sample_env) [])) = -1"
  by code_simp



definition unlocked_ctx :: kl_context where
  "unlocked_ctx = locked_ctx\<lparr>ctx_lock := NULL, ctx_is_locked := False\<rparr>"

definition unlocked_log :: log where
  "unlocked_log = (Lk (ext_session_lock_v1_unlock_and_destroy 7), 7) # locked_log"

lemma unlocked_ctx_state: "ctx_state {#} unlocked_ctx unlocked_log"
proof -
  have "unlocked_ctx = locked_ctx\<lparr>ctx_lock := NULL, ctx_is_locked := False, ctx_is_finished := False\<rparr>"
    by (simp add: unlocked_ctx_def locked_ctx_def sample_ctx_def)
  with unlock_object_state [OF locked_ctx_state, of 7] show ?thesis
    by (simp add: unlocked_log_def)
qed


text \<open>
  \<open>kl_context_unlock_session\<close> refuses, with -1 and no call at all, unless the session is
  locked and not finished; otherwise it gives up the lock object and returns 0 or -1, and the
  context's state is kept.
\<close>

theorem kl_context_unlock_session_accounts:
  assumes "env_ok E" and "ctx_state F ctx h"
    and "run_state (kl_context_unlock_session E ctx) h = ((r, ctx'), h')"
  shows "ctx_state F ctx' h' \<and> ctx_display ctx' = ctx_display ctx \<and>
    (if ctx_lock ctx = NULL \<or> lock_flags h \<noteq> (True, False)
     then r = -1 \<and> ctx' = ctx \<and> h' = h
     else (r = 0 \<or> r = -1) \<and> ctx_lock ctx' = NULL)"
proof -
  let ?no = "ctx_lock ctx = NULL \<or> \<not> ctx_is_locked ctx \<or> ctx_is_finished ctx"
  have no: "?no = (ctx_lock ctx = NULL \<or> lock_flags h \<noteq> (True, False))"
    using ctx_state_flags [OF assms(2)] by (auto simp: prod_eq_iff)
  have "wp (kl_context_unlock_session E ctx)
    (\<lambda>p h'. ctx_state F (snd p) h' \<and> ctx_display (snd p) = ctx_display ctx \<and>
      (if ?no then fst p = -1 \<and> snd p = ctx else (fst p = 0 \<or> fst p = -1) \<and> ctx_lock (snd p) = NULL)) h"
    by (rule kl_context_unlock_session_state [OF assms(1,2)]) auto
  from wp_run [OF this assms(3)] have 1: "ctx_state F ctx' h'" "ctx_display ctx' = ctx_display ctx"
    "if ?no then r = -1 \<and> ctx' = ctx else (r = 0 \<or> r = -1) \<and> ctx_lock ctx' = NULL"
    by auto
  have "h' = h" if ?no
    using assms(3) that by (auto simp: kl_context_unlock_session_def)
  with 1 show ?thesis unfolding no by presburger
qed

theorem kl_context_unlock_session_accounts_witness:
  "let ((r, ctx'), h') = run_state (kl_context_unlock_session sample_env locked_ctx) locked_log
   in ctx_state {#} ctx' h' \<and> ctx_lock ctx' = NULL"
proof -
  obtain r ctx' h' where
    run: "run_state (kl_context_unlock_session sample_env locked_ctx) locked_log = ((r, ctx'), h')"
    by (metis prod.exhaust)
  have "lock_flags locked_log = (True, False)"
    using ctx_state_flags [OF locked_ctx_state] by simp
  with kl_context_unlock_session_accounts [OF sample_env_ok locked_ctx_state run] show ?thesis
    by (simp add: run)
qed

text \<open>
  \<open>kl_context_destroy\<close> gives back everything the context holds, in any state: the surfaces
  with their buffers and engines, the lock object, the globals, the registry and the connection;
  the context is empty afterwards and what stays live is what was live beside it.  If the session
  was not both locked and finished, the request that ended the lock object was the one the protocol
  asks for.
\<close>

theorem kl_context_destroy_releases:
  assumes "env_ok E" and "ctx_state F ctx h" and "run_state (kl_context_destroy E ctx) h = (ctx', h')"
  shows "ctx' = kl_context_zero \<and> safe h' \<and> live h' = F + lost h' \<and> (never_both h' \<longrightarrow> protocol_ok h')"
proof -
  have "wp (kl_context_destroy E ctx)
    (\<lambda>ctx' h'. ctx' = kl_context_zero \<and> ledger h' (F + lost h') \<and> conforms h') h"
    by (rule destroy_state [OF assms(1,2)]) simp
  from wp_run [OF this assms(3)] show ?thesis by (simp add: ledger_def conforms_def)
qed

theorem kl_context_destroy_releases_witness:
  "let (ctx', h') = run_state (kl_context_destroy sample_env locked_ctx) locked_log
   in ctx' = kl_context_zero \<and> safe h' \<and> live h' = lost h'"
proof -
  obtain ctx' h' where run: "run_state (kl_context_destroy sample_env locked_ctx) locked_log = (ctx', h')"
    by (metis prod.exhaust)
  show ?thesis
    using kl_context_destroy_releases [OF sample_env_ok locked_ctx_state run] by (simp add: run)
qed

text \<open>
  When a global that the context already has is advertised again, the bind overwrites the
  pointer: the old proxy becomes one of the \<open>lost\<close> ones, which nothing releases.
\<close>

theorem kl_registry_handle_global_forgets:
  assumes "ctx_state F ctx h" and "ctx_compositor ctx \<noteq> NULL"
    and "run_state (kl_registry_handle_global E ctx (ctx_registry ctx) name ''wl_compositor'' version) h
      = (ctx', h')"
  shows "lost h' = add_mset (Proxy (ctx_compositor ctx)) (lost h) \<and>
    ctx_compositor ctx' = ret E h (Disp (wl_registry_bind (ctx_registry ctx) name ''wl_compositor'' 4))"
  using assms
  by (auto simp: kl_registry_handle_global_def bind_of_def single_global_def ctx_state_def tracked_def
      ctx_inv_def own_nonnull)

theorem kl_registry_handle_global_forgets_witness:
  "let (ctx', h') = run_state (kl_registry_handle_global sample_env locked_ctx 5 12 ''wl_compositor'' 6) locked_log
   in lost h' = add_mset (Proxy 7) (lost locked_log)"
proof -
  obtain ctx' h' where run: "run_state (kl_registry_handle_global sample_env locked_ctx
      (ctx_registry locked_ctx) 12 ''wl_compositor'' 6) locked_log = (ctx', h')"
    by (metis prod.exhaust)
  show ?thesis
    using kl_registry_handle_global_forgets [OF locked_ctx_state _ run] run by simp
qed

text \<open>The core calls of the handlers are the binds and the flush of the registry's handler, beside the
  events themselves.\<close>

definition handler_call :: "call \<Rightarrow> bool" where
  "handler_call c \<longleftrightarrow> \<not> core c \<or> (\<exists>e. c = Ev e) \<or> (\<exists>p. c = Disp (wl_display_flush p)) \<or> bind_of c \<noteq> None"

lemma handler_callI [intro]: "\<not> core c \<Longrightarrow> handler_call c" "handler_call (Ev e)"
    "handler_call (Disp (wl_display_flush p))" "handler_call (Disp (wl_registry_bind p n i v))"
  by (auto simp: handler_call_def bind_of_def)

lemma handler_of_noncore: "makes (\<lambda>c. \<not> core c) m \<Longrightarrow> makes handler_call m"
  by (erule makes_mono) blast

lemmas surface_handler_calls =
  surface_handlers_noncore [THEN handler_of_noncore] attach_lock_noncore [THEN handler_of_noncore]
  surface_create_noncore [THEN handler_of_noncore] surface_destroy_noncore [THEN handler_of_noncore]
  release_output_noncore [THEN handler_of_noncore]

lemma log_event_handler: "makes handler_call (log_event e)"
  by (auto simp: makes_def log_event_def)

lemma on_surface_handler:
  "(\<And>surf. makes handler_call (handler surf)) \<Longrightarrow> makes handler_call (on_surface e p alive handler ctx)"
  unfolding on_surface_def by (intro makes_intros log_event_handler)

lemma registry_handler:
  "makes handler_call (kl_registry_handle_global E ctx registry name i v)"
  "makes handler_call (kl_registry_handle_global_remove E ctx name)"
  unfolding kl_registry_handle_global_def kl_registry_handle_global_remove_def
  by (intro makes_intros surface_handler_calls handler_callI)+

lemma dispatch_event_handler: "makes handler_call (dispatch_event E ctx e)"
  unfolding dispatch_event_def
  by (cases e; simp only: wl_event.case)
     (intro makes_intros log_event_handler surface_handler_calls registry_handler on_surface_handler)+

lemma dispatch_events_handler: "makes handler_call (dispatch_events E ctx es)"
  by (induction es arbitrary: ctx) (auto intro!: makes_intros dispatch_event_handler)

text \<open>Dispatching only adds to the log, and a broken rule stays broken.\<close>

lemma dispatching_extends: "makes (\<lambda>_. True) (dispatching E c ctx)"
  unfolding dispatching_def by (intro makes_intros makes_mono [OF dispatch_events_handler] TrueI)

lemma broken_stays:
  assumes "makes P m" and "\<not> protocol_ok h" and "\<And>a h'. \<not> protocol_ok h' \<Longrightarrow> Q a h'"
  shows "wp m Q h"
  by (rule makes_extends [OF assms(1)]) (use assms(2,3) proto.ok_suffix in blast)

text \<open>
  If the compositor finished a lock that it had confirmed, \<open>kl_context_destroy\<close> breaks the
  protocol: it makes the destroy request after the locked event, where unlock\_and\_destroy is
  required, and \<open>kl_context_unlock_session\<close> has refused to make that one.
\<close>

theorem kl_context_destroy_after_finished:
  assumes "env_ok E" and "ctx_state F ctx h" and "ctx_lock ctx \<noteq> NULL" and "lock_flags h = (True, True)"
    and "run_state (kl_context_destroy E ctx) h = (ctx', h')"
  shows "\<not> protocol_ok h' \<and> run_state (kl_context_unlock_session E ctx) h = ((-1, ctx), h)"
proof -
  have fl: "ctx_is_locked ctx" "ctx_is_finished ctx"
    using ctx_state_flags [OF assms(2,3)] assms(4) by simp_all
  have noncore: "makes (\<lambda>c. \<not> core c) (map_m (kl_surface_destroy E) (ctx_surfaces ctx))"
    by (intro makes_intros)
  have drop: "wp (destroy_lock E (ctx\<lparr>ctx_surfaces := []\<rparr>)) Q g"
    if "entries core g = entries core h" "\<And>c g'. \<not> protocol_ok g' \<Longrightarrow> Q c g'" for Q g
  proof -
    have "lock_flags g = (True, True)" using core_cong(3) that(1) assms(4) by metis
    then show ?thesis using that(2) assms(3) fl by (auto simp: destroy_lock_def wp_simps intro!: wp_call)
  qed
  have "wp (kl_context_destroy E ctx) (\<lambda>_ h'. \<not> protocol_ok h') h"
    unfolding kl_context_destroy_def wp_bind wp_return
    by (rule wp_entries_kept [OF noncore], rule wp_any, rule impI, erule drop,
        (rule broken_stays [where P = "\<lambda>_. True"], intro makes_intros dispatching_extends TrueI, assumption)+)
  from wp_run [OF this assms(5)] have "\<not> protocol_ok h'" .
  then show ?thesis using fl by (simp add: kl_context_unlock_session_def)
qed

theorem kl_context_destroy_after_finished_witness:
  "let ctx = kl_lock_handle_finished locked_ctx; h = (Ev EvFinished, 0) # locked_log;
       (ctx', h') = run_state (kl_context_destroy sample_env ctx) h
   in \<not> protocol_ok h'"
proof -
  let ?ctx = "kl_lock_handle_finished locked_ctx" and ?h = "(Ev EvFinished, 0) # locked_log"
  obtain ctx' h' where run: "run_state (kl_context_destroy sample_env ?ctx) ?h = (ctx', h')"
    by (metis prod.exhaust)
  have st: "ctx_state {#} ?ctx ?h" by (rule lock_event_state(2) [OF locked_ctx_state]) simp
  moreover have "ctx_lock ?ctx \<noteq> NULL" by (simp add: kl_lock_handle_finished_def)
  moreover have "lock_flags ?h = (True, True)"
    using ctx_state_flags [OF locked_ctx_state] by (simp add: prod_eq_iff)
  ultimately show ?thesis
    using kl_context_destroy_after_finished [OF sample_env_ok _ _ _ run] unfolding Let_def run by simp
qed

end
