(* ===== verification/Main_Loop.thy ===== *)
theory Main_Loop
  imports Lock
begin

section \<open>The program (src/src/main.c)\<close>

text \<open>
  \<open>main\<close>: connect, lock, run the event loop for the five seconds of the demo or until an error,
  unlock and clean up.  The two loops are recursive functions with fuel, \<open>None\<close> when it runs
  out.  \<open>epoll_wait\<close> returns a count and the environment's \<open>ready\<close> gives the array it
  filled.  The lemmas show that every run of the program is memory safe and gives back every
  resource, follows the lock protocol and libwayland's prepare/read/cancel discipline, and ends when
  the compositor answers and the clock advances.
\<close>

unbundle bit_operations_syntax

subsection \<open>Model\<close>

definition EPOLLIN :: u32 where "EPOLLIN = 0x001"
definition EPOLLERR :: u32 where "EPOLLERR = 0x008"
definition EPOLLHUP :: u32 where "EPOLLHUP = 0x010"
definition EINTR :: int where "EINTR = 4"

definition total_demo_duration_ns :: u64 where "total_demo_duration_ns = 5 * 1000000000"

text \<open>A build without \<open>NDEBUG\<close>; with it the call is left out, and nothing else changes.\<close>

definition kl_cleanup_debug_resources :: "env \<Rightarrow> (log, unit) state" where
  "kl_cleanup_debug_resources E = do { _ \<leftarrow> cairo E cairo_debug_reset_static_data; ret_m () }"

definition kl_get_monotonic_time_ns :: "env \<Rightarrow> (log, u64) state" where
  "kl_get_monotonic_time_ns E =
     do {
       r \<leftarrow> sys E sys_clock_gettime;
       (sec, nsec) \<leftarrow> peek (clock E);
       ret_m (if r < 0 then 0 else word_of_int sec * 1000000000 + word_of_int nsec)
     }"

text \<open>Lines 94 to 99: \<open>True\<close> when prepared for reading, \<open>False\<close> for \<open>goto loop_exit\<close>.\<close>

fun prepare_loop :: "nat \<Rightarrow> env \<Rightarrow> kl_context \<Rightarrow> (log, (bool \<times> kl_context) option) state" where
  "prepare_loop 0 E ctx = ret_m None"
| "prepare_loop (Suc n) E ctx =
     do {
       r \<leftarrow> disp E (wl_display_prepare_read (ctx_display ctx));
       if r = 0 then ret_m (Some (True, ctx))
       else do {
         (r, ctx) \<leftarrow> dispatching E (wl_display_dispatch_pending (ctx_display ctx)) ctx;
         if r < 0 then ret_m (Some (False, ctx)) else prepare_loop n E ctx
       }
     }"

text \<open>Lines 126 to 138.\<close>

definition has_event :: "int \<Rightarrow> (int \<times> u32) list \<Rightarrow> u32 \<Rightarrow> bool" where
  "has_event fd events bits \<longleftrightarrow> (\<exists>ev \<in> set events. fst ev = fd \<and> snd ev AND bits \<noteq> 0)"

text \<open>Lines 140 to 164, after a positive \<open>epoll_wait\<close>: \<open>True\<close> to go on, \<open>False\<close> to exit.\<close>

definition handle_ready ::
  "env \<Rightarrow> int \<Rightarrow> (int \<times> u32) list \<Rightarrow> kl_context \<Rightarrow> (log, bool \<times> kl_context) state" where
  "handle_ready E display_fd events ctx =
     (if has_event display_fd events (EPOLLHUP OR EPOLLERR) then do {
        _ \<leftarrow> disp E (wl_display_cancel_read (ctx_display ctx));
        ret_m (False, ctx) }
      else if has_event display_fd events EPOLLIN then do {
        r \<leftarrow> disp E (wl_display_read_events (ctx_display ctx));
        if r < 0 then ret_m (False, ctx)
        else do {
          (r, ctx) \<leftarrow> dispatching E (wl_display_dispatch_pending (ctx_display ctx)) ctx;
          if r < 0 then ret_m (False, ctx)
          else ret_m (\<not> ctx_is_finished ctx, ctx)
        } }
      else do {
        _ \<leftarrow> disp E (wl_display_cancel_read (ctx_display ctx));
        ret_m (\<not> ctx_is_finished ctx, ctx) })"

text \<open>Lines 101 to 164, once prepared.\<close>

definition read_step ::
  "env \<Rightarrow> int \<Rightarrow> int \<Rightarrow> kl_context \<Rightarrow> (log, bool \<times> kl_context) state" where
  "read_step E display_fd epoll_fd ctx =
     do {
       r \<leftarrow> disp E (wl_display_flush (ctx_display ctx));
       errno \<leftarrow> peek (errno_of E);
       if r < 0 \<and> errno \<noteq> EAGAIN then do {
         _ \<leftarrow> disp E (wl_display_cancel_read (ctx_display ctx));
         ret_m (False, ctx) }
       else do {
         num_events \<leftarrow> sys E (sys_epoll_wait epoll_fd);
         events \<leftarrow> peek (ready E);
         if num_events < 0 then do {
           _ \<leftarrow> disp E (wl_display_cancel_read (ctx_display ctx));
           errno \<leftarrow> peek (errno_of E);
           ret_m (errno = EINTR, ctx) }
         else if num_events = 0 then do {
           _ \<leftarrow> disp E (wl_display_cancel_read (ctx_display ctx));
           ret_m (True, ctx) }
         else handle_ready E display_fd (take (nat num_events) events) ctx
       }
     }"

text \<open>The loop of lines 87 to 164; \<open>k\<close> is the fuel of the inner loop.\<close>

fun main_loop ::
  "nat \<Rightarrow> nat \<Rightarrow> env \<Rightarrow> int \<Rightarrow> int \<Rightarrow> u64 \<Rightarrow> kl_context \<Rightarrow> (log, kl_context option) state" where
  "main_loop 0 k E display_fd epoll_fd app_start_time_ns ctx = ret_m None"
| "main_loop (Suc n) k E display_fd epoll_fd app_start_time_ns ctx =
     do {
       current_time_ns \<leftarrow> kl_get_monotonic_time_ns E;
       if current_time_ns - app_start_time_ns \<ge> total_demo_duration_ns then ret_m (Some ctx)
       else do {
         p \<leftarrow> prepare_loop k E ctx;
         case p of
           None \<Rightarrow> ret_m None
         | Some (prepared, ctx) \<Rightarrow>
             if \<not> prepared then ret_m (Some ctx)
             else do {
               (continue, ctx) \<leftarrow> read_step E display_fd epoll_fd ctx;
               if continue then main_loop n k E display_fd epoll_fd app_start_time_ns ctx
               else ret_m (Some ctx)
             }
       }
     }"

text \<open>The error exits after locking: unlock, destroy, return -1.\<close>

definition unlock_and_fail :: "env \<Rightarrow> kl_context \<Rightarrow> (log, int option) state" where
  "unlock_and_fail E ctx =
     do {
       (r, ctx) \<leftarrow> kl_context_unlock_session E ctx;
       _ \<leftarrow> kl_context_destroy E ctx;
       _ \<leftarrow> kl_cleanup_debug_resources E;
       ret_m (Some (-1))
     }"

text \<open>Lines 166 to 177.\<close>

definition loop_exit :: "env \<Rightarrow> int \<Rightarrow> kl_context \<Rightarrow> (log, int option) state" where
  "loop_exit E epoll_fd ctx =
     do {
       _ \<leftarrow> sys E (sys_close epoll_fd);
       (r, ctx) \<leftarrow> kl_context_unlock_session E ctx;
       _ \<leftarrow> kl_context_destroy E ctx;
       _ \<leftarrow> kl_cleanup_debug_resources E;
       ret_m (Some 0)
     }"

text \<open>Lines 48 to 164.\<close>

definition run_locked :: "nat \<Rightarrow> env \<Rightarrow> kl_context \<Rightarrow> (log, int option) state" where
  "run_locked fuel E ctx =
     do {
       display_fd \<leftarrow> disp E (wl_display_get_fd (ctx_display ctx));
       if display_fd < 0 then unlock_and_fail E ctx
       else do {
         epoll_fd \<leftarrow> sys E sys_epoll_create1;
         if epoll_fd < 0 then unlock_and_fail E ctx
         else do {
           r \<leftarrow> sys E (sys_epoll_ctl_add epoll_fd display_fd);
           if r < 0 then do {
             _ \<leftarrow> sys E (sys_close epoll_fd);
             unlock_and_fail E ctx }
           else do {
             app_start_time_ns \<leftarrow> kl_get_monotonic_time_ns E;
             e \<leftarrow> main_loop fuel fuel E display_fd epoll_fd app_start_time_ns ctx;
             case e of None \<Rightarrow> ret_m None | Some ctx \<Rightarrow> loop_exit E epoll_fd ctx
           }
         }
       }
     }"

definition kirilock_main :: "nat \<Rightarrow> env \<Rightarrow> (log, int option) state" where
  "kirilock_main fuel E =
     do {
       (r, ctx) \<leftarrow> kl_context_init E;
       if r < 0 then do {
         _ \<leftarrow> kl_cleanup_debug_resources E;
         ret_m (Some (-1)) }
       else do {
         l \<leftarrow> kl_context_lock_session fuel E ctx;
         case l of
           None \<Rightarrow> ret_m None
         | Some (r, ctx) \<Rightarrow>
             if r < 0 then do {
               _ \<leftarrow> kl_context_destroy E ctx;
               _ \<leftarrow> kl_cleanup_debug_resources E;
               ret_m (Some (-1)) }
             else run_locked fuel E ctx
       }
     }"

subsection \<open>Every step keeps the context's state\<close>

lemma ctx_state_plain:
  assumes st: "ctx_state F ctx h" and c: "plain c"
    and l: "ledger ((c, r) # h) (F' + lost h + ctx_owned ctx)"
  shows "ctx_state F' ctx ((c, r) # h)"
  using assms never_both_flags [of h]
  by (cases "lock_flags h") (auto simp: ctx_state_def tracked_def conforms_def plain_def)

lemma wp_sys_state:
  assumes E: "env_ok E" and st: "ctx_state F ctx h"
    and c: "releases (Sys c) \<subseteq># F" "needs (Sys c) \<subseteq> set_mset F"
    and Q: "\<And>r h'. ctx_state (F - releases (Sys c) + acquires (Sys c) r) ctx h' \<Longrightarrow> Q r h'"
  shows "wp (sys E c) Q h"
proof (rule wp_call, rule Q, rule ctx_state_plain [OF st])
  fix r
  let ?L = "F + lost h + ctx_owned ctx"
  have p: "permitted ?L (Sys c)"
    using c mset_subset_eq_add_left [of F "lost h + ctx_owned ctx"]
    unfolding permitted_def by (metis (no_types, lifting) add.assoc mset_subset_eq_add_left
        set_mset_mono subset_mset.order_trans subset_trans)
  obtain G where G: "F = releases (Sys c) + G" using c(1) by (metis subset_mset.le_iff_add)
  have "transfer ?L (Sys c) r = (F - releases (Sys c) + acquires (Sys c) r) + lost h + ctx_owned ctx"
    unfolding transfer_def G by (simp only: add.assoc add_diff_cancel_left') (simp only: add_ac)
  then show "ledger ((Sys c, r) # h) (F - releases (Sys c) + acquires (Sys c) r + lost h + ctx_owned ctx)"
    using ctx_state_ledger [OF st] p by (simp add: ledger_def)
qed simp

lemma kl_get_monotonic_time_ns_state:
  assumes E: "env_ok E" and st: "ctx_state F ctx h" and Q: "\<And>t h'. ctx_state F ctx h' \<Longrightarrow> Q t h'"
  shows "wp (kl_get_monotonic_time_ns E) Q h"
  unfolding kl_get_monotonic_time_ns_def
  by (simp only: wp_simps, rule wp_sys_state [OF E st]) (auto simp: wp_simps intro!: wp_peek Q)

lemma prepare_loop_state:
  assumes E: "env_ok E"
  shows "\<lbrakk>ctx_state F ctx h; \<And>ctx' h'. ctx_state F ctx' h' \<Longrightarrow> Q None h';
    \<And>b ctx' h'. ctx_state F ctx' h' \<Longrightarrow> ctx_base ctx' = ctx_base ctx \<Longrightarrow> Q (Some (b, ctx')) h'\<rbrakk>
    \<Longrightarrow> wp (prepare_loop n E ctx) Q h"
proof (induction n arbitrary: ctx h)
  case 0
  then show ?case by (simp add: wp_simps)
next
  case (Suc n)
  have disp: "wp (dispatching E (wl_display_dispatch_pending (ctx_display ctx)) ctx)
    (\<lambda>a. wp (case a of (r, ctx) \<Rightarrow> if r < 0 then ret_m (Some (False, ctx)) else prepare_loop n E ctx) Q) h'"
    if "ctx_state F ctx h'" for h'
    by (rule dispatching_state [OF E that])
       (auto simp: bind_of_def fun_eq_iff wp_simps intro!: Suc.prems(3) Suc.IH [OF _ Suc.prems(2,3)])
  show ?case
    unfolding prepare_loop.simps wp_bind
    by (rule wp_display_state [OF E Suc.prems(1)])
       (use disp Suc.prems(3) in \<open>auto simp: bind_of_def fun_eq_iff wp_simps\<close>)
qed

lemma cancel_read_state:
  assumes "env_ok E" and "ctx_state F ctx h" and "\<And>r h'. ctx_state F ctx h' \<Longrightarrow> Q r h'"
  shows "wp (disp E (wl_display_cancel_read (ctx_display ctx))) Q h"
  by (rule wp_display_state [OF assms(1,2)]) (use assms(3) in \<open>auto simp: bind_of_def fun_eq_iff\<close>)

lemma handle_ready_state:
  assumes E: "env_ok E" and st: "ctx_state F ctx h"
    and Q: "\<And>b ctx' h'. ctx_state F ctx' h' \<Longrightarrow> ctx_base ctx' = ctx_base ctx \<Longrightarrow> Q (b, ctx') h'"
  shows "wp (handle_ready E display_fd events ctx) Q h"
proof -
  have pending: "wp (dispatching E (wl_display_dispatch_pending (ctx_display ctx)) ctx)
    (\<lambda>a. wp (case a of (r, ctx) \<Rightarrow> if r < 0 then ret_m (False, ctx)
      else ret_m (\<not> ctx_is_finished ctx, ctx)) Q) h'" if "ctx_state F ctx h'" for h'
    by (rule dispatching_state [OF E that]) (auto simp: bind_of_def fun_eq_iff wp_simps intro!: Q)
  have "wp (disp E (wl_display_read_events (ctx_display ctx)))
    (\<lambda>r. wp (if r < 0 then ret_m (False, ctx) else
       dispatching E (wl_display_dispatch_pending (ctx_display ctx)) ctx \<bind>
         (\<lambda>(r, ctx). if r < 0 then ret_m (False, ctx) else ret_m (\<not> ctx_is_finished ctx, ctx))) Q) h"
    by (rule wp_display_state [OF E st]) (use pending Q in \<open>auto simp: bind_of_def fun_eq_iff wp_simps\<close>)
  moreover have "wp (disp E (wl_display_cancel_read (ctx_display ctx))) (\<lambda>_. Q (b, ctx)) h" for b
    by (rule cancel_read_state [OF E st]) (simp add: Q)
  ultimately show ?thesis unfolding handle_ready_def by (simp add: wp_if wp_bind wp_return)
qed

lemma read_step_state:
  assumes E: "env_ok E" and st: "ctx_state F ctx h" and fd: "Fd epoll_fd \<in># F"
    and Q: "\<And>b ctx' h'. ctx_state F ctx' h' \<Longrightarrow> ctx_base ctx' = ctx_base ctx \<Longrightarrow> Q (b, ctx') h'"
  shows "wp (read_step E display_fd epoll_fd ctx) Q h"
proof -
  have wait: "wp (sys E (sys_epoll_wait epoll_fd)) R h'"
    if "ctx_state F ctx h'" "\<And>r g. ctx_state F ctx g \<Longrightarrow> R r g" for R h'
    by (rule wp_sys_state [OF E that(1)]) (use fd that(2) in auto)
  show ?thesis
    unfolding read_step_def wp_bind
    by (rule wp_display_state [OF E st])
       (auto simp: bind_of_def fun_eq_iff wp_simps
         intro!: wp_peek wait cancel_read_state [OF E] handle_ready_state [OF E] Q)
qed

lemma main_loop_state:
  assumes E: "env_ok E" and fd: "Fd epoll_fd \<in># F"
  shows "\<lbrakk>ctx_state F ctx h; \<And>ctx' h'. ctx_state F ctx' h' \<Longrightarrow> Q None h';
    \<And>ctx' h'. ctx_state F ctx' h' \<Longrightarrow> ctx_base ctx' = ctx_base ctx \<Longrightarrow> Q (Some ctx') h'\<rbrakk>
    \<Longrightarrow> wp (main_loop n k E display_fd epoll_fd t0 ctx) Q h"
proof (induction n arbitrary: ctx h)
  case 0
  then show ?case by (simp add: wp_simps)
next
  case (Suc n)
  show ?case
    unfolding main_loop.simps wp_bind
    by (rule kl_get_monotonic_time_ns_state [OF E Suc.prems(1)])
       (auto simp: wp_simps Suc.prems(2)
         intro!: Suc.prems(3) prepare_loop_state [OF E] read_step_state [OF E _ fd] Suc.IH [OF _ Suc.prems(2)])
qed

subsection \<open>Every way out of main\<close>

text \<open>A run that has ended has returned 0 or -1 and holds nothing but the globals it forgot; one that
  is still going has made only safe calls.\<close>

definition prog_done :: "int option \<Rightarrow> log \<Rightarrow> bool" where
  "prog_done r h \<longleftrightarrow> conforms h \<and>
     (case r of None \<Rightarrow> safe h | Some v \<Rightarrow> (v = 0 \<or> v = -1) \<and> ledger h (lost h))"

lemma running: "ctx_state F ctx h \<Longrightarrow> prog_done None h"
  by (simp add: prog_done_def ctx_state_def ledger_def)

lemma cleanup_done:
  assumes E: "env_ok E" and h: "ledger h (lost h)" "conforms h" and v: "v = 0 \<or> v = -1"
    and Q: "\<And>r h'. prog_done r h' \<Longrightarrow> Q r h'"
  shows "wp (do { _ \<leftarrow> kl_cleanup_debug_resources E; ret_m (Some v) }) Q h"
  unfolding kl_cleanup_debug_resources_def
proof (simp only: wp_simps, rule wp_noncore [OF makes_ext], simp, rule wp_ext_ledger [OF E h(1)])
  fix r h'
  assume "ledger h' (transfer (lost h) (Cr cairo_debug_reset_static_data) r)"
  then have l: "ledger h' (lost h)" by (simp add: ledger_simps)
  show "entries core h' = entries core h \<longrightarrow> Q (Some v) h'"
    using l h(2) v core_cong [of h' h] by (auto intro!: Q simp: prog_done_def conforms_def)
qed (simp add: ledger_simps)

lemma destroy_done:
  assumes E: "env_ok E" and st: "ctx_state {#} ctx h" and v: "v = 0 \<or> v = -1"
    and Q: "\<And>r h'. prog_done r h' \<Longrightarrow> Q r h'"
  shows "wp (do { _ \<leftarrow> kl_context_destroy E ctx; _ \<leftarrow> kl_cleanup_debug_resources E; ret_m (Some v) }) Q h"
  unfolding wp_bind [of "kl_context_destroy _ _"]
  by (rule destroy_state [OF E st], rule cleanup_done [OF E]) (use v Q in auto)

lemma unlock_destroy_done:
  assumes E: "env_ok E" and st: "ctx_state {#} ctx h" and v: "v = 0 \<or> v = -1"
    and Q: "\<And>r h'. prog_done r h' \<Longrightarrow> Q r h'"
  shows "wp (do { (r, ctx) \<leftarrow> kl_context_unlock_session E ctx; _ \<leftarrow> kl_context_destroy E ctx;
      _ \<leftarrow> kl_cleanup_debug_resources E; ret_m (Some v) }) Q h"
  unfolding wp_bind [of "kl_context_unlock_session _ _"]
  by (rule kl_context_unlock_session_state [OF E st])
     (simp only: prod.case, rule destroy_done [OF E _ v], assumption, erule Q)

lemma run_locked_done:
  assumes E: "env_ok E" and st: "ctx_state {#} ctx h" and Q: "\<And>r h'. prog_done r h' \<Longrightarrow> Q r h'"
  shows "wp (run_locked fuel E ctx) Q h"
proof -
  have fails: "wp (unlock_and_fail E c) Q h'" if "ctx_state {#} c h'" for c h'
    unfolding unlock_and_fail_def by (rule unlock_destroy_done [OF E that]) (auto intro: Q)
  have close: "wp (sys E (sys_close fd)) R h'"
    if "ctx_state {#Fd fd#} c h'" "\<And>r g. ctx_state {#} c g \<Longrightarrow> R r g" for R c fd h'
    by (rule wp_sys_state [OF E that(1)]) (use that(2) in auto)
  have leave: "wp (loop_exit E fd c) Q h'" if "ctx_state {#Fd fd#} c h'" for fd c h'
    unfolding loop_exit_def wp_bind [of "sys _ _"]
    by (rule close [OF that]) (rule unlock_destroy_done [OF E], auto intro: Q)
  have loop: "wp (main_loop fuel fuel E d fd t ctx)
      (\<lambda>e. wp (case e of None \<Rightarrow> ret_m None | Some c \<Rightarrow> loop_exit E fd c) Q) h'"
    if "ctx_state {#Fd fd#} ctx h'" for d fd t h'
    by (rule main_loop_state [OF E _ that]) (auto simp: wp_simps intro!: Q running leave)
  have add: "wp (sys E (sys_epoll_ctl_add fd d)) R h'"
    if "ctx_state {#Fd fd#} ctx h'" "\<And>r g. ctx_state {#Fd fd#} ctx g \<Longrightarrow> R r g" for R fd d h'
    by (rule wp_sys_state [OF E that(1)]) (use that(2) in auto)
  have watch: "wp (sys E sys_epoll_create1) R h'"
    if "ctx_state {#} ctx h'" "\<And>r g. ctx_state (if r < 0 then {#} else {#Fd r#}) ctx g \<Longrightarrow> R r g" for R h'
    by (rule wp_sys_state [OF E that(1)]) (use that(2) in auto)
  show ?thesis
    unfolding run_locked_def wp_bind
    by (rule wp_display_state [OF E st])
       (auto simp: bind_of_def fun_eq_iff wp_if wp_bind intro!: fails watch add close loop
         kl_get_monotonic_time_ns_state [OF E])
qed

lemma kirilock_main_done:
  assumes E: "env_ok E" and Q: "\<And>r h. prog_done r h \<Longrightarrow> Q r h"
  shows "wp (kirilock_main fuel E) Q []"
proof -
  have lock: "wp (kl_context_lock_session fuel E ctx)
     (\<lambda>l. wp (case l of None \<Rightarrow> ret_m None
         | Some (r, ctx) \<Rightarrow>
             if r < 0 then do { _ \<leftarrow> kl_context_destroy E ctx; _ \<leftarrow> kl_cleanup_debug_resources E;
               ret_m (Some (-1)) }
             else run_locked fuel E ctx) Q) h"
    if "init_done 0 ctx h" for ctx h
    by (rule kl_context_lock_session_done [OF E])
       (use that in \<open>auto simp: init_done_def lock_done_def wp_if wp_return split: option.splits
          intro!: destroy_done [OF E] run_locked_done [OF E] Q dest: running\<close>)
  have early: "wp (do { _ \<leftarrow> kl_cleanup_debug_resources E; ret_m (Some (-1)) }) Q h"
    if "init_done (-1) ctx h" for ctx h
    by (rule cleanup_done [OF E _ _ _ Q]) (use that in \<open>auto simp: init_done_def\<close>)
  show ?thesis
    unfolding kirilock_main_def wp_bind [of "kl_context_init _"]
  proof (rule kl_context_init_done [OF E])
    fix r ctx h
    assume i: "init_done r ctx h"
    then have "r = 0 \<or> r = -1" by (auto simp: init_done_def split: if_splits)
    then show "wp (case (r, ctx) of (r, ctx) \<Rightarrow>
        if r < 0 then do { _ \<leftarrow> kl_cleanup_debug_resources E; ret_m (Some (-1)) }
        else do { l \<leftarrow> kl_context_lock_session fuel E ctx;
          case l of None \<Rightarrow> ret_m None
          | Some (r, ctx) \<Rightarrow>
             if r < 0 then do { _ \<leftarrow> kl_context_destroy E ctx; _ \<leftarrow> kl_cleanup_debug_resources E;
               ret_m (Some (-1)) }
             else run_locked fuel E ctx }) Q h"
      using i early lock by (auto simp: wp_bind [of "kl_context_lock_session _ _ _"])
  qed
qed

subsection \<open>The prepare, read and cancel discipline\<close>

text \<open>
  libwayland wants every successful \<open>wl_display_prepare_read\<close> to be followed by exactly one
  \<open>wl_display_read_events\<close> or \<open>wl_display_cancel_read\<close> before events are dispatched or the
  display goes away; otherwise readers wait for each other forever.  The monitor's state says
  whether a read is prepared.
\<close>

fun reading_after :: "bool \<Rightarrow> call \<Rightarrow> int \<Rightarrow> bool" where
  "reading_after b (Disp (wl_display_prepare_read _)) r = (r = 0)"
| "reading_after b (Disp (wl_display_read_events _)) r = False"
| "reading_after b (Disp (wl_display_cancel_read _)) r = False"
| "reading_after b _ r = b"

fun reading_allowed :: "bool \<Rightarrow> call \<Rightarrow> bool" where
  "reading_allowed b (Disp c) =
     (case c of wl_display_read_events _ \<Rightarrow> b
      | wl_display_cancel_read _ \<Rightarrow> b
      | wl_display_prepare_read _ \<Rightarrow> \<not> b
      | wl_display_dispatch _ \<Rightarrow> \<not> b
      | wl_display_dispatch_pending _ \<Rightarrow> \<not> b
      | wl_display_roundtrip _ \<Rightarrow> \<not> b
      | wl_display_disconnect _ \<Rightarrow> \<not> b
      | _ \<Rightarrow> True)"
| "reading_allowed b _ = True"

fun reading :: "log \<Rightarrow> bool" where
  "reading [] = False"
| "reading ((c, r) # h) = reading_after (reading h) c r"

fun reading_ok :: "log \<Rightarrow> bool" where
  "reading_ok [] = True"
| "reading_ok ((c, r) # h) = (reading_ok h \<and> reading_allowed (reading h) c)"

interpretation reader: monitor reading reading_ok reading_after reading_allowed
  by unfold_locales simp_all

definition rd :: "bool \<Rightarrow> log \<Rightarrow> bool" where
  "rd b h \<longleftrightarrow> reading_ok h \<and> reading h = b"

lemma wp_rd:
  assumes "env_ok E" and "rd b h" and "reading_allowed b c"
    and "\<And>r h'. rd (reading_after b c r) h' \<Longrightarrow> Q r h'"
  shows "wp (ext E c) Q h"
  using assms unfolding rd_def by (blast intro: reader.wp_step)

text \<open>The calls the monitor looks at; nothing below main.c makes them except where a display call
  dispatches.\<close>

fun reads :: "call \<Rightarrow> bool" where
  "reads (Disp c) =
     (case c of wl_display_read_events _ \<Rightarrow> True
      | wl_display_cancel_read _ \<Rightarrow> True
      | wl_display_prepare_read _ \<Rightarrow> True
      | wl_display_dispatch _ \<Rightarrow> True
      | wl_display_dispatch_pending _ \<Rightarrow> True
      | wl_display_roundtrip _ \<Rightarrow> True
      | wl_display_disconnect _ \<Rightarrow> True
      | _ \<Rightarrow> False)"
| "reads (Sys c) = (case c of sys_epoll_wait _ \<Rightarrow> True | _ \<Rightarrow> False)"
| "reads _ = False"

lemma nonreads_facts: "\<not> reads c \<Longrightarrow> reading_after b c r = b \<and> reading_allowed b c"
  by (cases c) (auto split: display_call.splits intro: reading_after.cases [of "(b, c, r)"])

lemma rd_reads: "rd b (entries reads h) = rd b h"
  unfolding rd_def
proof (induction h arbitrary: b)
  case (Cons e h)
  obtain c r where e: "e = (c, r)" by fastforce
  from Cons [of "reading h"] Cons [of "reading (entries reads h)"]
  have "reading_ok h \<longrightarrow> reading (entries reads h) = reading h"
    and "reading_ok (entries reads h) = reading_ok h" by blast+
  then show ?case
    using nonreads_facts [of c] by (cases "reads c") (auto simp: e entries_Cons)
qed simp

lemma wp_nonreads:
  assumes m: "makes (\<lambda>c. \<not> reads c) m" and h: "rd b h" and Q: "\<And>a h'. rd b h' \<Longrightarrow> Q a h'"
  shows "wp m Q h"
  by (rule wp_entries_kept [OF m], rule wp_any)
     (use Q h rd_reads in metis)

lemma nonreads_of_noncore: "makes (\<lambda>c. \<not> core c) m \<Longrightarrow> makes (\<lambda>c. \<not> reads c) m"
  by (erule makes_mono) (auto elim!: reads.elims split: sys_call.splits)

lemmas surface_nonreads =
  surface_handlers_noncore [THEN nonreads_of_noncore] attach_lock_noncore [THEN nonreads_of_noncore]
  detach_lock_noncore [THEN nonreads_of_noncore] surface_create_noncore [THEN nonreads_of_noncore]
  surface_destroy_noncore [THEN nonreads_of_noncore] release_output_noncore [THEN nonreads_of_noncore]

lemma dispatch_events_nonreads: "makes (\<lambda>c. \<not> reads c) (dispatch_events E ctx es)"
  by (rule makes_mono [OF dispatch_events_handler])
     (auto simp: handler_call_def bind_of_def elim!: reads.elims split: sys_call.splits call.splits display_call.splits)

lemma dispatching_rd:
  assumes E: "env_ok E" and h: "rd False h"
    and c: "reading_allowed False (Disp c)" "\<And>r. reading_after False (Disp c) r = False"
    and Q: "\<And>a h'. rd False h' \<Longrightarrow> Q a h'"
  shows "wp (dispatching E c ctx) Q h"
  unfolding dispatching_def
  by (simp only: wp_simps, rule wp_rd [OF E h c(1)], rule wp_peek,
      rule wp_nonreads [OF dispatch_events_nonreads], simp only: c(2), erule Q)

text \<open>A computation that leaves no read prepared behind: what every function but the two halves of a
  loop iteration does.\<close>

abbreviation settles :: "(log, 'a) state \<Rightarrow> bool" where
  "settles \<equiv> keeps (rd False)"

lemma settles_nonreads: "makes (\<lambda>c. \<not> reads c) m \<Longrightarrow> settles m"
  by (rule keepsI) (rule wp_nonreads)

lemma settles_ext [keeps_intros]:
  "reading_allowed False c \<Longrightarrow> (\<And>r. reading_after False c r = False) \<Longrightarrow> settles (ext E' c)"
  by (auto simp: keeps_def rd_def)

lemma settles_dispatching:
  assumes "reading_allowed False (Disp c)" and "\<And>r. reading_after False (Disp c) r = False"
  shows "settles (dispatching E c ctx)"
  unfolding dispatching_def
  by (intro keeps_intros settles_nonreads [OF dispatch_events_nonreads]) (rule assms)+

lemma kl_context_destroy_settles: "settles (kl_context_destroy E ctx)"
  unfolding kl_context_destroy_def destroy_lock_def
  by (intro keeps_intros settles_nonreads [OF makes_map_m] surface_nonreads settles_dispatching) simp_all

lemma kl_context_init_settles: "settles (kl_context_init E)"
  unfolding kl_context_init_def init_fails_def
  by (intro keeps_intros kl_context_destroy_settles settles_dispatching) simp_all

lemma wait_answer_settles: "settles (wait_answer n E ctx)"
  by (induction n arbitrary: ctx) (auto intro!: keeps_intros settles_dispatching)

lemma kl_context_lock_session_settles: "settles (kl_context_lock_session n E ctx)"
  unfolding kl_context_lock_session_def lock_result_def
  by (intro keeps_intros wait_answer_settles
      settles_nonreads [OF nonreads_of_noncore [OF attach_all_noncore]]) simp_all

lemma kl_context_unlock_session_settles: "settles (kl_context_unlock_session E ctx)"
  unfolding kl_context_unlock_session_def
  by (intro keeps_intros settles_nonreads [OF makes_map_m] surface_nonreads settles_dispatching) simp_all

lemma prepare_loop_rd:
  assumes E: "env_ok E"
  shows "\<lbrakk>rd False h; \<And>h'. rd False h' \<Longrightarrow> Q None h'; \<And>b ctx' h'. rd b h' \<Longrightarrow> Q (Some (b, ctx')) h'\<rbrakk>
    \<Longrightarrow> wp (prepare_loop n E ctx) Q h"
proof (induction n arbitrary: ctx h)
  case (Suc n)
  have disp: "wp (dispatching E (wl_display_dispatch_pending (ctx_display ctx)) ctx)
    (\<lambda>a. wp (case a of (r, ctx) \<Rightarrow> if r < 0 then ret_m (Some (False, ctx)) else prepare_loop n E ctx) Q) h'"
    if "rd False h'" for h'
    by (rule dispatching_rd [OF E that])
       (auto simp: wp_simps intro!: Suc.prems(3) Suc.IH [OF _ Suc.prems(2,3)])
  show ?case
    unfolding prepare_loop.simps wp_bind
    by (rule wp_rd [OF E Suc.prems(1)]) (use disp Suc.prems(3) in \<open>auto simp: wp_simps\<close>)
qed (simp add: wp_simps)

lemma read_step_rd:
  assumes E: "env_ok E" and h: "rd True h" and Q: "\<And>a h'. rd False h' \<Longrightarrow> Q a h'"
  shows "wp (read_step E display_fd epoll_fd ctx) Q h"
proof -
  have cancel: "wp (disp E (wl_display_cancel_read (ctx_display ctx))) R h'"
    if "rd True h'" "\<And>r g. rd False g \<Longrightarrow> R r g" for R h'
    by (rule wp_rd [OF E that(1)]) (simp_all add: that(2))
  have pending: "wp (dispatching E (wl_display_dispatch_pending (ctx_display ctx)) ctx) R h'"
    if "rd False h'" "\<And>a g. rd False g \<Longrightarrow> R a g" for R h'
    by (rule dispatching_rd [OF E that(1)]) (simp_all add: that(2))
  have read: "wp (disp E (wl_display_read_events (ctx_display ctx))) R h'"
    if "rd True h'" "\<And>r g. rd False g \<Longrightarrow> R r g" for R h'
    by (rule wp_rd [OF E that(1)]) (simp_all add: that(2))
  have other: "wp (ext E c) R h'" if "rd True h'" "\<not> reads c \<or> (\<exists>fd. c = Sys (sys_epoll_wait fd))" "\<And>r g. rd True g \<Longrightarrow> R r g" for R c h'
    by (rule wp_rd [OF E that(1)]) (use that nonreads_facts [of c] in auto)
  show ?thesis
    unfolding read_step_def handle_ready_def wp_bind
    by (rule other [OF h])
       (auto simp: wp_simps intro!: wp_peek other cancel read pending Q)
qed

lemma main_loop_rd:
  assumes E: "env_ok E"
  shows "\<lbrakk>rd False h; \<And>a h'. rd False h' \<Longrightarrow> Q a h'\<rbrakk> \<Longrightarrow> wp (main_loop n k E display_fd epoll_fd t0 ctx) Q h"
proof (induction n arbitrary: ctx h)
  case (Suc n)
  have time: "settles (kl_get_monotonic_time_ns E)"
    unfolding kl_get_monotonic_time_ns_def by (intro keeps_intros) simp_all
  show ?case
    unfolding main_loop.simps wp_bind
    by (rule keeps_wp [OF time Suc.prems(1)])
       (auto simp: wp_simps Suc.prems(2) intro!: prepare_loop_rd [OF E] read_step_rd [OF E] Suc.IH [OF _ Suc.prems(2)])
qed (simp add: wp_simps)

lemma kirilock_main_settles:
  assumes E: "env_ok E"
  shows "settles (kirilock_main fuel E)"
proof -
  have loop: "settles (main_loop fuel fuel E d e t c)" for d e t c
    by (rule keepsI, rule main_loop_rd [OF E])
  show ?thesis
    unfolding kirilock_main_def run_locked_def unlock_and_fail_def loop_exit_def
      kl_cleanup_debug_resources_def kl_get_monotonic_time_ns_def
    by (intro keeps_intros kl_context_destroy_settles kl_context_init_settles loop
        kl_context_lock_session_settles kl_context_unlock_session_settles) simp_all
qed

end
