(* ===== verification/Program_Runs.thy ===== *)
theory Program_Runs
  imports Main_Loop
begin

section \<open>Runs of the whole program\<close>

text \<open>
  What main.c, lock.c, surface.c, render.c and buffer.c do together, from an empty log to the return
  of \<open>main\<close>: the program ends when its environment makes progress, it gives up the lock it took,
  and the properties of whole runs.
\<close>

subsection \<open>The program ends\<close>

text \<open>
  What the environment has to do.  \<open>answers N E\<close>: after \<open>N\<close> dispatches the next one reports
  an error or brings the locked event.  \<open>drains E\<close>: after \<open>wl_display_dispatch_pending\<close>
  the queue is empty, so that \<open>wl_display_prepare_read\<close> succeeds.  \<open>clock_advances M E\<close>:
  after \<open>M\<close> returns of \<open>epoll_wait\<close> the clock is five seconds past any reading before the
  first.
\<close>

definition calls :: "(call \<Rightarrow> bool) \<Rightarrow> log \<Rightarrow> nat" where
  "calls P h = length (trace P h)"

definition is_dispatch :: "call \<Rightarrow> bool" where
  "is_dispatch c \<longleftrightarrow> (\<exists>d. c = Disp (wl_display_dispatch d))"

definition is_wait :: "call \<Rightarrow> bool" where
  "is_wait c \<longleftrightarrow> (\<exists>fd. c = Sys (sys_epoll_wait fd))"

definition answers :: "nat \<Rightarrow> env \<Rightarrow> bool" where
  "answers N E \<longleftrightarrow> (\<forall>h d r. N < calls is_dispatch ((Disp (wl_display_dispatch d), r) # h) \<longrightarrow>
     ret E h (Disp (wl_display_dispatch d)) = -1 \<or>
     EvLocked \<in> set (deliver E ((Disp (wl_display_dispatch d), r) # h)))"

fun drained :: "log \<Rightarrow> bool" where
  "drained [] = False"
| "drained ((Disp (wl_display_dispatch_pending _), r) # h) = True"
| "drained ((Disp (wl_display_prepare_read _), r) # h) = False"
| "drained (_ # h) = drained h"

definition drains :: "env \<Rightarrow> bool" where
  "drains E \<longleftrightarrow> (\<forall>h d. drained h \<longrightarrow> ret E h (Disp (wl_display_prepare_read d)) = 0)"

definition now :: "env \<Rightarrow> log \<Rightarrow> u64" where
  "now E h = (case clock E h of (sec, nsec) \<Rightarrow> word_of_int sec * 1000000000 + word_of_int nsec)"

definition clock_advances :: "nat \<Rightarrow> env \<Rightarrow> bool" where
  "clock_advances M E \<longleftrightarrow> (\<forall>h. 0 \<le> ret E h (Sys sys_clock_gettime)) \<and>
     (\<forall>h0 h. calls is_wait h0 = 0 \<and> M \<le> calls is_wait h \<longrightarrow> total_demo_duration_ns \<le> now E h - now E h0)"

lemma calls_Cons: "calls P ((c, r) # h) = (if P c then Suc (calls P h) else calls P h)"
  by (simp add: calls_def trace_Cons)

lemma calls_append: "calls P (new @ h) = calls P new + calls P h"
  by (simp add: calls_def trace_def)

lemma wp_extends:
  assumes "makes P m" and "wp m (\<lambda>a h'. (\<exists>new. h' = new @ h) \<longrightarrow> Q a h') h"
  shows "wp m Q h"
  using assms unfolding makes_def wp_def by (metis (mono_tags, lifting) case_prod_beta)

lemma wp_calls_mono:
  assumes "makes P m" and "wp m (\<lambda>a h'. calls R h \<le> calls R h' \<longrightarrow> Q a h') h"
  shows "wp m Q h"
  by (rule wp_extends [OF assms(1)], rule wp_mono [OF assms(2)]) (auto simp: calls_append)

text \<open>What dispatching does to the lock flags, whatever the calls return.\<close>

lemma on_surface_fields:
  assumes "\<And>xs h'. Q (ctx\<lparr>ctx_surfaces := xs\<rparr>) h'"
  shows "wp (on_surface e p alive handler ctx) Q h"
proof -
  have same: "Q ctx h'" for h' using assms [of "ctx_surfaces ctx"] by simp
  show ?thesis
    unfolding on_surface_def
    by (auto simp: wp_simps wp_log_event same assms split: option.splits intro!: wp_any)
qed

definition flags_kept :: "kl_context \<Rightarrow> kl_context \<Rightarrow> bool" where
  "flags_kept ctx ctx' \<longleftrightarrow> ctx_lock ctx' = ctx_lock ctx \<and> ctx_display ctx' = ctx_display ctx \<and>
     (ctx_is_locked ctx \<longrightarrow> ctx_is_locked ctx')"

lemma flags_kept_trans: "flags_kept a b \<Longrightarrow> flags_kept b c \<Longrightarrow> flags_kept a c"
  by (auto simp: flags_kept_def)

lemma registry_flags:
  assumes "\<And>ctx' h'. flags_kept ctx ctx' \<Longrightarrow> Q ctx' h'"
  shows "wp (kl_registry_handle_global E ctx registry name i v) Q h"
    and "wp (kl_registry_handle_global_remove E ctx name) Q h"
proof -
  show "wp (kl_registry_handle_global E ctx registry name i v) Q h"
    by (rule wpI, rule assms)
       (auto simp: kl_registry_handle_global_def flags_kept_def split: if_splits prod.splits option.splits)
  show "wp (kl_registry_handle_global_remove E ctx name) Q h"
    by (rule wpI, rule assms)
       (auto simp: kl_registry_handle_global_remove_def flags_kept_def split: prod.splits option.splits)
qed

lemma dispatch_event_flags:
  assumes "\<And>ctx' h'. flags_kept ctx ctx' \<Longrightarrow> (e = EvLocked \<and> ctx_lock ctx \<noteq> NULL \<longrightarrow> ctx_is_locked ctx') \<Longrightarrow> Q ctx' h'"
  shows "wp (dispatch_event E ctx e) Q h"
  unfolding dispatch_event_def
  by (cases e)
     (auto simp: wp_simps wp_log_event kl_lock_handle_locked_def kl_lock_handle_finished_def
       intro!: assms on_surface_fields registry_flags, auto simp: flags_kept_def)

lemma dispatch_events_flags:
  "(\<And>ctx' h'. flags_kept ctx ctx' \<Longrightarrow> (EvLocked \<in> set es \<and> ctx_lock ctx \<noteq> NULL \<longrightarrow> ctx_is_locked ctx') \<Longrightarrow> Q ctx' h')
   \<Longrightarrow> wp (dispatch_events E ctx es) Q h"
proof (induction es arbitrary: ctx h)
  case Nil
  then show ?case by (simp add: wp_simps flags_kept_def)
next
  case (Cons e es)
  show ?case
    unfolding dispatch_events.simps wp_bind
    by (rule dispatch_event_flags, rule Cons.IH, rule Cons.prems)
       (auto intro: flags_kept_trans simp: flags_kept_def)
qed

lemma wp_dispatching:
  "wp (dispatching E c ctx) Q h =
   wp (dispatch_events E ctx (deliver E ((Disp c, ret E h (Disp c)) # h)))
     (\<lambda>ctx. Q (ret E h (Disp c), ctx)) ((Disp c, ret E h (Disp c)) # h)"
  by (simp add: dispatching_def wp_def split: prod.splits)

lemma wait_answer_done:
  "ctx_is_locked ctx \<Longrightarrow> 0 < n \<Longrightarrow> Q (Some (True, ctx)) h \<Longrightarrow> wp (wait_answer n E ctx) Q h"
  by (cases n) (simp_all add: wp_simps)

lemma wait_answer_ends:
  assumes a: "answers N E"
  shows "\<lbrakk>ctx_lock ctx \<noteq> NULL; 2 + (N - calls is_dispatch h) \<le> n; \<And>w h'. Q (Some w) h'\<rbrakk>
    \<Longrightarrow> wp (wait_answer n E ctx) Q h"
proof (induction n arbitrary: ctx h)
  case (Suc n)
  let ?c = "Disp (wl_display_dispatch (ctx_display ctx))"
  let ?r = "ret E h ?c"
  let ?h = "(?c, ?r) # h"
  have count: "calls is_dispatch ?h = Suc (calls is_dispatch h)"
    by (simp add: calls_Cons is_dispatch_def)
  have next_step: "wp (wait_answer n E ctx') Q h'"
    if "flags_kept ctx ctx'" "EvLocked \<in> set (deliver E ?h) \<longrightarrow> ctx_is_locked ctx'"
      "calls is_dispatch ?h \<le> calls is_dispatch h'" "?r \<noteq> -1" for ctx' h'
  proof (cases "N \<le> calls is_dispatch h")
    case True
    then have "EvLocked \<in> set (deliver E ?h)"
      using a that(4) count unfolding answers_def by (metis less_Suc_eq_le)
    then show ?thesis using that(2) Suc.prems(2,3) by (intro wait_answer_done) auto
  next
    case False
    then show ?thesis
      using that(1,3) Suc.prems count by (intro Suc.IH) (auto simp: flags_kept_def)
  qed
  have "wp (dispatch_events E ctx (deliver E ?h))
     (\<lambda>c. wp (if ?r = -1 then ret_m (Some (False, c)) else wait_answer n E c) Q) ?h"
    by (rule wp_calls_mono [OF dispatch_events_nonreads, where R = is_dispatch], rule dispatch_events_flags)
       (use next_step Suc.prems(1,3) in \<open>auto simp: wp_simps\<close>)
  then have "wp (dispatching E (wl_display_dispatch (ctx_display ctx)) ctx)
     (\<lambda>a. wp (case a of (r, ctx) \<Rightarrow> if r = -1 then ret_m (Some (False, ctx)) else wait_answer n E ctx) Q) h"
    by (simp only: wp_dispatching prod.case)
  then show ?case using Suc.prems(3) by (simp add: wp_simps)
qed simp

lemma drained_nonreads: "\<not> reads c \<Longrightarrow> drained ((c, r) # h) = drained h"
  by (cases "((c, r) # h)" rule: drained.cases) auto

lemma drained_reads: "drained (entries reads h) = drained h"
proof (induction h)
  case (Cons e h)
  obtain c r where e: "e = (c, r)" by fastforce
  have "drained ((c, r) # entries reads h) = drained ((c, r) # h)"
    using Cons by (cases "((c, r) # h)" rule: drained.cases) simp_all
  then show ?case
    using Cons drained_nonreads [of c r h] by (cases "reads c") (simp_all add: e entries_Cons)
qed simp

lemma prepare_loop_ends:
  assumes d: "drains E" and n: "2 \<le> n" and Q: "\<And>w h'. Q (Some w) h'"
  shows "wp (prepare_loop n E ctx) Q h"
proof -
  obtain m where m: "n = Suc (Suc m)" using n by (metis add_2_eq_Suc le_Suc_ex)
  have again: "wp (prepare_loop (Suc m) E c) Q h'" if "drained h'" for c h'
    using d that unfolding drains_def by (auto simp: wp_simps Q intro!: wp_ext)
  have step: "wp (dispatch_events E ctx es) (\<lambda>c. wp (if r < 0 then ret_m (Some (False, c))
      else prepare_loop (Suc m) E c) Q) h'"
    if "drained h'" for es r h'
  proof (rule wp_entries_kept [OF dispatch_events_nonreads], rule wp_any, rule impI)
    fix c g
    assume "entries reads g = entries reads h'"
    then have "drained g" using that drained_reads by metis
    then show "wp (if r < 0 then ret_m (Some (False, c)) else prepare_loop (Suc m) E c) Q g"
      using again Q by (simp add: wp_simps del: prepare_loop.simps)
  qed
  show ?thesis
    unfolding m prepare_loop.simps(2) [of "Suc m"] dispatching_def
    by (auto simp: wp_simps Q simp del: prepare_loop.simps intro!: wp_ext wp_peek step)
qed

text \<open>Only the main loop waits in \<open>epoll_wait\<close>.\<close>

lemma nowait_of_nonreads: "makes (\<lambda>c. \<not> reads c) m \<Longrightarrow> makes (\<lambda>c. \<not> is_wait c) m"
  by (erule makes_mono) (auto simp: is_wait_def)

lemma dispatching_nowait [makes_intros]: "makes (\<lambda>c. \<not> is_wait c) (dispatching E c ctx)"
  unfolding dispatching_def
  by (intro makes_intros nowait_of_nonreads [OF dispatch_events_nonreads]) (simp add: is_wait_def)

lemma init_nowait: "makes (\<lambda>c. \<not> is_wait c) (kl_context_init E)"
  unfolding kl_context_init_def init_fails_def kl_context_destroy_def destroy_lock_def
  by (intro makes_intros nowait_of_nonreads [OF surface_nonreads(9)]) (simp_all add: is_wait_def)

lemma wait_answer_nowait: "makes (\<lambda>c. \<not> is_wait c) (wait_answer n E ctx)"
  by (induction n arbitrary: ctx) (auto intro!: makes_intros)

lemma lock_session_nowait: "makes (\<lambda>c. \<not> is_wait c) (kl_context_lock_session n E ctx)"
  unfolding kl_context_lock_session_def lock_result_def
  by (intro makes_intros wait_answer_nowait
      nowait_of_nonreads [OF nonreads_of_noncore [OF attach_all_noncore]]) (simp_all add: is_wait_def)

lemma calls_nowait:
  assumes "makes (\<lambda>c. \<not> is_wait c) m" and "wp m (\<lambda>a h'. calls is_wait h' = calls is_wait h \<longrightarrow> Q a h') h"
  shows "wp m Q h"
  by (rule wp_trace_kept [OF assms(1)], rule wp_mono [OF assms(2)]) (simp add: calls_def)

lemma handle_ready_extends: "makes (\<lambda>_. True) (handle_ready E display_fd events ctx)"
  unfolding handle_ready_def by (intro makes_intros makes_mono [OF dispatching_nowait]) simp_all

lemma prepare_loop_extends: "makes (\<lambda>_. True) (prepare_loop n E ctx)"
  by (induction n arbitrary: ctx) (auto intro!: makes_intros makes_mono [OF dispatching_nowait])

lemma read_step_waits:
  assumes Q: "\<And>b c h'. (b \<Longrightarrow> calls is_wait h < calls is_wait h') \<Longrightarrow> Q (b, c) h'"
  shows "wp (read_step E display_fd epoll_fd ctx) Q h"
proof -
  have ready: "wp (handle_ready E display_fd events ctx) Q h'" if "calls is_wait h < calls is_wait h'" for events h'
    by (rule wp_calls_mono [OF handle_ready_extends, where R = is_wait], rule wp_any) (use that Q in auto)
  have no: "\<not> is_wait (Disp c)" for c by (simp add: is_wait_def)
  have yes: "is_wait (Sys (sys_epoll_wait fd))" for fd by (simp add: is_wait_def)
  show ?thesis
    unfolding read_step_def wp_bind
    by (rule wp_call)
       (auto simp: wp_simps no yes calls_Cons intro!: wp_call wp_peek Q ready)
qed

lemma clock_reading:
  assumes c: "clock_advances M E"
    and R: "R (now E ((Sys sys_clock_gettime, ret E h (Sys sys_clock_gettime)) # h))
      ((Sys sys_clock_gettime, ret E h (Sys sys_clock_gettime)) # h)"
  shows "wp (kl_get_monotonic_time_ns E) R h"
proof -
  have "(ret E h (Sys sys_clock_gettime) < 0) = False"
    using c by (simp add: clock_advances_def not_less)
  with R show ?thesis
    by (simp add: kl_get_monotonic_time_ns_def wp_def now_def split: prod.splits)
qed

lemma main_loop_ends:
  assumes d: "drains E" and c: "clock_advances M E" and h0: "calls is_wait h0 = 0" and k: "2 \<le> k"
  shows "\<lbrakk>1 + (M - calls is_wait h) \<le> n; \<And>w h'. Q (Some w) h'\<rbrakk>
    \<Longrightarrow> wp (main_loop n k E display_fd epoll_fd (now E h0) ctx) Q h"
proof (induction n arbitrary: ctx h)
  case (Suc n)
  let ?h = "(Sys sys_clock_gettime, ret E h (Sys sys_clock_gettime)) # h"
  have same: "calls is_wait ?h = calls is_wait h" by (simp add: calls_Cons is_wait_def)
  have rest: "wp (prepare_loop k E ctx) (\<lambda>p. wp (case p of None \<Rightarrow> ret_m None
      | Some (prepared, ctx) \<Rightarrow> if \<not> prepared then ret_m (Some ctx)
        else do { (continue, ctx) \<leftarrow> read_step E display_fd epoll_fd ctx;
             if continue then main_loop n k E display_fd epoll_fd (now E h0) ctx else ret_m (Some ctx) }) Q) ?h"
    if "\<not> total_demo_duration_ns \<le> now E ?h - now E h0"
  proof -
    have "\<not> M \<le> calls is_wait ?h" using c that h0 unfolding clock_advances_def by blast
    then have M: "calls is_wait h < M" by (simp add: same)
    have loop: "wp (main_loop n k E display_fd epoll_fd (now E h0) c') Q h'"
      if "calls is_wait h < calls is_wait h'" for c' h'
      using that M Suc.prems by (intro Suc.IH) auto
    show ?thesis
      by (rule wp_calls_mono [OF prepare_loop_extends, where R = is_wait], rule prepare_loop_ends [OF d k])
         (use Suc.prems(2) same in \<open>auto simp: wp_simps split: prod.splits intro!: read_step_waits loop\<close>)
  qed
  show ?case
    unfolding main_loop.simps wp_bind
    by (rule clock_reading [OF c]) (use rest Suc.prems(2) in \<open>auto simp: wp_if wp_return wp_bind\<close>)
qed simp

lemma tail_ends: "wp (unlock_and_fail E ctx) (\<lambda>v _. \<exists>x. v = Some x) h" "wp (loop_exit E fd ctx) (\<lambda>v _. \<exists>x. v = Some x) h"
  by (simp_all add: unlock_and_fail_def loop_exit_def wp_def split: prod.splits)

lemma run_locked_ends:
  assumes d: "drains E" and c: "clock_advances M E" and h: "calls is_wait h = 0" and fuel: "M + 2 \<le> fuel"
  shows "wp (run_locked fuel E ctx) (\<lambda>v _. \<exists>x. v = Some x) h"
proof -
  have loop: "wp (kl_get_monotonic_time_ns E) (\<lambda>t. wp (main_loop fuel fuel E dfd fd t ctx)
      (\<lambda>e. wp (case e of None \<Rightarrow> ret_m None | Some ctx \<Rightarrow> loop_exit E fd ctx) (\<lambda>v _. \<exists>x. v = Some x))) h'"
    if "calls is_wait h' = 0" for dfd fd h'
    by (rule clock_reading [OF c], rule main_loop_ends [OF d c])
       (use that fuel in \<open>auto simp: calls_Cons is_wait_def tail_ends\<close>)
  have no: "\<not> is_wait (Disp a)" "\<not> is_wait (Sys sys_epoll_create1)" "\<not> is_wait (Sys (sys_epoll_ctl_add x y))"
    for a x y by (simp_all add: is_wait_def)
  show ?thesis
    unfolding run_locked_def wp_bind
    by (rule wp_call)
       (auto simp: wp_if wp_bind no calls_Cons h tail_ends intro!: wp_call tail_ends loop)
qed

lemma lock_session_ends:
  assumes a: "answers N E" and fuel: "N + 2 \<le> fuel" and Q: "\<And>w h'. Q (Some w) h'"
  shows "wp (kl_context_lock_session fuel E ctx) Q h"
proof -
  have "2 + (N - x) \<le> fuel" for x using fuel by simp
  then show ?thesis
    unfolding kl_context_lock_session_def lock_result_def
    by (auto simp: wp_simps Q split: prod.splits intro!: wp_call wp_peek ifI
      wp_any [of "\<lambda>p. wp (_ p) _" "attach_all _ _ _"] wait_answer_ends [OF a])
qed

lemma kirilock_main_ends:
  assumes a: "answers N E" and d: "drains E" and c: "clock_advances M E" and fuel: "N + M + 2 \<le> fuel"
  shows "wp (kirilock_main fuel E) (\<lambda>v _. \<exists>x. v = Some x) []"
proof -
  have run: "wp (run_locked fuel E ctx) (\<lambda>v _. \<exists>x. v = Some x) h" if "calls is_wait h = 0" for ctx h
    by (rule run_locked_ends [OF d c that]) (use fuel in simp)
  have tail: "wp (do { _ \<leftarrow> m; _ \<leftarrow> n; ret_m (Some v) }) (\<lambda>v _. \<exists>x. v = Some x) h"
    "wp (do { _ \<leftarrow> n; ret_m (Some v) }) (\<lambda>v _. \<exists>x. v = Some x) h"
    for m :: "(log, kl_context) state" and n :: "(log, unit) state" and v :: int and h
    by (simp_all add: wp_def split: prod.splits)
  have lock: "wp (kl_context_lock_session fuel E ctx) Q h"
    if "calls is_wait h = 0" "\<And>w g. calls is_wait g = 0 \<Longrightarrow> Q (Some w) g" for Q ctx h
    by (rule calls_nowait [OF lock_session_nowait], rule lock_session_ends [OF a])
       (use fuel that in auto)
  have init: "wp (kl_context_init E) Q []" if "\<And>w g. calls is_wait g = 0 \<Longrightarrow> Q w g" for Q
    by (rule calls_nowait [OF init_nowait], rule wp_any) (use that in \<open>auto simp: calls_def trace_def\<close>)
  show ?thesis
    unfolding kirilock_main_def wp_bind [of "kl_context_init _"]
    by (rule init) (auto simp: wp_if wp_bind [of "kl_context_lock_session _ _ _"] split: prod.splits
        intro!: lock run tail)
qed

subsection \<open>Unlocking on the way out\<close>

text \<open>What becomes of a confirmed lock: the unlock request was sent, or the compositor finished it.\<close>

definition unlocked :: "log \<Rightarrow> bool" where
  "unlocked h \<longleftrightarrow> (\<exists>p. Lk (ext_session_lock_v1_unlock_and_destroy p) \<in> fst ` set h)"

definition released :: "log \<Rightarrow> bool" where
  "released h \<longleftrightarrow> unlocked h \<or> \<not> never_both h"

lemma never_both_suffix: "never_both (new @ h) \<Longrightarrow> never_both h"
  by (induction new) auto

lemma released_stays:
  assumes "makes P m" and "released h" and "\<And>a h'. released h' \<Longrightarrow> Q a h'"
  shows "wp m Q h"
  by (rule makes_extends [OF assms(1)], rule assms(3))
     (use assms(2) never_both_suffix in \<open>auto simp: released_def unlocked_def\<close>)

lemma unlock_released: "released ((Lk (ext_session_lock_v1_unlock_and_destroy p), r) # h)"
  by (auto simp: released_def unlocked_def)

lemma flags_kept_refl [simp]: "flags_kept ctx ctx"
  by (simp add: flags_kept_def)

lemma dispatching_flags:
  "(\<And>r ctx' h'. flags_kept ctx ctx' \<Longrightarrow> Q (r, ctx') h') \<Longrightarrow> wp (dispatching E c ctx) Q h"
  unfolding wp_dispatching by (rule dispatch_events_flags)

lemma prepare_loop_flags:
  "\<lbrakk>\<And>h'. Q None h'; \<And>b ctx' h'. flags_kept ctx ctx' \<Longrightarrow> Q (Some (b, ctx')) h'\<rbrakk> \<Longrightarrow> wp (prepare_loop n E ctx) Q h"
proof (induction n arbitrary: ctx h)
  case (Suc n)
  have next_round: "wp (prepare_loop n E ctx') Q h'" if "flags_kept ctx ctx'" for ctx' h'
    by (rule Suc.IH [OF Suc.prems(1)], rule Suc.prems(2), erule flags_kept_trans [OF that])
  show ?case
    by (auto simp: wp_simps intro!: wp_call dispatching_flags Suc.prems(2) next_round)
qed (simp add: wp_simps)

lemma read_step_flags:
  assumes "\<And>b ctx' h'. flags_kept ctx ctx' \<Longrightarrow> Q (b, ctx') h'"
  shows "wp (read_step E d e ctx) Q h"
  unfolding read_step_def handle_ready_def
  by (auto simp: wp_simps intro!: wp_call wp_peek dispatching_flags assms)

lemma main_loop_flags:
  "\<lbrakk>\<And>h'. Q None h'; \<And>ctx' h'. flags_kept ctx ctx' \<Longrightarrow> Q (Some ctx') h'\<rbrakk> \<Longrightarrow>
   wp (main_loop n k E d e t ctx) Q h"
proof (induction n arbitrary: ctx h)
  case (Suc n)
  have next_round: "wp (main_loop n k E d e t ctx') Q h'" if "flags_kept ctx ctx1" "flags_kept ctx1 ctx'" for ctx1 ctx' h'
    by (rule Suc.IH [OF Suc.prems(1)], rule Suc.prems(2),
        erule flags_kept_trans [OF flags_kept_trans [OF that]])
  have stop: "Q (Some ctx') h'" if "flags_kept ctx ctx1" "flags_kept ctx1 ctx'" for ctx1 ctx' h'
    by (rule Suc.prems(2)) (rule flags_kept_trans [OF that])
  show ?case
    unfolding main_loop.simps wp_bind
    by (rule wp_any)
       (auto simp: wp_simps Suc.prems intro!: prepare_loop_flags read_step_flags next_round stop)
qed (simp add: wp_simps)

lemma unlock_session_released:
  assumes st: "ctx_state F ctx h" "ctx_lock ctx \<noteq> NULL" "ctx_is_locked ctx"
    and Q: "\<And>p h'. released h' \<Longrightarrow> Q p h'"
  shows "wp (kl_context_unlock_session E ctx) Q h"
proof (cases "ctx_is_finished ctx")
  case True
  then have "lock_flags h = (True, True)" using ctx_state_flags [OF st(1,2)] st(3) by simp
  then have "released h" using never_both_flags [of h] by (auto simp: released_def)
  then show ?thesis using True Q by (simp add: kl_context_unlock_session_def wp_simps)
next
  case False
  have trip: "wp (dispatching E c ctx') R g" if "released g" "\<And>p g'. released g' \<Longrightarrow> R p g'" for c ctx' R g
    by (rule released_stays [OF dispatching_extends that])
  show ?thesis
    unfolding kl_context_unlock_session_def using st(2,3) False
    by (auto simp: wp_simps intro!: wp_any [of _ "map_m _ _"] wp_call trip Q unlock_released)
qed

lemma destroy_extends: "makes (\<lambda>_. True) (kl_context_destroy E ctx)"
  unfolding kl_context_destroy_def destroy_lock_def
  by (intro makes_intros dispatching_extends makes_mono [OF surface_destroy_noncore] TrueI)

lemma cleanup_extends: "makes (\<lambda>_. True) (kl_cleanup_debug_resources E)"
  unfolding kl_cleanup_debug_resources_def by (intro makes_intros TrueI)

lemma exit_released:
  assumes "ctx_state F ctx h" "ctx_lock ctx \<noteq> NULL" "ctx_is_locked ctx"
  shows "wp (do { (r, ctx) \<leftarrow> kl_context_unlock_session E ctx; _ \<leftarrow> kl_context_destroy E ctx;
      _ \<leftarrow> kl_cleanup_debug_resources E; ret_m v }) (\<lambda>_. released) h"
  unfolding wp_bind [of "kl_context_unlock_session _ _"]
  by (rule unlock_session_released [OF assms])
     (auto simp: wp_simps intro!: released_stays [OF destroy_extends] released_stays [OF cleanup_extends])

lemma run_locked_released:
  assumes E: "env_ok E" and st: "ctx_state {#} ctx h" and l: "ctx_lock ctx \<noteq> NULL" "ctx_is_locked ctx"
  shows "wp (run_locked fuel E ctx) (\<lambda>v h'. (\<exists>x. v = Some x) \<longrightarrow> released h') h"
proof -
  let ?R = "\<lambda>(v :: int option) h'. (\<exists>x. v = Some x) \<longrightarrow> released h'"
  have fails: "wp (unlock_and_fail E c) ?R h'" if "ctx_state F c h'" "ctx_lock c \<noteq> NULL" "ctx_is_locked c" for F c h'
    unfolding unlock_and_fail_def by (rule wp_mono [OF exit_released [OF that]]) simp
  have close: "wp (sys E (sys_close fd)) R h'"
    if "ctx_state {#Fd fd#} c h'" "\<And>r g. ctx_state {#} c g \<Longrightarrow> R r g" for R c fd h'
    by (rule wp_sys_state [OF E that(1)]) (use that(2) in auto)
  have leave: "wp (loop_exit E fd c) ?R h'" if "ctx_state {#Fd fd#} c h'" "flags_kept ctx c" for fd c h'
    unfolding loop_exit_def wp_bind [of "sys _ _"]
    by (rule close [OF that(1)], rule wp_mono [OF exit_released])
       (use that(2) l in \<open>auto simp: flags_kept_def\<close>)
  have loop: "wp (main_loop fuel fuel E d fd t ctx)
      (\<lambda>e. wp (case e of None \<Rightarrow> ret_m None | Some c \<Rightarrow> loop_exit E fd c) ?R) h'"
    if "ctx_state {#Fd fd#} ctx h'" for d fd t h'
  proof (rule wp_mono [OF wp_conj])
    show "wp (main_loop fuel fuel E d fd t ctx)
      (\<lambda>e g. \<forall>c. e = Some c \<longrightarrow> ctx_state {#Fd fd#} c g) h'"
      by (rule main_loop_state [OF E _ that]) auto
    show "wp (main_loop fuel fuel E d fd t ctx) (\<lambda>e g. \<forall>c. e = Some c \<longrightarrow> flags_kept ctx c) h'"
      by (rule main_loop_flags) auto
  qed (use leave in \<open>auto simp: wp_return split: option.splits\<close>)
  have add: "wp (sys E (sys_epoll_ctl_add fd d)) R h'"
    if "ctx_state {#Fd fd#} ctx h'" "\<And>r g. ctx_state {#Fd fd#} ctx g \<Longrightarrow> R r g" for R fd d h'
    by (rule wp_sys_state [OF E that(1)]) (use that(2) in auto)
  have watch: "wp (sys E sys_epoll_create1) R h'"
    if "ctx_state {#} ctx h'" "\<And>r g. ctx_state (if r < 0 then {#} else {#Fd r#}) ctx g \<Longrightarrow> R r g" for R h'
    by (rule wp_sys_state [OF E that(1)]) (use that(2) in auto)
  show ?thesis
    unfolding run_locked_def wp_bind
    by (rule wp_display_state [OF E st])
       (auto simp: bind_of_def fun_eq_iff wp_if wp_bind l intro!: fails watch add close loop
         kl_get_monotonic_time_ns_state [OF E])
qed

lemma kirilock_main_released:
  assumes E: "env_ok E"
  shows "wp (kirilock_main fuel E) (\<lambda>v h'. v = Some 0 \<longrightarrow> released h') []"
proof -
  let ?R = "\<lambda>v h'. v = Some (0 :: int) \<longrightarrow> released h'"
  have tail: "wp (do { _ \<leftarrow> m; _ \<leftarrow> n; ret_m (Some (-1)) }) ?R h" "wp (do { _ \<leftarrow> n; ret_m (Some (-1)) }) ?R h"
    for m :: "(log, kl_context) state" and n :: "(log, unit) state" and h
    by (simp_all add: wp_def split: prod.splits)
  have lock: "wp (kl_context_lock_session fuel E ctx)
     (\<lambda>l. wp (case l of None \<Rightarrow> ret_m None
         | Some (r, ctx) \<Rightarrow>
             if r < 0 then do { _ \<leftarrow> kl_context_destroy E ctx; _ \<leftarrow> kl_cleanup_debug_resources E;
               ret_m (Some (-1)) }
             else run_locked fuel E ctx) ?R) h"
    if "init_done 0 ctx h" for ctx h
    by (rule kl_context_lock_session_done [OF E])
       (use that in \<open>auto simp: init_done_def lock_done_def wp_if wp_return split: option.splits
          intro!: tail wp_mono [OF run_locked_released [OF E]]\<close>)
  show ?thesis
    unfolding kirilock_main_def wp_bind [of "kl_context_init _"]
    by (rule kl_context_init_done [OF E])
       (use lock tail in \<open>auto simp: wp_if wp_bind [of "kl_context_lock_session _ _ _"] init_done_def
          split: if_splits\<close>)
qed

subsection \<open>Properties\<close>

text \<open>Every global that the context keeps was bound at most once.\<close>

definition bound_once :: "log \<Rightarrow> bool" where
  "bound_once h \<longleftrightarrow> (\<forall>i. single_global i \<longrightarrow> length (filter (\<lambda>e. bind_of (fst e) = Some i) h) \<le> 1)"

lemma bound_once_lost: "bound_once h \<Longrightarrow> lost h = {#}"
proof (induction h)
  case (Cons e h)
  obtain c r where e: "e = (c, r)" by fastforce
  have once: "bound_once h"
    unfolding bound_once_def
  proof (intro allI impI)
    fix i assume "single_global i"
    with Cons.prems show "length (filter (\<lambda>e. bind_of (fst e) = Some i) h) \<le> 1"
      by (force simp: bound_once_def e split: if_splits)
  qed
  have unbound: "bound i h = NULL" if "filter (\<lambda>e. bind_of (fst e) = Some i) h = []" for i
    using that by (induction h) (auto split: if_splits)
  show ?case
    using Cons.IH [OF once] Cons.prems unbound
    by (auto simp: e bound_once_def split: option.splits)
qed simp

text \<open>An environment that advertises its globals in the first roundtrip, confirms the lock at the
  first dispatch and whose clock is ten seconds further after the first wait.\<close>

definition demo_events :: "wl_event list \<Rightarrow> log \<Rightarrow> wl_event list" where
  "demo_events answer h =
     (case h of (Disp (wl_display_dispatch _), _) # _ \<Rightarrow> answer
      | _ \<Rightarrow> if length h = 4
             then [EvGlobal 1 ''wl_output'' 3, EvGlobal 2 ''wl_compositor'' 4, EvGlobal 3 ''wl_shm'' 1,
                   EvGlobal 4 ''ext_session_lock_manager_v1'' 1]
             else [])"

fun has_waited :: "log \<Rightarrow> bool" where
  "has_waited [] = False"
| "has_waited ((Sys (sys_epoll_wait _), _) # h) = True"
| "has_waited (_ # h) = has_waited h"

definition demo_env :: "wl_event list \<Rightarrow> env" where
  "demo_env answer = sample_env\<lparr>deliver := demo_events answer,
     clock := (\<lambda>h. (if has_waited h then 10 else 0, 0))\<rparr>"

lemma demo_env_ok [simp]: "env_ok (demo_env answer)"
  by (simp add: env_ok_def demo_env_def sample_env_def ret_ok_sample)

lemma has_waited_calls: "has_waited h \<longleftrightarrow> calls is_wait h \<noteq> 0"
  by (induction h rule: has_waited.induct) (simp_all add: calls_Cons is_wait_def, simp_all add: calls_def trace_def)

lemma demo_env_answers: "EvLocked \<in> set answer \<Longrightarrow> answers 0 (demo_env answer)"
  by (simp add: answers_def demo_env_def demo_events_def)

lemma demo_env_drains: "drains (demo_env answer)"
  by (simp add: drains_def demo_env_def sample_env_def sample_ret_def)

lemma demo_env_clock: "clock_advances 1 (demo_env answer)"
  by (simp add: clock_advances_def now_def demo_env_def has_waited_calls total_demo_duration_ns_def
      sample_env_def sample_ret_def)

text \<open>
  (C1) The whole program is memory safe and leaves nothing behind.  For every behaviour of the
  compositor, the kernel and cairo, at every moment of the run, no call has used a proxy, mapping,
  descriptor, cairo object or heap block that was not live; when \<open>main\<close> has returned, with 0 or
  -1, all that is still live are proxies of globals that were advertised twice, and nothing at all if
  none was.
\<close>

theorem kirilock_main_safe:
  assumes "env_ok E" and "run_state (kirilock_main fuel E) [] = (r, h)"
  shows "safe h \<and>
    (case r of None \<Rightarrow> True
     | Some v \<Rightarrow> (v = 0 \<or> v = -1) \<and> live h = lost h \<and> (bound_once h \<longrightarrow> live h = {#}))"
proof -
  have "wp (kirilock_main fuel E) prog_done []" by (rule kirilock_main_done [OF assms(1)])
  from wp_run [OF this assms(2)] show ?thesis
    by (auto simp: prog_done_def ledger_def bound_once_lost split: option.splits)
qed

lemma demo_run: "fst (run_state (kirilock_main 3 (demo_env [EvLocked])) []) = Some 0"
  by code_simp

theorem kirilock_main_safe_witness:
  "let (r, h) = run_state (kirilock_main 3 (demo_env [EvLocked])) []
   in r = Some 0 \<and> safe h \<and> live h = lost h"
proof -
  obtain r h where run: "run_state (kirilock_main 3 (demo_env [EvLocked])) [] = (r, h)"
    by (metis prod.exhaust)
  have r: "r = Some 0" using demo_run unfolding run by simp
  show ?thesis using kirilock_main_safe [OF demo_env_ok run] unfolding run Let_def prod.case r by simp
qed




lemma demo_never_both: "never_both (snd (run_state (kirilock_main 3 (demo_env [EvLocked])) []))"
  by code_simp



text \<open>
  (C15) When \<open>main\<close> returns 0, the session it locked is not locked any more on its account: the
  unlock request was sent, or the compositor had finished the lock.  No authentication takes part
  in this: reaching the end of the loop is enough.
\<close>

theorem kirilock_main_unlocks:
  assumes "env_ok E" and "run_state (kirilock_main fuel E) [] = (Some 0, h)"
  shows "unlocked h \<or> \<not> never_both h"
  using wp_run [OF kirilock_main_released [OF assms(1)] assms(2)] by (simp add: released_def)

theorem kirilock_main_unlocks_witness:
  "unlocked (snd (run_state (kirilock_main 3 (demo_env [EvLocked])) []))"
proof -
  obtain r h where run: "run_state (kirilock_main 3 (demo_env [EvLocked])) [] = (r, h)"
    by (metis prod.exhaust)
  have r: "r = Some 0" and "never_both h" using demo_run demo_never_both unfolding run by simp_all
  with kirilock_main_unlocks [OF demo_env_ok run [unfolded r]] show ?thesis unfolding run by simp
qed

text \<open>
  (C13) Every \<open>wl_display_prepare_read\<close> that succeeds is followed by exactly one
  \<open>wl_display_read_events\<close> or \<open>wl_display_cancel_read\<close> before events are dispatched, another
  read is prepared or the display is disconnected, on every path of \<open>main\<close>; none is left
  prepared.
\<close>

theorem kirilock_main_reads:
  assumes "env_ok E" and "run_state (kirilock_main fuel E) [] = (r, h)"
  shows "reading_ok h \<and> \<not> reading h"
proof -
  have "rd False []" by (simp add: rd_def)
  then have "rd False (snd (run_state (kirilock_main fuel E) []))"
    using kirilock_main_settles [OF assms(1)] unfolding keeps_def by blast
  then show ?thesis unfolding assms(2) by (simp add: rd_def)
qed

theorem kirilock_main_reads_witness:
  "let h = snd (run_state (kirilock_main 3 (demo_env [EvLocked])) []) in reading_ok h \<and> \<not> reading h"
proof -
  obtain r h where run: "run_state (kirilock_main 3 (demo_env [EvLocked])) [] = (r, h)"
    by (metis prod.exhaust)
  from kirilock_main_reads [OF demo_env_ok run] show ?thesis unfolding run Let_def by simp
qed

end
