(* ===== verification/Program_Sync.thy ===== *)
theory Program_Sync
  imports Program_Runs
begin

section \<open>Unlocking is synchronised before the connection is closed\<close>

text \<open>
  session-lock.h (lines 518 to 526) asks a client that exits after unlocking to let the compositor
  process the unlock\_and\_destroy request first, by a display sync, since closing the connection may
  lose it.  The monitor's state says whether an unlock request was made that no roundtrip followed
  yet; disconnecting is then not allowed.
\<close>

fun unsynced_after :: "bool \<Rightarrow> call \<Rightarrow> int \<Rightarrow> bool" where
  "unsynced_after b (Lk (ext_session_lock_v1_unlock_and_destroy _)) r = True"
| "unsynced_after b (Disp (wl_display_roundtrip _)) r = False"
| "unsynced_after b _ r = b"

fun leaving_allowed :: "bool \<Rightarrow> call \<Rightarrow> bool" where
  "leaving_allowed b (Disp (wl_display_disconnect _)) = (\<not> b)"
| "leaving_allowed b _ = True"

fun unsynced :: "log \<Rightarrow> bool" where
  "unsynced [] = False"
| "unsynced ((c, r) # h) = unsynced_after (unsynced h) c r"

fun sync_ok :: "log \<Rightarrow> bool" where
  "sync_ok [] = True"
| "sync_ok ((c, r) # h) = (sync_ok h \<and> leaving_allowed (unsynced h) c)"

interpretation sync: monitor unsynced sync_ok unsynced_after leaving_allowed
  by unfold_locales simp_all

text \<open>Only \<open>kl_context_destroy\<close> disconnects.\<close>

definition disconnects :: "call \<Rightarrow> bool" where
  "disconnects c \<longleftrightarrow> (\<exists>p. c = Disp (wl_display_disconnect p))"

lemma disconnects_simps [simp]:
  "\<not> disconnects (Lk l)" "\<not> disconnects (Sys s)" "\<not> disconnects (Cr k)" "\<not> disconnects (Wl w)"
  "disconnects (Disp d) \<longleftrightarrow> (\<exists>p. d = wl_display_disconnect p)"
  by (simp_all add: disconnects_def)

lemma stays_sync: "makes (\<lambda>c. \<not> disconnects c) m \<Longrightarrow> keeps sync_ok m"
proof (drule sync.makes_keeps [where S = "\<lambda>_. True"])
  fix b c r assume "\<not> disconnects c"
  then show "leaving_allowed b c \<and> True"
    by (cases "(b, c)" rule: leaving_allowed.cases) (auto simp: disconnects_def)
qed simp

lemma handler_stays: "handler_call c \<Longrightarrow> \<not> disconnects c"
  by (auto simp: handler_call_def disconnects_def bind_of_def)

lemma noncore_stays: "\<not> core c \<Longrightarrow> \<not> disconnects c"
  by (auto simp: disconnects_def)

text \<open>A roundtrip leaves nothing unsynced, whatever handlers it runs.\<close>

lemma handlers_synced: "makes handler_call m \<Longrightarrow> keeps (\<lambda>h. sync_ok h \<and> \<not> unsynced h) m"
proof (drule sync.makes_keeps [where S = "\<lambda>b. \<not> b"])
  fix b :: bool and c r assume "\<not> b" "handler_call c"
  then show "leaving_allowed b c \<and> \<not> unsynced_after b c r"
    by (cases "(b, c, r)" rule: unsynced_after.cases; cases "(b, c)" rule: leaving_allowed.cases)
       (auto simp: handler_call_def bind_of_def)
qed simp

lemma roundtrip_synced:
  assumes "sync_ok h" and "\<And>a h'. sync_ok h' \<Longrightarrow> \<not> unsynced h' \<Longrightarrow> Q a h'"
  shows "wp (dispatching E (wl_display_roundtrip d) ctx) Q h"
  unfolding dispatching_def wp_simps
  by (rule wp_call, rule wp_peek, rule keeps_wp [OF handlers_synced [OF dispatch_events_handler]])
     (use assms in auto)

lemma dispatching_stays: "\<not> disconnects (Disp c) \<Longrightarrow> makes (\<lambda>c. \<not> disconnects c) (dispatching E c ctx)"
  unfolding dispatching_def
  by (intro makes_intros makes_mono [OF dispatch_events_handler handler_stays])

lemmas surface_stays =
  attach_lock_noncore [THEN makes_mono, OF noncore_stays] detach_lock_noncore [THEN makes_mono, OF noncore_stays]
  attach_all_noncore [THEN makes_mono, OF noncore_stays] surface_destroy_noncore [THEN makes_mono, OF noncore_stays]

lemma leaves_synced:
  assumes "sync_ok h"
  shows "wp (if ctx_display ctx \<noteq> NULL
      then do { (r, ctx) \<leftarrow> dispatching E (wl_display_roundtrip (ctx_display ctx)) ctx;
                _ \<leftarrow> disp E (wl_display_disconnect (ctx_display ctx));
                ret_m (ctx\<lparr>ctx_display := NULL\<rparr>) }
      else ret_m ctx) (\<lambda>_. sync_ok) h"
  using assms by (auto simp: wp_simps intro!: roundtrip_synced wp_call)

lemma kl_context_destroy_sync: "keeps sync_ok (kl_context_destroy E ctx)"
  unfolding kl_context_destroy_def destroy_lock_def
  by (intro keeps_intros stays_sync [OF makes_map_m] surface_stays keepsI [OF leaves_synced]
      stays_sync [OF makes_ext]) simp_all

lemma kl_context_init_sync: "keeps sync_ok (kl_context_init E)"
  unfolding kl_context_init_def init_fails_def
  by (intro keeps_intros kl_context_destroy_sync stays_sync [OF makes_ext] stays_sync [OF dispatching_stays])
     simp_all

lemma wait_answer_stays: "makes (\<lambda>c. \<not> disconnects c) (wait_answer n E ctx)"
  by (induction n arbitrary: ctx) (auto intro!: makes_intros dispatching_stays)

lemma kl_context_lock_session_stays: "makes (\<lambda>c. \<not> disconnects c) (kl_context_lock_session n E ctx)"
  unfolding kl_context_lock_session_def lock_result_def
  by (intro makes_intros wait_answer_stays surface_stays) simp_all

lemma kl_context_unlock_session_stays: "makes (\<lambda>c. \<not> disconnects c) (kl_context_unlock_session E ctx)"
  unfolding kl_context_unlock_session_def
  by (intro makes_intros surface_stays dispatching_stays) simp_all

lemma prepare_loop_stays: "makes (\<lambda>c. \<not> disconnects c) (prepare_loop n E ctx)"
  by (induction n arbitrary: ctx) (auto intro!: makes_intros dispatching_stays)

lemma read_step_stays: "makes (\<lambda>c. \<not> disconnects c) (read_step E d e ctx)"
  unfolding read_step_def handle_ready_def
  by (intro makes_intros dispatching_stays) simp_all

lemma main_loop_stays: "makes (\<lambda>c. \<not> disconnects c) (main_loop n k E d e t ctx)"
  unfolding kl_get_monotonic_time_ns_def
  by (induction n arbitrary: ctx)
     (auto simp: kl_get_monotonic_time_ns_def intro!: makes_intros prepare_loop_stays read_step_stays)

text \<open>
  (C14) Whatever happens, the program closes its connection to the compositor only after a roundtrip
  that came later than every unlock request it made, as session-lock.h asks, on the ordinary way out
  as on every error exit.
\<close>

theorem kirilock_main_syncs:
  assumes "run_state (kirilock_main fuel E) [] = (r, h)"
  shows "sync_ok h"
proof -
  have "keeps sync_ok (kirilock_main fuel E)"
    unfolding kirilock_main_def run_locked_def unlock_and_fail_def loop_exit_def
      kl_cleanup_debug_resources_def kl_get_monotonic_time_ns_def
    by (intro keeps_intros kl_context_destroy_sync kl_context_init_sync stays_sync [OF main_loop_stays]
        stays_sync [OF kl_context_lock_session_stays] stays_sync [OF kl_context_unlock_session_stays]
        stays_sync [OF makes_ext]) simp_all
  then have "sync_ok (snd (run_state (kirilock_main fuel E) []))" by (simp add: keeps_def)
  then show ?thesis by (simp add: assms)
qed

theorem kirilock_main_syncs_witness:
  "sync_ok (snd (run_state (kirilock_main 3 (demo_env [EvLocked])) []))"
  by (rule kirilock_main_syncs [of 3 "demo_env [EvLocked]"]) (rule surjective_pairing)

end
