(* ===== verification/Surface_Protocol.thy ===== *)
theory Surface_Protocol
  imports Surface
begin

section \<open>The life of a lock surface\<close>

text \<open>
  What session-lock.h asks of a client for each output: one lock surface at a time
  (duplicate\_output), no buffer attached and no commit before the first configure event was
  acknowledged (commit\_before\_first\_ack and lines 479 to 481), no commit without a buffer
  (null\_buffer).  The rules are stated on the calls of one surface, the most recent first, by what has
  become of its lock surface.  A life of the surface is any sequence of calls and events from its
  creation on, in any order, with any answers; every life keeps the rules.
\<close>

subsection \<open>The rules\<close>

record lock_role =
  acked :: bool
  buffered :: bool

fun role_after :: "lock_role option \<Rightarrow> call \<Rightarrow> lock_role option" where
  "role_after role (Lk (ext_session_lock_v1_get_lock_surface _ _ _)) = Some \<lparr>acked = False, buffered = False\<rparr>"
| "role_after role (Lk (ext_session_lock_surface_v1_ack_configure _ _)) =
     map_option (\<lambda>r. r\<lparr>acked := True\<rparr>) role"
| "role_after role (Wl (wl_surface_attach _ buffer)) = map_option (\<lambda>r. r\<lparr>buffered := buffer \<noteq> NULL\<rparr>) role"
| "role_after role (Lk (ext_session_lock_surface_v1_destroy _)) = None"
| "role_after role (Wl (wl_surface_destroy _)) = None"
| "role_after role _ = role"

fun in_order :: "lock_role option \<Rightarrow> call \<Rightarrow> bool" where
  "in_order role (Lk (ext_session_lock_v1_get_lock_surface _ _ _)) \<longleftrightarrow> role = None"
| "in_order role (Lk (ext_session_lock_surface_v1_ack_configure _ _)) \<longleftrightarrow> role \<noteq> None"
| "in_order role (Wl (wl_surface_attach _ _)) \<longleftrightarrow> (case role of Some r \<Rightarrow> acked r | None \<Rightarrow> False)"
| "in_order role (Wl (wl_surface_commit _)) \<longleftrightarrow> (case role of Some r \<Rightarrow> acked r \<and> buffered r | None \<Rightarrow> False)"
| "in_order role _ \<longleftrightarrow> True"

fun role :: "call list \<Rightarrow> lock_role option" where
  "role [] = None"
| "role (c # cs) = role_after (role cs) c"

fun rules_kept :: "call list \<Rightarrow> bool" where
  "rules_kept [] = True"
| "rules_kept (c # cs) = (rules_kept cs \<and> in_order (role cs) c)"

text \<open>How the fields of the surface follow its calls.\<close>

definition on_track :: "kl_surface \<Rightarrow> call list \<Rightarrow> bool" where
  "on_track surf cs \<longleftrightarrow> rules_kept cs \<and> (role cs = None \<longleftrightarrow> surf_ext_lock_surface surf = NULL) \<and>
     (surf_configured surf \<longrightarrow> (\<exists>r. role cs = Some r \<and> acked r))"

lemma on_track_view: "surf_view surf' = surf_view surf \<Longrightarrow> on_track surf' cs = on_track surf cs"
  by (simp add: on_track_def surf_view_def)

text \<open>What becomes of the frame callback between the frame and the commit.\<close>

definition callback_calls :: "call list \<Rightarrow> bool" where
  "callback_calls cs \<longleftrightarrow>
     (\<forall>c \<in> set cs. \<exists>cb. c = Wl (wl_callback_add_listener cb) \<or> c = Wl (wl_callback_destroy cb))"

lemma frame_submitted_calls:
  assumes "frame_submitted surf b surf' h h'"
  obtains tail where "trace wire h' = frame_requests surf b tail @ trace wire h" "callback_calls tail"
proof (cases "surf_frame_pending surf'")
  case True
  with assms show ?thesis by (intro that) (auto simp: frame_submitted_def callback_calls_def)
next
  case False
  then have "trace wire h' = frame_requests surf b [] @ trace wire h \<or>
      (\<exists>cb. trace wire h' = frame_requests surf b
         [Wl (wl_callback_destroy cb), Wl (wl_callback_add_listener cb)] @ trace wire h)"
    using assms by (simp add: frame_submitted_def)
  then show ?thesis
  proof (elim disjE exE)
    assume "trace wire h' = frame_requests surf b [] @ trace wire h"
    then show ?thesis by (rule that) (simp add: callback_calls_def)
  next
    fix cb
    assume "trace wire h' = frame_requests surf b
      [Wl (wl_callback_destroy cb), Wl (wl_callback_add_listener cb)] @ trace wire h"
    then show ?thesis by (rule that) (simp add: callback_calls_def)
  qed
qed

lemma frame_on_track:
  assumes "on_track surf cs" and "surf_configured surf" and "b \<noteq> NULL" and "callback_calls tail"
  shows "on_track surf (frame_requests surf b tail @ cs)"
proof -
  obtain r where r: "role cs = Some r" "acked r" using assms(1,2) by (auto simp: on_track_def)
  have tail: "role (tail @ ds) = role ds \<and> rules_kept (tail @ ds) = rules_kept ds" for ds
    using assms(4) by (induction tail) (auto simp: callback_calls_def)
  show ?thesis
    using assms(1-3) r by (simp add: on_track_def frame_requests_def tail)
qed

lemma frame_outcome_on_track:
  assumes out: "frame_outcome surf surf' h h'" and ok: "on_track surf (trace wire h)"
    and view: "surf_view surf' = surf_view surf"
  shows "on_track surf' (trace wire h')"
proof (cases "trace wire h' = trace wire h")
  case True
  then show ?thesis by (simp add: ok on_track_view [OF view])
next
  case False
  then obtain b where c: "surf_configured surf" and b: "b \<noteq> NULL" and sub: "frame_submitted surf b surf' h h'"
    using out unfolding frame_outcome_def fits_surface_def by blast
  from frame_submitted_calls [OF sub] obtain tail
    where "trace wire h' = frame_requests surf b tail @ trace wire h" "callback_calls tail" by blast
  then show ?thesis by (simp add: on_track_view [OF view] frame_on_track [OF ok c b])
qed

subsection \<open>Operations and listeners\<close>

text \<open>The contract of a surface's operation, with the rules: it extends the one of theory \<open>Surface\<close>.\<close>

locale rule_keeper = surface_handler +
  assumes handle_track:
    "\<lbrakk>env_ok E; ledger h (F + surf_owned surf); surf_inv surf; ctx_live ctx F; able surf;
      on_track surf (trace wire h); \<And>r h'. on_track (get r) (trace wire h') \<Longrightarrow> Q r h'\<rbrakk> \<Longrightarrow>
      wp (handle E ctx surf) Q h"
begin

lemma handle_kept:
  assumes "env_ok E" and "ledger h (F + surf_owned surf)" and "surf_inv surf" and "ctx_live ctx F"
    and "able surf" and "on_track surf (trace wire h)"
    and Q: "\<And>r h'. \<lbrakk>ledger h' (F + surf_owned (get r)); surf_inv (get r); on_track (get r) (trace wire h')\<rbrakk> \<Longrightarrow> Q r h'"
  shows "wp (handle E ctx surf) Q h"
proof -
  have "wp (handle E ctx surf) (\<lambda>r h'. (ledger h' (F + surf_owned (get r)) \<and> surf_inv (get r)) \<and>
      on_track (get r) (trace wire h')) h"
    by (rule wp_conj; rule handle_ledger [OF assms(1-5)] handle_track [OF assms(1-6)]; blast)
  then show ?thesis by (rule wp_mono) (auto intro: Q)
qed

end

lemma render_frame_track:
  assumes "env_ok E" and "ledger h (F + surf_owned surf)" and "surf_inv surf" and "ctx_live ctx F"
    and ok: "on_track surf (trace wire h)" and Q: "\<And>surf' h'. on_track surf' (trace wire h') \<Longrightarrow> Q surf' h'"
  shows "wp (kl_surface_render_frame E ctx surf) Q h"
proof -
  have "wp (kl_surface_render_frame E ctx surf)
      (\<lambda>surf' h'. frame_outcome surf surf' h h' \<and> surf_view surf' = surf_view surf) h"
    by (rule wp_conj; rule render_frame_requests [OF assms(1-4)] kl_surface_render_frame_ledger [OF assms(1-4)])
       blast+
  then show ?thesis by (rule wp_mono) (auto intro: Q frame_outcome_on_track [OF _ ok])
qed

interpretation render_frame: rule_keeper kl_surface_render_frame "\<lambda>surf. surf" "\<lambda>_. True"
  by unfold_locales (rule render_frame_track)

lemma on_track_dirty [simp]: "on_track (surf\<lparr>surf_dirty := d\<rparr>) cs = on_track surf cs"
  by (simp add: on_track_def)

lemma request_render_track:
  assumes "env_ok E" and "ledger h (F + surf_owned surf)" and "surf_inv surf" and "ctx_live ctx F"
    and "on_track surf (trace wire h)" and "\<And>surf' h'. on_track surf' (trace wire h') \<Longrightarrow> Q surf' h'"
  shows "wp (kl_surface_request_render E ctx surf) Q h"
  unfolding kl_surface_request_render_def Let_def wp_if wp_return
  using assms render_frame_track [OF assms(1) _ _ assms(4), of h "surf\<lparr>surf_dirty := True\<rparr>" Q]
  by (simp add: dirty_keeps)

interpretation request_render: rule_keeper kl_surface_request_render "\<lambda>surf. surf" "\<lambda>_. True"
  by unfold_locales (rule request_render_track)

interpretation output_scale: rule_keeper
    "\<lambda>E ctx surf. kl_output_handle_scale E ctx surf factor" "\<lambda>surf. surf" "\<lambda>_. True" for factor
  by unfold_locales
     (auto simp: kl_output_handle_scale_def wp_simps scale_keeps on_track_def intro!: request_render_track)

lemma wp_ext_track:
  assumes "env_ok E" and "ledger h L" and "permitted L c"
    and Q: "\<And>r h'. \<lbrakk>ret_ok c r; ledger h' (transfer L c r);
      trace wire h' = (if wire c then [c] else []) @ trace wire h\<rbrakk> \<Longrightarrow> Q r h'"
  shows "wp (ext E c) Q h"
proof -
  have "wp (ext E c) (\<lambda>r h'. (ret_ok c r \<and> ledger h' (transfer L c r)) \<and>
      trace wire h' = (if wire c then [c] else []) @ trace wire h) h"
    by (rule wp_conj [OF wp_ext_ledger [OF assms(1-3)] wp_ext_trace [of wire]]) simp_all
  then show ?thesis by (rule wp_mono) (auto intro: Q)
qed

interpretation frame_done: rule_keeper
    "\<lambda>E ctx surf. kl_surface_frame_handle_done E ctx (Some surf) (surf_frame_callback surf)" the
    "\<lambda>_. True"
proof
  fix E h F surf ctx and Q :: "kl_surface option \<Rightarrow> log \<Rightarrow> bool"
  assume E: "env_ok E" and h: "ledger h (F + surf_owned surf)" and inv: "surf_inv surf"
    and ctx: "ctx_live ctx F" and ok: "on_track surf (trace wire h)"
    and Q: "\<And>r h'. on_track (the r) (trace wire h') \<Longrightarrow> Q r h'"
  let ?surf = "surf\<lparr>surf_frame_callback := NULL, surf_frame_pending := False\<rparr>"
  have fin: "wp (kl_surface_render_frame E ctx ?surf) (\<lambda>surf. Q (Some surf)) h'"
    if "ledger h' (F + surf_owned ?surf)" "on_track surf (trace wire h')" for h'
    by (rule render_frame_track [OF E that(1) _ ctx])
       (use that(2) in \<open>simp_all add: frame_done_keeps(1) inv Q on_track_def\<close>)
  show "wp (kl_surface_frame_handle_done E ctx (Some surf) (surf_frame_callback surf)) Q h"
  proof (cases "surf_frame_callback surf = NULL")
    case True
    then show ?thesis
      using h ok frame_done_keeps(3) [OF inv] by (simp add: kl_surface_frame_handle_done_def wp_simps fin)
  next
    case False
    have "wp (wl E (wl_callback_destroy (surf_frame_callback surf)))
        (\<lambda>_. wp (kl_surface_render_frame E ctx ?surf) (\<lambda>surf. Q (Some surf))) h"
      by (rule wp_ext_track [OF E h [unfolded frame_done_keeps(3) [OF inv]]])
         (use False ok in \<open>auto simp: ledger_simps own_nonnull on_track_def intro!: fin\<close>)
    with False show ?thesis by (simp add: kl_surface_frame_handle_done_def wp_simps)
  qed
qed

interpretation buffer_release: rule_keeper kl_surface_on_buffer_release "\<lambda>surf. surf" "\<lambda>_. True"
  by unfold_locales (auto simp: kl_surface_on_buffer_release_def wp_simps intro!: render_frame_track)

interpretation buffer_released: rule_keeper
    "\<lambda>E ctx surf. surface_buffer_released E ctx surf idx" "\<lambda>surf. surf" "\<lambda>_. idx < 3" for idx
proof
  fix E h F surf ctx and Q :: "kl_surface \<Rightarrow> log \<Rightarrow> bool"
  assume E: "env_ok E" and h: "ledger h (F + surf_owned surf)" and inv: "surf_inv surf"
    and ctx: "ctx_live ctx F" and idx: "idx < 3" and ok: "on_track surf (trace wire h)"
    and Q: "\<And>r h'. on_track r (trace wire h') \<Longrightarrow> Q r h'"
  note keeps = released_keeps [OF inv idx]
  let ?surf = "put_buf surf idx ((surf_buffers surf ! idx)\<lparr>buf_busy := 0\<rparr>)"
  have ok': "on_track ?surf (trace wire h)" using ok by (simp add: on_track_def)
  have "wp (kl_surface_on_buffer_release E ctx ?surf) Q h"
    by (rule buffer_release.handle_track [OF E _ keeps(1) ctx _ ok']) (simp_all add: h keeps Q)
  then show "wp (surface_buffer_released E ctx surf idx) Q h"
    using ok' by (simp add: surface_buffer_released_def kl_buffer_handle_release_def Let_def wp_simps Q)
qed

interpretation configure: rule_keeper
    "\<lambda>E ctx surf. kl_lock_surface_handle_configure E ctx surf (surf_ext_lock_surface surf)
       serial width height" "\<lambda>surf. surf" "\<lambda>surf. surf_ext_lock_surface surf \<noteq> NULL" for serial width height
proof
  fix E h F surf ctx and Q :: "kl_surface \<Rightarrow> log \<Rightarrow> bool"
  assume E: "env_ok E" and h: "ledger h (F + surf_owned surf)" and inv: "surf_inv surf"
    and ctx: "ctx_live ctx F" and ext: "surf_ext_lock_surface surf \<noteq> NULL"
    and ok: "on_track surf (trace wire h)" and Q: "\<And>r h'. on_track r (trace wire h') \<Longrightarrow> Q r h'"
  let ?surf = "surf\<lparr>surf_width := width, surf_height := height, surf_configured := True\<rparr>"
  have keeps: "surf_inv ?surf" "surf_owned ?surf = surf_owned surf"
    using inv ext by (auto simp: surf_inv_def owned_defs)
  have "wp (lk E (ext_session_lock_surface_v1_ack_configure (surf_ext_lock_surface surf) serial))
      (\<lambda>_. wp (kl_surface_request_render E ctx ?surf) Q) h"
  proof (rule wp_ext_track [OF E h])
    show "permitted (F + surf_owned surf)
        (Lk (ext_session_lock_surface_v1_ack_configure (surf_ext_lock_surface surf) serial))"
      using ext by (simp add: ledger_simps owned_defs own_nonnull)
    fix r h'
    assume "ledger h' (transfer (F + surf_owned surf)
        (Lk (ext_session_lock_surface_v1_ack_configure (surf_ext_lock_surface surf) serial)) r)"
      and t: "trace wire h' = (if wire (Lk (ext_session_lock_surface_v1_ack_configure
        (surf_ext_lock_surface surf) serial)) then [Lk (ext_session_lock_surface_v1_ack_configure
        (surf_ext_lock_surface surf) serial)] else []) @ trace wire h"
    then have "ledger h' (F + surf_owned ?surf)" by (simp add: ledger_simps keeps)
    moreover have "on_track ?surf (trace wire h')" using ok ext by (auto simp: t on_track_def)
    ultimately show "wp (kl_surface_request_render E ctx ?surf) Q h'"
      by (intro request_render_track [OF E _ keeps(1) ctx] Q)
  qed
  then show "wp (kl_lock_surface_handle_configure E ctx surf (surf_ext_lock_surface surf) serial width height) Q h"
    using ext by (simp add: kl_lock_surface_handle_configure_def wp_simps)
qed

interpretation attach_lock: rule_keeper kl_surface_attach_lock snd "\<lambda>_. True"
proof
  fix E h F surf ctx and Q :: "int \<times> kl_surface \<Rightarrow> log \<Rightarrow> bool"
  assume inv: "surf_inv surf" and ok: "on_track surf (trace wire h)"
    and Q: "\<And>r h'. on_track (snd r) (trace wire h') \<Longrightarrow> Q r h'"
  show "wp (kl_surface_attach_lock E ctx surf) Q h"
  proof (cases "surf_ext_lock_surface surf = NULL")
    case True
    then have "\<not> surf_configured surf" using inv by (auto simp: surf_inv_def)
    with True ok show ?thesis
      unfolding kl_surface_attach_lock_def wp_simps
      by (auto simp: wp_simps trace_Cons on_track_def intro!: Q wp_ext)
  next
    case False
    then show ?thesis using ok unfolding kl_surface_attach_lock_def by (auto simp: wp_simps intro!: Q)
  qed
qed

interpretation detach_lock: rule_keeper "\<lambda>E ctx surf. kl_surface_detach_lock E surf" "\<lambda>surf. surf" "\<lambda>_. True"
proof
  fix E h F surf ctx and Q :: "kl_surface \<Rightarrow> log \<Rightarrow> bool"
  assume "env_ok E" "ledger h (F + surf_owned surf)" "surf_inv surf"
    "\<And>r h'. \<lbrakk>ledger h' (F + surf_owned r); surf_inv r; surf_link r = surf_link surf\<rbrakk> \<Longrightarrow> Q r h'"
  then show "wp (kl_surface_detach_lock E surf) Q h" by (rule kl_surface_detach_lock_ledger)
next
  fix E h F surf ctx and Q :: "kl_surface \<Rightarrow> log \<Rightarrow> bool"
  assume inv: "surf_inv surf" and ok: "on_track surf (trace wire h)"
    and Q: "\<And>r h'. on_track r (trace wire h') \<Longrightarrow> Q r h'"
  have ws: "surf_wl_surface surf = NULL \<longleftrightarrow> surf_ext_lock_surface surf = NULL" using inv by (simp add: surf_inv_def)
  have buffers: "wp (map_m (kl_buffer_destroy E) bs) R g" if "\<And>a g'. trace wire g' = trace wire g \<Longrightarrow> R a g'" for bs R g
    by (rule wp_makes_trace [OF makes_map_m [OF kl_buffer_destroy_quiet]]) (rule that)
  show "wp (kl_surface_detach_lock E surf) Q h"
    unfolding kl_surface_detach_lock_def wp_simps
    using ok ws by (auto simp: wp_simps trace_Cons on_track_def intro!: buffers wp_ext Q)
qed

subsection \<open>The life of a surface\<close>

datatype surface_op =
  Attach_lock | Detach_lock | Request_render | Configure u32 u32 u32 | Frame_done | Released nat | Scale int

text \<open>An event reaches its listener only while the surface has the object that it is for, as in
  \<open>dispatch_event\<close>.\<close>

definition surface_do :: "env \<Rightarrow> kl_context \<Rightarrow> surface_op \<Rightarrow> kl_surface \<Rightarrow> (log, kl_surface) state" where
  "surface_do E ctx op surf =
     (case op of
        Attach_lock \<Rightarrow> do { (r, surf) \<leftarrow> kl_surface_attach_lock E ctx surf; ret_m surf }
      | Detach_lock \<Rightarrow> kl_surface_detach_lock E surf
      | Request_render \<Rightarrow> kl_surface_request_render E ctx surf
      | Configure serial width height \<Rightarrow>
          if surf_ext_lock_surface surf \<noteq> NULL
          then kl_lock_surface_handle_configure E ctx surf (surf_ext_lock_surface surf) serial width height
          else ret_m surf
      | Frame_done \<Rightarrow>
          if surf_frame_callback surf \<noteq> NULL
          then do { r \<leftarrow> kl_surface_frame_handle_done E ctx (Some surf) (surf_frame_callback surf); ret_m (the r) }
          else ret_m surf
      | Released i \<Rightarrow>
          if i < KL_SURFACE_BUFFER_COUNT \<and> buf_wl_buffer (surf_buffers surf ! i) \<noteq> NULL
          then surface_buffer_released E ctx surf i else ret_m surf
      | Scale factor \<Rightarrow> kl_output_handle_scale E ctx surf factor)"

inductive surface_life :: "env \<Rightarrow> resource multiset \<Rightarrow> kl_surface \<Rightarrow> log \<Rightarrow> bool" for E F where
  created: "\<lbrakk>safe h; live h = add_mset (Proxy output) F; role (trace wire h) = None; rules_kept (trace wire h);
      run_state (kl_surface_create E ctx_ptr output name) h = (Some surf, h')\<rbrakk> \<Longrightarrow> surface_life E F surf h'"
| moves: "\<lbrakk>surface_life E F surf h; ctx_live ctx F; run_state (surface_do E ctx op surf) h = (surf', h')\<rbrakk>
      \<Longrightarrow> surface_life E F surf' h'"

definition surface_kept :: "resource multiset \<Rightarrow> kl_surface \<Rightarrow> log \<Rightarrow> bool" where
  "surface_kept F surf h \<longleftrightarrow> ledger h (F + surf_owned surf) \<and> surf_inv surf \<and> on_track surf (trace wire h)"

lemma surface_do_keeps:
  assumes E: "env_ok E" and k: "surface_kept F surf h" and ctx: "ctx_live ctx F"
  shows "wp (surface_do E ctx op surf) (surface_kept F) h"
proof -
  note st = k [unfolded surface_kept_def]
  show ?thesis
    using E ctx st unfolding surface_do_def
    by (cases op)
       (auto simp: wp_simps KL_SURFACE_BUFFER_COUNT_def surface_kept_def split: prod.splits intro!:
         attach_lock.handle_kept detach_lock.handle_kept request_render.handle_kept configure.handle_kept
         frame_done.handle_kept buffer_released.handle_kept output_scale.handle_kept)
qed

lemma kl_surface_create_quiet: "makes (\<lambda>c. \<not> wire c) (kl_surface_create E ctx output name)"
  unfolding kl_surface_create_def kl_render_engine_create_def by (intro makes_intros) simp_all

lemma surface_life_kept:
  assumes E: "env_ok E"
  shows "surface_life E F surf h \<Longrightarrow> surface_kept F surf h"
proof (induction rule: surface_life.induct)
  case (created h out ctx_ptr name surf h')
  have "wp (kl_surface_create E ctx_ptr out name)
      (\<lambda>r h'. case r of None \<Rightarrow> True | Some surf \<Rightarrow> surface_kept F surf h') h"
  proof (rule wp_trace_kept [OF kl_surface_create_quiet], rule kl_surface_create_ledger [OF E])
    show "ledger h (add_mset (Proxy out) F)" by (rule ledgerI [OF created(1,2)])
  next
    fix surf h'
    assume "ledger h' (add_mset (Proxy out) F - {#Proxy out#} + surf_owned surf)" "surf_inv surf"
      "surf_ext_lock_surface surf = NULL"
    then show "trace wire h' = trace wire h \<longrightarrow>
        (case Some surf of None \<Rightarrow> True | Some surf \<Rightarrow> surface_kept F surf h')"
      using created(3,4) by (auto simp: surface_kept_def on_track_def surf_inv_def)
  qed simp_all
  from wp_run [OF this created(5)] show ?case by simp
next
  case (moves surf h ctx op surf' h')
  then show ?case using wp_run [OF surface_do_keeps [OF E moves(4,2)] moves(3)] by simp
qed

text \<open>A list of operations in one context.\<close>

fun surface_run :: "env \<Rightarrow> kl_context \<Rightarrow> surface_op list \<Rightarrow> kl_surface \<Rightarrow> (log, kl_surface) state" where
  "surface_run E ctx [] surf = ret_m surf"
| "surface_run E ctx (op # ops) surf = do { surf \<leftarrow> surface_do E ctx op surf; surface_run E ctx ops surf }"

lemma surface_run_life:
  "\<lbrakk>surface_life E F surf h; ctx_live ctx F; run_state (surface_run E ctx ops surf) h = (surf', h')\<rbrakk> \<Longrightarrow>
   surface_life E F surf' h'"
proof (induction ops arbitrary: surf h)
  case (Cons op ops)
  obtain surf1 h1 where 1: "run_state (surface_do E ctx op surf) h = (surf1, h1)" by fastforce
  show ?case
    by (rule Cons.IH [OF surface_life.moves [OF Cons.prems(1,2) 1] Cons.prems(2)]) (use Cons.prems(3) 1 in simp)
qed simp

subsection \<open>Property\<close>

text \<open>
  (C18) Whatever calls and events an output's surface goes through, in whatever order and with whatever
  answers, its requests keep the rules of the lock surface: one lock surface at a time, no buffer and
  no commit before a configure event of that lock surface was acknowledged, no commit without a
  buffer.  All along it uses only live objects, and what it owns is accounted for.
\<close>

theorem surface_life_keeps_rules:
  assumes "env_ok E" and "surface_life E F surf h"
  shows "rules_kept (trace wire h) \<and> safe h \<and> live h = F + surf_owned surf \<and>
    (surf_configured surf \<longrightarrow> (\<exists>r. role (trace wire h) = Some r \<and> acked r))"
  using surface_life_kept [OF assms] by (simp add: surface_kept_def on_track_def ledger_def)

definition a_life :: "surface_op list" where
  "a_life = [Scale 2, Attach_lock, Configure 1 64 48, Frame_done, Scale 1, Detach_lock, Attach_lock, Configure 2 32 32]"

theorem surface_life_keeps_rules_witness:
  "let h = snd (run_state (do { s \<leftarrow> kl_surface_create sample_env 9 7 1; surface_run sample_env sample_ctx a_life (the s) })
     (drop 4 surface_log))
   in rules_kept (trace wire h) \<and> length (filter (\<lambda>c. c = Wl (wl_surface_commit 7)) (trace wire h)) = 3"
proof -
  let ?create = "kl_surface_create sample_env 9 7 1"
  obtain s h1 where c: "run_state ?create (drop 4 surface_log) = (s, h1)" by fastforce
  obtain surf h where r: "run_state (surface_run sample_env sample_ctx a_life (the s)) h1 = (surf, h)" by fastforce
  have "s \<noteq> None" using c by (auto simp: kl_surface_create_def kl_render_engine_create_def sample_ret_def)
  then have c': "run_state ?create (drop 4 surface_log) = (Some (the s), h1)" using c by simp
  have "surface_life sample_env sample_rest (the s) h1"
    by (rule surface_life.created [OF _ _ _ _ c'])
       (simp_all add: surface_log_def sample_log_def sample_rest_def ledger_simps trace_def add_mset_commute)
  from surface_run_life [OF this sample_ctx_live r]
  have "rules_kept (trace wire h)" using surface_life_keeps_rules [OF sample_env_ok] by blast
  moreover have "length (filter (\<lambda>c. c = Wl (wl_surface_commit 7)) (trace wire (snd (run_state
      (do { s \<leftarrow> ?create; surface_run sample_env sample_ctx a_life (the s) }) (drop 4 surface_log))))) = 3"
    by code_simp
  ultimately show ?thesis by (simp add: c r)
qed

end
