(* ===== verification/Machine.thy ===== *)
theory Machine
  imports Prelude
begin

section \<open>Machines of interleaved threads\<close>

text \<open>
  The authentication modules run several threads on shared atomics.  They are modelled as machines:
  a step function takes a label, which says which thread moves and what the outside world answers,
  and a state, and gives the next state, or \<open>None\<close> when that thread cannot move.  One step is
  at most one access to a shared variable, so every interleaving of the C threads is a sequence of
  labels; \<open>exec\<close> runs such a sequence and \<open>reach\<close> is what some sequence leads to.

  The contracts of invariants and of simulations between machines are locales; each machine
  interprets them.
\<close>

inductive reach :: "('s \<Rightarrow> bool) \<Rightarrow> ('l \<Rightarrow> 's \<Rightarrow> 's option) \<Rightarrow> 's \<Rightarrow> bool" for init step where
  initial: "init s \<Longrightarrow> reach init step s"
| moves: "reach init step s \<Longrightarrow> step l s = Some s' \<Longrightarrow> reach init step s'"

fun exec :: "('l \<Rightarrow> 's \<Rightarrow> 's option) \<Rightarrow> 'l list \<Rightarrow> 's \<Rightarrow> 's option" where
  "exec step [] s = Some s"
| "exec step (l # ls) s = (case step l s of None \<Rightarrow> None | Some s' \<Rightarrow> exec step ls s')"

lemma exec_reach: "reach init step s \<Longrightarrow> exec step ls s = Some s' \<Longrightarrow> reach init step s'"
  by (induction ls arbitrary: s) (auto intro: reach.moves split: option.splits)

lemma exec_from_init: "init s \<Longrightarrow> exec step ls s = Some s' \<Longrightarrow> reach init step s'"
  using exec_reach [of init step s ls s'] reach.initial [of init s step] by blast

lemma exec_append:
  "exec step (ks @ ls) s = (case exec step ks s of None \<Rightarrow> None | Some s' \<Rightarrow> exec step ls s')"
  by (induction ks arbitrary: s) (auto split: option.splits)

lemma reach_exec: "reach init step s' \<Longrightarrow> \<exists>s ls. init s \<and> exec step ls s = Some s'"
proof (induction rule: reach.induct)
  case (initial s)
  then show ?case by (metis exec.simps(1))
next
  case (moves s l s')
  then obtain s0 ls where "init s0" "exec step ls s0 = Some s" by blast
  then have "exec step (ls @ [l]) s0 = Some s'"
    using moves(2) by (simp add: exec_append)
  with \<open>init s0\<close> show ?case by blast
qed

text \<open>An invariant may rest on what is known of every reachable state.\<close>

locale machine_invariant =
  fixes init :: "'s \<Rightarrow> bool" and step :: "'l \<Rightarrow> 's \<Rightarrow> 's option" and I :: "'s \<Rightarrow> bool"
  assumes init_holds: "init s \<Longrightarrow> I s"
    and step_keeps: "reach init step s \<Longrightarrow> I s \<Longrightarrow> step l s = Some s' \<Longrightarrow> I s'"
begin

lemma holds: "reach init step s \<Longrightarrow> I s"
  by (induction rule: reach.induct) (auto intro: init_holds step_keeps)

lemma holds_after: "init s \<Longrightarrow> exec step ls s = Some s' \<Longrightarrow> I s'"
  using holds [OF exec_from_init] by blast

end

text \<open>
  A simulation: each step of the concrete machine is a run of the abstract one, perhaps an empty one.
  The proof of a step may use that the abstract state is reachable, hence every invariant of the
  abstract machine.
\<close>

locale machine_path_simulation =
  fixes init :: "'s \<Rightarrow> bool" and step :: "'l \<Rightarrow> 's \<Rightarrow> 's option"
    and ainit :: "'a \<Rightarrow> bool" and astep :: "'k \<Rightarrow> 'a \<Rightarrow> 'a option" and abs :: "'s \<Rightarrow> 'a"
  assumes init_abs: "init s \<Longrightarrow> ainit (abs s)"
    and step_path: "reach init step s \<Longrightarrow> reach ainit astep (abs s) \<Longrightarrow> step l s = Some s' \<Longrightarrow>
      \<exists>ks. exec astep ks (abs s) = Some (abs s')"
begin

lemma reach_abs: "reach init step s \<Longrightarrow> reach ainit astep (abs s)"
proof (induction rule: reach.induct)
  case (initial s)
  then show ?case by (intro reach.initial init_abs)
next
  case (moves s l s')
  from step_path [OF moves(1) moves(3) moves(2)] obtain ks where "exec astep ks (abs s) = Some (abs s')" by blast
  with moves(3) show ?case by (rule exec_reach)
qed

lemma invariant_transfers:
  "machine_invariant ainit astep J \<Longrightarrow> reach init step s \<Longrightarrow> J (abs s)"
  by (rule machine_invariant.holds [OF _ reach_abs])

end

text \<open>The usual case: a step of the concrete machine is at most one step of the abstract one.\<close>

locale machine_simulation =
  fixes init :: "'s \<Rightarrow> bool" and step :: "'l \<Rightarrow> 's \<Rightarrow> 's option"
    and ainit :: "'a \<Rightarrow> bool" and astep :: "'k \<Rightarrow> 'a \<Rightarrow> 'a option" and abs :: "'s \<Rightarrow> 'a"
  assumes init_simulated: "init s \<Longrightarrow> ainit (abs s)"
    and step_simulated: "reach init step s \<Longrightarrow> step l s = Some s' \<Longrightarrow>
      abs s' = abs s \<or> (\<exists>k. astep k (abs s) = Some (abs s'))"

lemma exec_stutter:
  assumes "s' = s \<or> (\<exists>l. step l s = Some s')"
  shows "\<exists>ls. exec step ls s = Some s'"
  using assms
proof (elim disjE exE)
  assume "s' = s"
  then have "exec step [] s = Some s'" by simp
  then show ?thesis by blast
next
  fix l assume "step l s = Some s'"
  then have "exec step [l] s = Some s'" by simp
  then show ?thesis by blast
qed

sublocale machine_simulation \<subseteq> machine_path_simulation
proof unfold_locales
  show "init s \<Longrightarrow> ainit (abs s)" for s by (rule init_simulated)
  show "\<exists>ks. exec astep ks (abs s) = Some (abs s')" if "reach init step s" "step l s = Some s'" for l s s'
    using step_simulated [OF that] by (rule exec_stutter)
qed

text \<open>
  Winding up: from the states of \<open>I\<close> on, the steps that count lower a rank and the others do not raise
  it, whatever threads and environment do by the labels allowed; so only so many of them are left.  A
  run that ends in an unsound state, after a fault, is not considered.  In \<open>must_end\<close> moreover some
  step that counts is possible until the end is reached: every run that goes on as long as it can
  reaches the end.
\<close>

locale winding_up =
  fixes step :: "'l \<Rightarrow> 's \<Rightarrow> 's option" and allowed :: "'l \<Rightarrow> bool" and counts :: "'l \<Rightarrow> bool"
    and sound :: "'s \<Rightarrow> bool" and I :: "'s \<Rightarrow> bool" and rank :: "'s \<Rightarrow> nat"
  assumes fault_final: "step l s = Some s' \<Longrightarrow> sound s' \<Longrightarrow> sound s"
    and winds_up: "I s \<Longrightarrow> step l s = Some s' \<Longrightarrow> allowed l \<Longrightarrow> sound s' \<Longrightarrow>
      I s' \<and> (if counts l then Suc (rank s') else rank s') \<le> rank s"
begin

lemma sound_before: "exec step ls s = Some s' \<Longrightarrow> sound s' \<Longrightarrow> sound s"
  by (induction ls arbitrary: s) (auto split: option.splits intro: fault_final)

lemma bounded:
  "I s \<Longrightarrow> exec step ls s = Some s' \<Longrightarrow> \<forall>l \<in> set ls. allowed l \<Longrightarrow> sound s' \<Longrightarrow>
   I s' \<and> length (filter counts ls) + rank s' \<le> rank s"
proof (induction ls arbitrary: s)
  case (Cons l ls)
  then obtain s1 where s1: "step l s = Some s1" "exec step ls s1 = Some s'"
    by (auto split: option.splits)
  have "sound s1" using sound_before [OF s1(2) Cons.prems(4)] .
  with winds_up [OF Cons.prems(1) s1(1)] Cons.prems(3,4) Cons.IH [OF _ s1(2)]
  show ?case by (auto split: if_splits)
qed simp

end

locale must_end = winding_up +
  fixes finished :: "'s \<Rightarrow> bool"
  assumes goes_on: "I s \<Longrightarrow> sound s \<Longrightarrow> \<not> finished s \<Longrightarrow> \<exists>l s'. allowed l \<and> counts l \<and> step l s = Some s'"
begin

lemma ends:
  assumes "I s" and "exec step ls s = Some s'" and "\<forall>l \<in> set ls. allowed l" and "sound s'"
  shows "length (filter counts ls) \<le> rank s \<and>
    (finished s' \<or> (\<exists>l s''. allowed l \<and> counts l \<and> step l s' = Some s''))"
  using bounded [OF assms] goes_on [of s'] assms(4) by fastforce

end

end
