(* ===== verification/Gate.thy ===== *)
theory Gate
  imports Machine
begin

section \<open>The specification of an authentication front end: a gate\<close>

text \<open>
  What an authentication program promises: it opens only after somebody has presented a proof, and its
  exit code says whether it is open.  \<open>front_end\<close> is the contract by which a program implements the
  gate, in terms of what it counts as a proof, when it is open and what it returns; the programs of
  \<open>Coordinator\<close> and \<open>Authenticator\<close> interpret it.
\<close>

record gate =
  gate_proof :: bool
  gate_open :: bool
  gate_result :: "int option"

datatype gate_label = Present | Admit | Close

fun gate_step :: "gate_label \<Rightarrow> gate \<Rightarrow> gate option" where
  "gate_step Present g = Some (g\<lparr>gate_proof := True\<rparr>)"
| "gate_step Admit g = (if gate_proof g then Some (g\<lparr>gate_open := True\<rparr>) else None)"
| "gate_step Close g =
     (if gate_result g = None then Some (g\<lparr>gate_result := Some (if gate_open g then 0 else 1)\<rparr>) else None)"

definition gate_initial :: "gate \<Rightarrow> bool" where
  "gate_initial g \<longleftrightarrow> \<not> gate_open g \<and> gate_result g = None"

definition gate_safe :: "gate \<Rightarrow> bool" where
  "gate_safe g \<longleftrightarrow> (gate_open g \<longrightarrow> gate_proof g) \<and> (\<forall>r. gate_result g = Some r \<longrightarrow> r = 0 \<and> gate_open g \<or> r = 1)"

interpretation gate_spec: machine_invariant gate_initial gate_step gate_safe
proof
  show "gate_initial g \<Longrightarrow> gate_safe g" for g by (simp add: gate_initial_def gate_safe_def)
  show "gate_safe g \<Longrightarrow> gate_step l g = Some g' \<Longrightarrow> gate_safe g'" for l g g'
    by (cases l) (auto simp: gate_safe_def split: if_splits)
qed

definition gate_view :: "('s \<Rightarrow> bool) \<Rightarrow> ('s \<Rightarrow> bool) \<Rightarrow> ('s \<Rightarrow> int option) \<Rightarrow> 's \<Rightarrow> gate" where
  "gate_view proved opened result s = \<lparr>gate_proof = proved s, gate_open = opened s, gate_result = result s\<rparr>"

locale front_end =
  fixes init :: "'s \<Rightarrow> bool" and step :: "'l \<Rightarrow> 's \<Rightarrow> 's option"
    and proved :: "'s \<Rightarrow> bool" and opened :: "'s \<Rightarrow> bool" and result :: "'s \<Rightarrow> int option"
  assumes starts_closed: "init s \<Longrightarrow> \<not> opened s \<and> result s = None"
    and stays_proved: "reach init step s \<Longrightarrow> step l s = Some s' \<Longrightarrow> proved s \<Longrightarrow> proved s'"
    and step_kinds: "reach init step s \<Longrightarrow> step l s = Some s' \<Longrightarrow>
      opened s' = opened s \<and> result s' = result s \<or>
      proved s \<and> opened s' \<and> result s' = result s \<or>
      opened s' = opened s \<and> proved s' = proved s \<and> result s = None \<and>
        result s' = Some (if opened s then 0 else 1)"
begin

lemma gate_moves:
  assumes r: "reach init step s" and st: "step l s = Some s'"
  shows "gate_view proved opened result s' = gate_view proved opened result s \<or>
    (\<exists>k. gate_step k (gate_view proved opened result s) = Some (gate_view proved opened result s'))"
proof -
  let ?g = "gate_view proved opened result"
  note mono = stays_proved [OF r st]
  from step_kinds [OF r st] show ?thesis
  proof (elim disjE conjE)
    assume "opened s' = opened s" "result s' = result s"
    then have "?g s' = ?g s \<or> gate_step Present (?g s) = Some (?g s')"
      using mono by (auto simp: gate_view_def)
    then show ?thesis by blast
  next
    assume "proved s" "opened s'" "result s' = result s"
    then have "gate_step Admit (?g s) = Some (?g s')" using mono by (simp add: gate_view_def)
    then show ?thesis by blast
  next
    assume "opened s' = opened s" "proved s' = proved s" "result s = None"
      "result s' = Some (if opened s then 0 else 1)"
    then have "gate_step Close (?g s) = Some (?g s')" by (simp add: gate_view_def)
    then show ?thesis by blast
  qed
qed

end

sublocale front_end \<subseteq> machine_simulation init step gate_initial gate_step "gate_view proved opened result"
proof
  show "init s \<Longrightarrow> gate_initial (gate_view proved opened result s)" for s
    using starts_closed by (simp add: gate_initial_def gate_view_def)
qed (rule gate_moves)

context front_end
begin

lemma returns_truth:
  assumes "reach init step s" and "result s = Some r"
  shows "r = 0 \<and> opened s \<and> proved s \<or> r = 1"
proof -
  have "gate_safe (gate_view proved opened result s)"
    by (rule gate_spec.holds [OF reach_abs [OF assms(1)]])
  then show ?thesis using assms(2) by (auto simp: gate_safe_def gate_view_def)
qed

end

end
