(* ===== verification/Terminal.thy ===== *)
theory Terminal
  imports Machine
begin

section \<open>The terminal of the authentication programs\<close>

text \<open>
  Both programs read keys from a terminal that they switch to raw input: \<open>console_input_start\<close> saves
  its settings, clears echo and line buffering and leaves \<open>restore_tty\<close> to be run at exit.  The two
  functions are the same in src/auth.back/example/main.c and in src/libs/auth/example/main.cpp (lines 34
  to 48); \<open>raw_terminal\<close> is the contract of a program that uses them.
\<close>

subsection \<open>Settings\<close>

record termios =
  c_lflag :: u32
  c_rest :: int

definition ICANON :: u32 where "ICANON = 2"
definition ECHO :: u32 where "ECHO = 8"

text \<open>The settings of the terminal on standard input, if it is one, and the two global variables.\<close>

record console =
  tty :: "termios option"
  g_orig_termios :: termios
  g_termios_saved :: bool

definition tcgetattr :: "termios option \<Rightarrow> termios \<Rightarrow> termios" where
  "tcgetattr device dest = (case device of Some t \<Rightarrow> t | None \<Rightarrow> dest)"

definition tcsetattr :: "termios option \<Rightarrow> termios \<Rightarrow> termios option" where
  "tcsetattr device t = (case device of Some _ \<Rightarrow> Some t | None \<Rightarrow> None)"

definition restore_tty :: "console \<Rightarrow> console" where
  "restore_tty con =
     (if g_termios_saved con then con\<lparr>tty := tcsetattr (tty con) (g_orig_termios con)\<rparr> else con)"

definition console_input_start :: "console \<Rightarrow> console" where
  "console_input_start con =
     (let con = con\<lparr>g_orig_termios := tcgetattr (tty con) (g_orig_termios con)\<rparr>;
          con = con\<lparr>g_termios_saved := True\<rparr>;
          raw = g_orig_termios con;
          raw = raw\<lparr>c_lflag := and (c_lflag raw) (not (or ECHO ICANON))\<rparr>
      in con\<lparr>tty := tcsetattr (tty con) raw\<rparr>)"

text \<open>Static data starts as zeros, and each program calls \<open>console_input_start\<close> once, before it reads.\<close>

definition no_termios :: termios where
  "no_termios = \<lparr>c_lflag = 0, c_rest = 0\<rparr>"

definition started_console :: "termios option \<Rightarrow> console" where
  "started_console device = console_input_start \<lparr>tty = device, g_orig_termios = no_termios, g_termios_saved = False\<rparr>"

subsection \<open>The contract\<close>

definition echoes :: "termios \<Rightarrow> bool" where
  "echoes t \<longleftrightarrow> and (c_lflag t) ECHO \<noteq> 0"

definition line_buffered :: "termios \<Rightarrow> bool" where
  "line_buffered t \<longleftrightarrow> and (c_lflag t) ICANON \<noteq> 0"

text \<open>What the terminal must be while a program that found the settings \<open>t\<close> runs, and afterwards.\<close>

definition terminal_ok :: "termios \<Rightarrow> bool \<Rightarrow> termios option \<Rightarrow> bool" where
  "terminal_ok t exited device \<longleftrightarrow>
     (if exited then device = Some t
      else \<exists>raw. device = Some raw \<and> \<not> echoes raw \<and> \<not> line_buffered raw \<and>
        raw\<lparr>c_lflag := c_lflag t\<rparr> = t)"

lemma started_console_simps:
  "tty (started_console (Some t)) = Some (t\<lparr>c_lflag := and (c_lflag t) (not (or ECHO ICANON))\<rparr>)"
  "tty (restore_tty (started_console device)) = device"
  by (simp_all add: started_console_def console_input_start_def restore_tty_def tcgetattr_def tcsetattr_def
      Let_def split: option.split)

lemma raw_flags:
  "and (and x (and (not ECHO) (not ICANON))) ECHO = 0" "and (and x (and (not ECHO) (not ICANON))) ICANON = (0 :: u32)"
  by (simp_all add: ECHO_def ICANON_def and.assoc)

locale raw_terminal =
  fixes init :: "'s \<Rightarrow> bool" and step :: "'l \<Rightarrow> 's \<Rightarrow> 's option"
    and console :: "'s \<Rightarrow> console" and exited :: "'s \<Rightarrow> bool" and device :: "termios option"
  assumes starts_raw: "init s \<Longrightarrow> console s = started_console device \<and> \<not> exited s"
    and restores_at_exit: "step l s = Some s' \<Longrightarrow>
      console s' = console s \<and> exited s' = exited s \<or>
      console s' = restore_tty (console s) \<and> \<not> exited s \<and> exited s'"
begin

definition console_ok :: "'s \<Rightarrow> bool" where
  "console_ok s \<longleftrightarrow> console s = (if exited s then restore_tty (started_console device) else started_console device)"

end

sublocale raw_terminal \<subseteq> kept: machine_invariant init step console_ok
proof
  show "console_ok s" if "init s" for s using starts_raw [OF that] by (simp add: console_ok_def)
  show "console_ok s'" if "console_ok s" "step l s = Some s'" for l s s'
    using restores_at_exit [OF that(2)] that(1) by (auto simp: console_ok_def)
qed

context raw_terminal
begin

lemma terminal_follows:
  assumes "device = Some t" and "init s0" and "exec step ls s0 = Some s"
  shows "terminal_ok t (exited s) (tty (console s))"
  using kept.holds_after [OF assms(2,3)] unfolding console_ok_def
  by (auto simp: terminal_ok_def assms(1) started_console_simps echoes_def line_buffered_def raw_flags)

end

end
