(* ===== verification/Password.thy ===== *)
theory Password
  imports Machine
begin

section \<open>Password verification (src/auth.back/src/password.c)\<close>

text \<open>
  The context of the password module, its worker thread \<open>pw_worker\<close>, the PAM child process the
  worker forks, and the calls a client makes.  Verification, deletion and the reading of
  \<open>has_thread\<close> belong to one owner thread; \<open>kl_password_stop\<close> may be called by any
  thread, also from a handler, and is a sequence of steps of its own per calling thread.

  Handlers are function pointers: the model has which of them are set and records each call of one
  as an event; what a handler does is steps of its thread, which a client machine adds.  Status
  words of \<open>waitpid\<close>, the pid of \<open>fork\<close> and the results of PAM are chosen by the label.  The
  context is freed by \<open>kl_password_delete\<close>; a later access sets \<open>pm_fault\<close> and stops the
  machine.
\<close>

subsection \<open>Data\<close>

datatype kl_password_error = PW_ERR_AUTH_FAILED | PW_ERR_SYSTEM

datatype pw_callback =
  Pw_on_init | Pw_on_begin | Pw_on_finish | Pw_on_error kl_password_error | Pw_on_end | Pw_on_stop
| Pw_on_delete

record kl_password_handlers =
  pwh_on_init :: bool
  pwh_on_begin :: bool
  pwh_on_finish :: bool
  pwh_on_error :: bool
  pwh_on_end :: bool
  pwh_on_stop :: bool
  pwh_on_delete :: bool

record kl_password_ctx =
  pw_handlers :: kl_password_handlers
  pw_user_data :: ptr
  pw_username :: "string option"
  pw_has_thread :: bool
  pw_init_called :: bool
  pw_is_running :: bool
  pw_active_pam_pid :: int
  pw_candidate :: "string option"

subsection \<open>The conversation function and the child process\<close>

definition PAM_SUCCESS :: int where "PAM_SUCCESS = 0"
definition PAM_BUF_ERR :: int where "PAM_BUF_ERR = 5"
definition PAM_CONV_ERR :: int where "PAM_CONV_ERR = 19"
definition PAM_PROMPT_ECHO_OFF :: int where "PAM_PROMPT_ECHO_OFF = 1"
definition PAM_PROMPT_ECHO_ON :: int where "PAM_PROMPT_ECHO_ON = 2"

text \<open>The bytes at \<open>v\<close>; the loop of \<open>secure_clear\<close> does not look where they end.\<close>

fun secure_clear :: "nat list \<Rightarrow> nat \<Rightarrow> nat list" where
  "secure_clear v 0 = v"
| "secure_clear (b # v) (Suc n) = 0 # secure_clear v n"
| "secure_clear [] (Suc n) = []"

text \<open>
  The loop of lines 47 to 60: message styles from index \<open>i\<close> on, the reply array, and whether
  each \<open>strdup\<close> succeeds; \<open>Inl\<close> with the index when one fails.  \<open>free_replies\<close> is the
  loop of lines 52 to 54, with \<open>None\<close> for a null or freed string.
\<close>

definition is_prompt :: "int \<Rightarrow> bool" where
  "is_prompt msg_style \<longleftrightarrow> msg_style = PAM_PROMPT_ECHO_OFF \<or> msg_style = PAM_PROMPT_ECHO_ON"

fun conv_loop ::
  "string \<Rightarrow> (nat \<Rightarrow> bool) \<Rightarrow> nat \<Rightarrow> int list \<Rightarrow> string option list \<Rightarrow>
   (nat \<times> string option list) + string option list" where
  "conv_loop appdata dup i [] reply = Inr reply"
| "conv_loop appdata dup i (msg_style # msg) reply =
     (if is_prompt msg_style
      then (if dup i then conv_loop appdata dup (Suc i) msg (reply[i := Some appdata])
            else Inl (i, reply))
      else conv_loop appdata dup (Suc i) msg reply)"

fun free_replies :: "nat \<Rightarrow> string option list \<Rightarrow> string option list" where
  "free_replies 0 reply = reply"
| "free_replies (Suc i) reply = free_replies i (reply[i := None])"

text \<open>
  The result with either the replies handed to PAM (\<open>Inr\<close>) or the reply array as it was when the
  function freed it (\<open>Inl\<close>), whose remaining strings would be lost.
\<close>

definition internal_pam_conv ::
  "int \<Rightarrow> int list \<Rightarrow> bool \<Rightarrow> string option \<Rightarrow> bool \<Rightarrow> (nat \<Rightarrow> bool) \<Rightarrow>
   int \<times> (string option list + string option list)" where
  "internal_pam_conv num_msg msg resp appdata alloc dup =
     (if num_msg \<le> 0 \<or> \<not> resp \<or> appdata = None then (PAM_CONV_ERR, Inl [])
      else if \<not> alloc then (PAM_BUF_ERR, Inl [])
      else case conv_loop (the appdata) dup 0 (take (nat num_msg) msg) (replicate (nat num_msg) None) of
        Inl (i, reply) \<Rightarrow> (PAM_BUF_ERR, Inl (free_replies i reply))
      | Inr reply \<Rightarrow> (PAM_SUCCESS, Inr reply))"

text \<open>Lines 79 to 97: the exit code of the child from the results of the three PAM calls.\<close>

definition pam_child_exit :: "int \<Rightarrow> int \<Rightarrow> int \<Rightarrow> int" where
  "pam_child_exit start authenticate acct_mgmt =
     (let r = (if start = PAM_SUCCESS
               then (if authenticate = PAM_SUCCESS then acct_mgmt else authenticate)
               else start)
      in if r = PAM_SUCCESS then 0 else 1)"

text \<open>Status words of \<open>waitpid\<close>: \<open>WIFEXITED\<close> and \<open>WEXITSTATUS\<close> as glibc defines them.\<close>

definition exited_zero :: "int \<Rightarrow> bool" where
  "exited_zero status \<longleftrightarrow> status mod 128 = 0 \<and> (status div 256) mod 256 = 0"

definition SIGKILL :: int where "SIGKILL = 9"

subsection \<open>The machine's state\<close>

text \<open>The program counter of the worker thread; the comments give the line the thread is at.\<close>

datatype pw_pc =
  W_none             \<comment> \<open>no thread\<close>
| W_begin            \<comment> \<open>68\<close>
| W_fork             \<comment> \<open>71\<close>
| W_fork_error       \<comment> \<open>73\<close>
| W_store int        \<comment> \<open>100\<close>
| W_check int        \<comment> \<open>102\<close>
| W_take int         \<comment> \<open>103\<close>
| W_kill int int     \<comment> \<open>105, with \<open>to_kill\<close>\<close>
| W_wait int         \<comment> \<open>110\<close>
| W_clear int int    \<comment> \<open>111, with the status\<close>
| W_result int       \<comment> \<open>113\<close>
| W_finish           \<comment> \<open>115\<close>
| W_auth_error       \<comment> \<open>118\<close>
| W_end              \<comment> \<open>125\<close>
| W_stopped          \<comment> \<open>128\<close>
| W_on_stop          \<comment> \<open>129\<close>
| W_free             \<comment> \<open>133\<close>
| W_last             \<comment> \<open>139\<close>
| W_done             \<comment> \<open>returned\<close>

text \<open>The owner thread inside \<open>kl_password_verify\<close> or \<open>kl_password_delete\<close>.\<close>

datatype pw_owner_pc =
  O_idle
| V_join string | V_dup string | V_dup_failed | V_create | V_create_failed | V_create_clear
| D_stop | D_join | D_free | O_deleted

text \<open>A thread inside \<open>kl_password_stop\<close>.\<close>

datatype pw_stop_pc = S_idle | S_cas | S_exchange | S_kill int

text \<open>A process: not a child of this one, or a child that runs with the user name and candidate it
  was forked with, or one that has ended and was not waited for.\<close>

datatype pam_child =
  No_child | Child_running "string option" "string option" | Zombie "string option" "string option" int

datatype pw_event =
  Pw_call pw_callback | Pam_accepted "string option" "string option" | Wait_interrupted
| Signal_sent int | Stray_kill int | Verify_ok "string option" | Verify_refused

record pw_machine =
  pm_ctx :: kl_password_ctx
  pm_alive :: bool
  pm_worker :: pw_pc
  pm_owner :: pw_owner_pc
  pm_stops :: "nat \<Rightarrow> pw_stop_pc"
  pm_children :: "int \<Rightarrow> pam_child"
  pm_events :: "pw_event list"
  pm_fault :: bool

definition pw_log :: "pw_event \<Rightarrow> pw_machine \<Rightarrow> pw_machine" where
  "pw_log e m = m\<lparr>pm_events := e # pm_events m\<rparr>"

definition pw_notify :: "(kl_password_handlers \<Rightarrow> bool) \<Rightarrow> pw_callback \<Rightarrow> pw_machine \<Rightarrow> pw_machine" where
  "pw_notify h cb m = (if h (pw_handlers (pm_ctx m)) then pw_log (Pw_call cb) m else m)"

definition pw_set :: "(kl_password_ctx \<Rightarrow> kl_password_ctx) \<Rightarrow> pw_machine \<Rightarrow> pw_machine" where
  "pw_set f m = m\<lparr>pm_ctx := f (pm_ctx m)\<rparr>"

abbreviation pw_at :: "pw_pc \<Rightarrow> pw_machine \<Rightarrow> pw_machine" where
  "pw_at pc m \<equiv> m\<lparr>pm_worker := pc\<rparr>"

definition kill_child :: "int \<Rightarrow> pw_machine \<Rightarrow> pw_machine" where
  "kill_child pid m =
     (case pm_children m pid of
        No_child \<Rightarrow> pw_log (Stray_kill pid) m
      | Child_running u c \<Rightarrow>
          pw_log (Signal_sent pid) (m\<lparr>pm_children := (pm_children m)(pid := Zombie u c SIGKILL)\<rparr>)
      | Zombie u c st \<Rightarrow> pw_log (Signal_sent pid) m)"

subsection \<open>The worker thread\<close>

fun pw_worker_at :: "pw_pc \<Rightarrow> int \<Rightarrow> pw_machine \<Rightarrow> pw_machine option" where
  "pw_worker_at W_begin _ m = Some (pw_at W_fork (pw_notify pwh_on_begin Pw_on_begin m))"
| "pw_worker_at W_fork pid m =
     (if pid < 0 then Some (pw_at W_fork_error m)
      else if pid > 0 \<and> pm_children m pid = No_child then
        Some (pw_at (W_store pid) (m\<lparr>pm_children := (pm_children m)
          (pid := Child_running (pw_username (pm_ctx m)) (pw_candidate (pm_ctx m)))\<rparr>))
      else None)"
| "pw_worker_at W_fork_error _ m =
     Some (pw_at W_end (pw_notify pwh_on_error (Pw_on_error PW_ERR_SYSTEM) m))"
| "pw_worker_at (W_store pid) _ m = Some (pw_at (W_check pid) (pw_set (pw_active_pam_pid_update (\<lambda>_. pid)) m))"
| "pw_worker_at (W_check pid) _ m =
     Some (pw_at (if pw_is_running (pm_ctx m) then W_wait pid else W_take pid) m)"
| "pw_worker_at (W_take pid) _ m =
     (let to_kill = pw_active_pam_pid (pm_ctx m)
      in Some (pw_at (if to_kill > 0 then W_kill pid to_kill else W_wait pid)
                 (pw_set (pw_active_pam_pid_update (\<lambda>_. 0)) m)))"
| "pw_worker_at (W_kill pid to_kill) _ m = Some (pw_at (W_wait pid) (kill_child to_kill m))"
| "pw_worker_at (W_wait pid) _ m =
     (case pm_children m pid of
        Zombie u c status \<Rightarrow>
          Some (pw_at (W_clear pid status) (m\<lparr>pm_children := (pm_children m)(pid := No_child)\<rparr>))
      | _ \<Rightarrow> None)"
| "pw_worker_at (W_clear pid status) _ m =
     Some (pw_at (W_result status) (pw_set (pw_active_pam_pid_update (\<lambda>_. 0)) m))"
| "pw_worker_at (W_result status) _ m =
     Some (pw_at (if pw_is_running (pm_ctx m)
                  then (if exited_zero status then W_finish else W_auth_error)
                  else W_end) m)"
| "pw_worker_at W_finish _ m = Some (pw_at W_end (pw_notify pwh_on_finish Pw_on_finish m))"
| "pw_worker_at W_auth_error _ m =
     Some (pw_at W_end (pw_notify pwh_on_error (Pw_on_error PW_ERR_AUTH_FAILED) m))"
| "pw_worker_at W_end _ m = Some (pw_at W_stopped (pw_notify pwh_on_end Pw_on_end m))"
| "pw_worker_at W_stopped _ m =
     Some (pw_at (if pw_is_running (pm_ctx m) then W_free else W_on_stop) m)"
| "pw_worker_at W_on_stop _ m = Some (pw_at W_free (pw_notify pwh_on_stop Pw_on_stop m))"
| "pw_worker_at W_free _ m = Some (pw_at W_last (pw_set (pw_candidate_update (\<lambda>_. None)) m))"
| "pw_worker_at W_last _ m = Some (pw_at W_done (pw_set (pw_is_running_update (\<lambda>_. False)) m))"
| "pw_worker_at _ _ m = None"

text \<open>\<open>waitpid\<close> interrupted by a signal handler: it returns -1 and leaves \<open>status\<close>, which
  has no initial value, as it is.\<close>

definition pw_wait_interrupted :: "int \<Rightarrow> pw_machine \<Rightarrow> pw_machine option" where
  "pw_wait_interrupted status m =
     (case pm_worker m of
        W_wait pid \<Rightarrow> Some (pw_at (W_clear pid status) (pw_log Wait_interrupted m))
      | _ \<Rightarrow> None)"

text \<open>A child runs to its \<open>_exit\<close>.\<close>

definition pw_child_ends :: "int \<Rightarrow> int \<Rightarrow> int \<Rightarrow> int \<Rightarrow> pw_machine \<Rightarrow> pw_machine option" where
  "pw_child_ends pid start authenticate acct_mgmt m =
     (case pm_children m pid of
        Child_running u c \<Rightarrow>
          (let code = pam_child_exit start authenticate acct_mgmt;
               m = m\<lparr>pm_children := (pm_children m)(pid := Zombie u c (code * 256))\<rparr>
           in Some (if code = 0 then pw_log (Pam_accepted u c) m else m))
      | _ \<Rightarrow> None)"

subsection \<open>The calls of the client\<close>

definition kl_password_init :: "bool \<Rightarrow> bool \<Rightarrow> ptr \<Rightarrow> string option \<Rightarrow> kl_password_ctx option" where
  "kl_password_init alloc dup user_data username =
     (if \<not> alloc then None
      else if username \<noteq> None \<and> \<not> dup then None
      else Some \<lparr>pw_handlers = \<lparr>pwh_on_init = False, pwh_on_begin = False, pwh_on_finish = False,
                   pwh_on_error = False, pwh_on_end = False, pwh_on_stop = False, pwh_on_delete = False\<rparr>,
                 pw_user_data = user_data, pw_username = username, pw_has_thread = False,
                 pw_init_called = False, pw_is_running = False, pw_active_pam_pid = 0,
                 pw_candidate = None\<rparr>)"

definition kl_password_set_handlers ::
  "kl_password_ctx option \<Rightarrow> kl_password_handlers option \<Rightarrow> kl_password_ctx option \<times> pw_callback list" where
  "kl_password_set_handlers ctx handlers =
     (case (ctx, handlers) of
        (Some ctx, Some handlers) \<Rightarrow>
          (let ctx = ctx\<lparr>pw_handlers := handlers\<rparr>
           in if \<not> pw_init_called ctx \<and> pwh_on_init handlers
              then (Some (ctx\<lparr>pw_init_called := True\<rparr>), [Pw_on_init])
              else (Some ctx, []))
      | _ \<Rightarrow> (ctx, []))"

definition kl_password_is_running :: "kl_password_ctx option \<Rightarrow> bool" where
  "kl_password_is_running ctx = (case ctx of Some ctx \<Rightarrow> pw_is_running ctx | None \<Rightarrow> False)"

definition kl_password_get_user_data :: "kl_password_ctx option \<Rightarrow> ptr" where
  "kl_password_get_user_data ctx = (case ctx of Some ctx \<Rightarrow> pw_user_data ctx | None \<Rightarrow> NULL)"

text \<open>\<open>kl_password_verify\<close> up to its compare-and-exchange, and from there on one step at a time;
  \<open>ok\<close> says whether \<open>strdup\<close> or \<open>pthread_create\<close> succeeds.\<close>

definition kl_password_verify :: "string \<Rightarrow> pw_machine \<Rightarrow> pw_machine option" where
  "kl_password_verify password m =
     (if pm_owner m \<noteq> O_idle then None
      else if pw_is_running (pm_ctx m) then Some (pw_log Verify_refused m)
      else Some ((pw_set (pw_is_running_update (\<lambda>_. True)) m)\<lparr>pm_owner := V_join password\<rparr>))"

text \<open>The owner joins the worker: it waits until the thread has returned.\<close>

definition pw_join :: "pw_owner_pc \<Rightarrow> pw_machine \<Rightarrow> pw_machine option" where
  "pw_join next m =
     (if pw_has_thread (pm_ctx m) then
        (if pm_worker m = W_done
         then Some ((pw_set (pw_has_thread_update (\<lambda>_. False)) (pw_at W_none m))\<lparr>pm_owner := next\<rparr>)
         else None)
      else Some (m\<lparr>pm_owner := next\<rparr>))"

fun pw_owner_at :: "pw_owner_pc \<Rightarrow> bool \<Rightarrow> pw_machine \<Rightarrow> pw_machine option" where
  "pw_owner_at (V_join password) ok m = pw_join (V_dup password) m"
| "pw_owner_at (V_dup password) ok m =
     Some (if ok then (pw_set (pw_candidate_update (\<lambda>_. Some password)) m)\<lparr>pm_owner := V_create\<rparr>
           else (pw_set (pw_candidate_update (\<lambda>_. None)) m)\<lparr>pm_owner := V_dup_failed\<rparr>)"
| "pw_owner_at V_dup_failed ok m =
     Some ((pw_log Verify_refused (pw_set (pw_is_running_update (\<lambda>_. False)) m))\<lparr>pm_owner := O_idle\<rparr>)"
| "pw_owner_at V_create ok m =
     Some (if ok
           then (pw_log (Verify_ok (pw_candidate (pm_ctx m)))
                  (pw_at W_begin (pw_set (pw_has_thread_update (\<lambda>_. True)) m)))\<lparr>pm_owner := O_idle\<rparr>
           else (pw_set (pw_has_thread_update (\<lambda>_. False)) m)\<lparr>pm_owner := V_create_failed\<rparr>)"
| "pw_owner_at V_create_failed ok m =
     Some ((pw_set (pw_is_running_update (\<lambda>_. False)) m)\<lparr>pm_owner := V_create_clear\<rparr>)"
| "pw_owner_at V_create_clear ok m =
     Some ((pw_log Verify_refused (pw_set (pw_candidate_update (\<lambda>_. None)) m))\<lparr>pm_owner := O_idle\<rparr>)"
| "pw_owner_at D_stop ok m = (if pm_stops m 0 = S_idle then Some (m\<lparr>pm_owner := D_join\<rparr>) else None)"
| "pw_owner_at D_join ok m = pw_join D_free m"
| "pw_owner_at D_free ok m =
     Some ((pw_notify pwh_on_delete Pw_on_delete
             (pw_set (pw_candidate_update (\<lambda>_. None)) m))\<lparr>pm_alive := False, pm_owner := O_deleted\<rparr>)"
| "pw_owner_at _ ok m = None"

text \<open>\<open>kl_password_stop\<close>, called by thread \<open>t\<close>; the owner is thread 0.\<close>

definition kl_password_stop :: "nat \<Rightarrow> pw_machine \<Rightarrow> pw_machine option" where
  "kl_password_stop t m =
     (if pm_stops m t = S_idle then Some (m\<lparr>pm_stops := (pm_stops m)(t := S_cas)\<rparr>) else None)"

fun pw_stop_at :: "pw_stop_pc \<Rightarrow> nat \<Rightarrow> pw_machine \<Rightarrow> pw_machine option" where
  "pw_stop_at S_idle t m = None"
| "pw_stop_at S_cas t m =
     (if \<not> pm_alive m then Some (m\<lparr>pm_fault := True\<rparr>)
      else if pw_is_running (pm_ctx m)
      then Some ((pw_set (pw_is_running_update (\<lambda>_. False)) m)\<lparr>pm_stops := (pm_stops m)(t := S_exchange)\<rparr>)
      else Some (m\<lparr>pm_stops := (pm_stops m)(t := S_idle)\<rparr>))"
| "pw_stop_at S_exchange t m =
     (if \<not> pm_alive m then Some (m\<lparr>pm_fault := True\<rparr>)
      else let pam_pid = pw_active_pam_pid (pm_ctx m)
           in Some ((pw_set (pw_active_pam_pid_update (\<lambda>_. 0)) m)
                \<lparr>pm_stops := (pm_stops m)(t := if pam_pid > 0 then S_kill pam_pid else S_idle)\<rparr>))"
| "pw_stop_at (S_kill pid) t m = Some ((kill_child pid m)\<lparr>pm_stops := (pm_stops m)(t := S_idle)\<rparr>)"

definition kl_password_delete :: "pw_machine \<Rightarrow> pw_machine option" where
  "kl_password_delete m =
     (if pm_owner m = O_idle \<and> pm_stops m 0 = S_idle
      then Some (m\<lparr>pm_owner := D_stop, pm_stops := (pm_stops m)(0 := S_cas)\<rparr>)
      else None)"

subsection \<open>The machine\<close>

datatype pw_label =
  Pw_worker int | Pw_interrupt int | Pw_child int int int int | Pw_verify string | Pw_owner bool
| Pw_delete | Pw_stop nat | Pw_stopper nat

definition pw_step :: "pw_label \<Rightarrow> pw_machine \<Rightarrow> pw_machine option" where
  "pw_step l m =
     (if pm_fault m then None
      else case l of
        Pw_worker pid \<Rightarrow>
          if pm_alive m \<or> pm_worker m = W_none \<or> pm_worker m = W_done
          then pw_worker_at (pm_worker m) pid m else Some (m\<lparr>pm_fault := True\<rparr>)
      | Pw_interrupt status \<Rightarrow> pw_wait_interrupted status m
      | Pw_child pid start authenticate acct_mgmt \<Rightarrow> pw_child_ends pid start authenticate acct_mgmt m
      | Pw_verify password \<Rightarrow> kl_password_verify password m
      | Pw_owner ok \<Rightarrow> pw_owner_at (pm_owner m) ok m
      | Pw_delete \<Rightarrow> kl_password_delete m
      | Pw_stop t \<Rightarrow> kl_password_stop t m
      | Pw_stopper t \<Rightarrow> pw_stop_at (pm_stops m t) t m)"

definition pw_fresh :: "kl_password_ctx \<Rightarrow> pw_machine" where
  "pw_fresh ctx = \<lparr>pm_ctx = ctx, pm_alive = True, pm_worker = W_none, pm_owner = O_idle,
     pm_stops = (\<lambda>_. S_idle), pm_children = (\<lambda>_. No_child), pm_events = [], pm_fault = False\<rparr>"

definition pw_initial :: "pw_machine \<Rightarrow> bool" where
  "pw_initial m \<longleftrightarrow> (\<exists>user_data username handlers ctx.
     kl_password_init True True user_data username = Some ctx \<and>
     m = pw_fresh (the (fst (kl_password_set_handlers (Some ctx) handlers))))"

subsection \<open>Reasoning about steps\<close>

lemma pw_log_fields [simp]:
  "pm_ctx (pw_log e m) = pm_ctx m"
  "pm_alive (pw_log e m) = pm_alive m"
  "pm_worker (pw_log e m) = pm_worker m"
  "pm_owner (pw_log e m) = pm_owner m"
  "pm_stops (pw_log e m) = pm_stops m"
  "pm_children (pw_log e m) = pm_children m"
  "pm_events (pw_log e m) = e # pm_events m"
  "pm_fault (pw_log e m) = pm_fault m"
  by (simp_all add: pw_log_def)

lemma pw_set_fields [simp]:
  "pm_ctx (pw_set f m) = f (pm_ctx m)"
  "pm_alive (pw_set f m) = pm_alive m"
  "pm_worker (pw_set f m) = pm_worker m"
  "pm_owner (pw_set f m) = pm_owner m"
  "pm_stops (pw_set f m) = pm_stops m"
  "pm_children (pw_set f m) = pm_children m"
  "pm_events (pw_set f m) = pm_events m"
  "pm_fault (pw_set f m) = pm_fault m"
  by (simp_all add: pw_set_def)

lemma pw_notify_fields [simp]:
  "pm_ctx (pw_notify h cb m) = pm_ctx m"
  "pm_alive (pw_notify h cb m) = pm_alive m"
  "pm_worker (pw_notify h cb m) = pm_worker m"
  "pm_owner (pw_notify h cb m) = pm_owner m"
  "pm_stops (pw_notify h cb m) = pm_stops m"
  "pm_children (pw_notify h cb m) = pm_children m"
  "pm_events (pw_notify h cb m) = (if h (pw_handlers (pm_ctx m)) then Pw_call cb # pm_events m else pm_events m)"
  "pm_fault (pw_notify h cb m) = pm_fault m"
  by (simp_all add: pw_notify_def)

lemma kill_child_fields [simp]:
  "pm_ctx (kill_child pid m) = pm_ctx m"
  "pm_alive (kill_child pid m) = pm_alive m"
  "pm_worker (kill_child pid m) = pm_worker m"
  "pm_owner (kill_child pid m) = pm_owner m"
  "pm_stops (kill_child pid m) = pm_stops m"
  "pm_fault (kill_child pid m) = pm_fault m"
  by (simp_all add: kill_child_def split: pam_child.split)

lemmas pw_calls = kl_password_verify_def pw_join_def kl_password_stop_def kl_password_delete_def

lemma pw_wait_interrupted_Some:
  "pw_wait_interrupted st m = Some m' \<longleftrightarrow>
     (\<exists>pid. pm_worker m = W_wait pid \<and> m' = pw_at (W_clear pid st) (pw_log Wait_interrupted m))"
  by (auto simp: pw_wait_interrupted_def split: pw_pc.splits)

definition child_exits :: "int \<Rightarrow> string option \<Rightarrow> string option \<Rightarrow> int \<Rightarrow> pw_machine \<Rightarrow> pw_machine" where
  "child_exits pid u c code m =
     (let m = m\<lparr>pm_children := (pm_children m)(pid := Zombie u c (code * 256))\<rparr>
      in if code = 0 then pw_log (Pam_accepted u c) m else m)"

lemma child_exits_fields [simp]:
  "pm_ctx (child_exits pid u c code m) = pm_ctx m"
  "pm_alive (child_exits pid u c code m) = pm_alive m"
  "pm_worker (child_exits pid u c code m) = pm_worker m"
  "pm_owner (child_exits pid u c code m) = pm_owner m"
  "pm_stops (child_exits pid u c code m) = pm_stops m"
  "pm_children (child_exits pid u c code m) = (pm_children m)(pid := Zombie u c (code * 256))"
  "pm_events (child_exits pid u c code m) =
     (if code = 0 then Pam_accepted u c # pm_events m else pm_events m)"
  "pm_fault (child_exits pid u c code m) = pm_fault m"
  by (simp_all add: child_exits_def Let_def)

lemma pw_child_ends_Some:
  "pw_child_ends pid start authenticate acct_mgmt m = Some m' \<longleftrightarrow>
     (\<exists>u c. pm_children m pid = Child_running u c \<and>
       m' = child_exits pid u c (pam_child_exit start authenticate acct_mgmt) m)"
  by (auto simp: pw_child_ends_def child_exits_def Let_def split: pam_child.splits)

fun worker_pid :: "pw_pc \<Rightarrow> int option" where
  "worker_pid (W_store pid) = Some pid"
| "worker_pid (W_check pid) = Some pid"
| "worker_pid (W_take pid) = Some pid"
| "worker_pid (W_kill pid k) = Some pid"
| "worker_pid (W_wait pid) = Some pid"
| "worker_pid _ = None"

fun owner_alone :: "pw_owner_pc \<Rightarrow> bool" where
  "owner_alone O_idle = False"
| "owner_alone (V_join _) = False"
| "owner_alone D_stop = False"
| "owner_alone D_join = False"
| "owner_alone _ = True"

definition pw_threads_ok :: "pw_machine \<Rightarrow> bool" where
  "pw_threads_ok m \<longleftrightarrow>
     (pw_has_thread (pm_ctx m) \<longleftrightarrow> pm_worker m \<noteq> W_none) \<and>
     (owner_alone (pm_owner m) \<longrightarrow> pm_worker m = W_none) \<and>
     (pm_alive m \<longleftrightarrow> pm_owner m \<noteq> O_deleted) \<and> (pm_fault m \<longrightarrow> \<not> pm_alive m)"

lemma pw_initial_fields:
  assumes "pw_initial m"
  shows "pm_alive m" "pm_worker m = W_none" "pm_owner m = O_idle" "pm_stops m = (\<lambda>_. S_idle)"
    "pm_children m = (\<lambda>_. No_child)" "pm_events m = []" "\<not> pm_fault m"
    "\<not> pw_has_thread (pm_ctx m)" "\<not> pw_is_running (pm_ctx m)" "pw_active_pam_pid (pm_ctx m) = 0"
    "pw_candidate (pm_ctx m) = None"
proof -
  obtain user_data username handlers ctx where
    ctx: "kl_password_init True True user_data username = Some ctx" and
    m: "m = pw_fresh (the (fst (kl_password_set_handlers (Some ctx) handlers)))"
    using assms by (auto simp: pw_initial_def)
  show "pm_alive m" "pm_worker m = W_none" "pm_owner m = O_idle" "pm_stops m = (\<lambda>_. S_idle)"
    "pm_children m = (\<lambda>_. No_child)" "pm_events m = []" "\<not> pm_fault m"
    "\<not> pw_has_thread (pm_ctx m)" "\<not> pw_is_running (pm_ctx m)" "pw_active_pam_pid (pm_ctx m) = 0"
    "pw_candidate (pm_ctx m) = None"
    using ctx [symmetric] by (simp_all add: m pw_fresh_def kl_password_set_handlers_def kl_password_init_def
      Let_def split: option.split)
qed



lemma pw_step_cases [consumes 1, case_names fault worker interrupt child verify owner delete stop stopper]:
  assumes "pw_step l m = Some m'"
  obtains "m' = m\<lparr>pm_fault := True\<rparr>" "\<not> pm_alive m"
  | pid where "l = Pw_worker pid" "pw_worker_at (pm_worker m) pid m = Some m'"
  | status where "l = Pw_interrupt status" "pw_wait_interrupted status m = Some m'"
  | pid r1 r2 r3 where "l = Pw_child pid r1 r2 r3" "pw_child_ends pid r1 r2 r3 m = Some m'"
  | password where "l = Pw_verify password" "kl_password_verify password m = Some m'"
  | ok where "l = Pw_owner ok" "pw_owner_at (pm_owner m) ok m = Some m'"
  | "l = Pw_delete" "kl_password_delete m = Some m'"
  | t where "l = Pw_stop t" "kl_password_stop t m = Some m'"
  | t where "l = Pw_stopper t" "pw_stop_at (pm_stops m t) t m = Some m'"
proof -
  have "m' = m\<lparr>pm_fault := True\<rparr> \<and> \<not> pm_alive m \<or>
    (\<exists>pid. l = Pw_worker pid \<and> pw_worker_at (pm_worker m) pid m = Some m') \<or>
    (\<exists>status. l = Pw_interrupt status \<and> pw_wait_interrupted status m = Some m') \<or>
    (\<exists>pid r1 r2 r3. l = Pw_child pid r1 r2 r3 \<and> pw_child_ends pid r1 r2 r3 m = Some m') \<or>
    (\<exists>password. l = Pw_verify password \<and> kl_password_verify password m = Some m') \<or>
    (\<exists>ok. l = Pw_owner ok \<and> pw_owner_at (pm_owner m) ok m = Some m') \<or>
    l = Pw_delete \<and> kl_password_delete m = Some m' \<or>
    (\<exists>t. l = Pw_stop t \<and> kl_password_stop t m = Some m') \<or>
    (\<exists>t. l = Pw_stopper t \<and> pw_stop_at (pm_stops m t) t m = Some m')"
    using assms by (cases l) (simp_all add: pw_step_def split: if_splits)
  then show thesis by (elim disjE exE conjE) (erule that; assumption)+
qed


lemmas pw_step_elims = pw_worker_at.elims pw_owner_at.elims pw_stop_at.elims
lemmas pw_step_simps = pw_calls pw_wait_interrupted_Some pw_child_ends_Some Let_def

lemma pw_threads_ok_step: "pw_threads_ok m \<Longrightarrow> pw_step l m = Some m' \<Longrightarrow> pw_threads_ok m'"
  by (erule pw_step_cases; (erule pw_step_elims)?;
      clarsimp simp: pw_threads_ok_def pw_step_simps split: if_splits pam_child.splits)

fun holds_candidate :: "pw_pc \<Rightarrow> bool" where
  "holds_candidate W_none = False"
| "holds_candidate W_last = False"
| "holds_candidate W_done = False"
| "holds_candidate _ = True"

fun owner_holds :: "pw_owner_pc \<Rightarrow> bool" where
  "owner_holds V_create = True"
| "owner_holds V_create_failed = True"
| "owner_holds V_create_clear = True"
| "owner_holds _ = False"

definition pw_candidate_ok :: "pw_machine \<Rightarrow> bool" where
  "pw_candidate_ok m \<longleftrightarrow>
     (pw_candidate (pm_ctx m) \<noteq> None \<longleftrightarrow> holds_candidate (pm_worker m) \<or> owner_holds (pm_owner m)) \<and>
     (holds_candidate (pm_worker m) \<longrightarrow> Verify_ok (pw_candidate (pm_ctx m)) \<in> set (pm_events m))"

lemma kill_child_events: "set (pm_events m) \<subseteq> set (pm_events (kill_child pid m))"
  by (auto simp: kill_child_def split: pam_child.splits)

lemma kill_child_mem [simp]:
  "Wait_interrupted \<in> set (pm_events (kill_child k m)) \<longleftrightarrow> Wait_interrupted \<in> set (pm_events m)"
  "Pam_accepted u c \<in> set (pm_events (kill_child k m)) \<longleftrightarrow> Pam_accepted u c \<in> set (pm_events m)"
  "Verify_ok c \<in> set (pm_events (kill_child k m)) \<longleftrightarrow> Verify_ok c \<in> set (pm_events m)"
  by (auto simp: kill_child_def split: pam_child.splits)

lemma owner_holds_alone: "owner_holds pc \<Longrightarrow> owner_alone pc"
  by (cases pc) simp_all

lemma pw_candidate_ok_step:
  "pw_threads_ok m \<Longrightarrow> pw_candidate_ok m \<Longrightarrow> pw_step l m = Some m' \<Longrightarrow> pw_candidate_ok m'"
  by (erule pw_step_cases; (erule pw_step_elims)?;
      clarsimp simp: pw_threads_ok_def pw_candidate_ok_def pw_step_simps 
        dest!: owner_holds_alone split: if_splits pam_child.splits)

fun child_of :: "string option \<Rightarrow> string option \<Rightarrow> pam_child \<Rightarrow> bool" where
  "child_of u c No_child = False"
| "child_of u c (Child_running u' c') \<longleftrightarrow> u' = u \<and> c' = c"
| "child_of u c (Zombie u' c' st) \<longleftrightarrow> u' = u \<and> c' = c"

fun published_pid :: "pw_pc \<Rightarrow> int option" where
  "published_pid (W_check pid) = Some pid"
| "published_pid (W_take pid) = Some pid"
| "published_pid (W_wait pid) = Some pid"
| "published_pid (W_clear pid st) = Some pid"
| "published_pid _ = None"

fun kills_other :: "pw_pc \<Rightarrow> bool" where
  "kills_other (W_kill pid k) \<longleftrightarrow> k \<noteq> pid"
| "kills_other _ = False"

definition pw_pids_ok :: "pw_machine \<Rightarrow> bool" where
  "pw_pids_ok m \<longleftrightarrow>
     (\<forall>pid. worker_pid (pm_worker m) = Some pid \<longrightarrow> 0 < pid \<and>
        child_of (pw_username (pm_ctx m)) (pw_candidate (pm_ctx m)) (pm_children m pid)) \<and>
     (pw_active_pam_pid (pm_ctx m) \<noteq> 0 \<longrightarrow> published_pid (pm_worker m) = Some (pw_active_pam_pid (pm_ctx m))) \<and>
     \<not> kills_other (pm_worker m)"

lemma child_of_killed [simp]:
  "child_of u c (pm_children (kill_child k m) p) = child_of u c (pm_children m p)"
  by (simp add: kill_child_def split: pam_child.splits)

lemma child_of_exited:
  "pm_children m p = Child_running u' c' \<Longrightarrow>
   child_of u c (if p = q then Zombie u' c' st else pm_children m q) = child_of u c (pm_children m q)"
  by (cases "pm_children m q") auto

lemma pw_pids_ok_step:
  "pw_threads_ok m \<Longrightarrow> pw_candidate_ok m \<Longrightarrow> pw_pids_ok m \<Longrightarrow> pw_step l m = Some m' \<Longrightarrow> pw_pids_ok m'"
  by (erule pw_step_cases; (erule pw_step_elims)?;
      clarsimp simp: pw_threads_ok_def pw_pids_ok_def pw_step_simps fun_upd_def child_of_exited split: if_splits pam_child.splits)

lemma exited_zero_simps [simp]:
  "\<not> exited_zero SIGKILL" "exited_zero (pam_child_exit a b c * 256) \<longleftrightarrow> pam_child_exit a b c = 0"
  by (simp_all add: exited_zero_def SIGKILL_def pam_child_exit_def)

fun worker_status :: "pw_pc \<Rightarrow> int option" where
  "worker_status (W_clear pid status) = Some status"
| "worker_status (W_result status) = Some status"
| "worker_status W_finish = Some 0"
| "worker_status _ = None"

definition vouched :: "pw_machine \<Rightarrow> bool" where
  "vouched m \<longleftrightarrow> Wait_interrupted \<in> set (pm_events m) \<or>
     Pam_accepted (pw_username (pm_ctx m)) (pw_candidate (pm_ctx m)) \<in> set (pm_events m)"

fun backed :: "string option \<Rightarrow> pw_event list \<Rightarrow> bool" where
  "backed u [] = True"
| "backed u (e # es) \<longleftrightarrow> backed u es \<and>
     (e = Pw_call Pw_on_finish \<longrightarrow>
        Wait_interrupted \<in> set es \<or> (\<exists>c. Pam_accepted u (Some c) \<in> set es \<and> Verify_ok (Some c) \<in> set es))"

fun about_child :: "(string option \<Rightarrow> string option \<Rightarrow> bool) \<Rightarrow> pam_child \<Rightarrow> bool" where
  "about_child P No_child = True"
| "about_child P (Child_running u c) = P u c"
| "about_child P (Zombie u c st) = P u c"

fun passed :: "pw_event list \<Rightarrow> pam_child \<Rightarrow> bool" where
  "passed es (Zombie u c st) \<longleftrightarrow> (exited_zero st \<longrightarrow> Pam_accepted u c \<in> set es)"
| "passed es _ = True"

definition pw_evidence :: "pw_machine \<Rightarrow> bool" where
  "pw_evidence m \<longleftrightarrow>
     (\<forall>pid. passed (pm_events m) (pm_children m pid)) \<and>
     (\<forall>st. worker_status (pm_worker m) = Some st \<and> exited_zero st \<longrightarrow> vouched m) \<and>
     backed (pw_username (pm_ctx m)) (pm_events m)"

lemma passed_mono: "passed es ch \<Longrightarrow> set es \<subseteq> set es' \<Longrightarrow> passed es' ch"
  by (cases ch) auto

lemma passed_killed:
  "\<forall>pid. passed (pm_events m) (pm_children m pid) \<Longrightarrow>
   passed (pm_events (kill_child k m)) (pm_children (kill_child k m) pid)"
  using passed_mono [OF _ kill_child_events, of m "pm_children m pid" k]
  by (auto simp: kill_child_def split: pam_child.splits)

lemma backed_killed [simp]: "backed u (pm_events (kill_child k m)) = backed u (pm_events m)"
  by (simp add: kill_child_def split: pam_child.splits)

lemma passed_Cons: "passed es ch \<Longrightarrow> passed (e # es) ch"
  by (rule passed_mono) auto

lemma passedD:
  "\<forall>pid. passed es (f pid) \<Longrightarrow> f pid = Zombie u c st \<Longrightarrow> exited_zero st \<Longrightarrow> Pam_accepted u c \<in> set es"
  by (metis passed.simps(1))

lemma exited_zero_0 [simp]: "exited_zero 0" by (simp add: exited_zero_def)

lemma pw_evidence_step:
  "pw_threads_ok m \<Longrightarrow> pw_candidate_ok m \<Longrightarrow> pw_pids_ok m \<Longrightarrow> pw_evidence m \<Longrightarrow> pw_step l m = Some m' \<Longrightarrow> pw_evidence m'"
  by (erule pw_step_cases; (erule pw_step_elims)?;
      clarsimp simp: pw_threads_ok_def pw_candidate_ok_def pw_pids_ok_def pw_evidence_def pw_step_simps vouched_def passed_Cons passed_killed
       split: if_splits pam_child.splits; (auto simp: passed_Cons dest: passedD; fail)?)

definition pw_reaps :: "pw_machine \<Rightarrow> bool" where
  "pw_reaps m \<longleftrightarrow> Wait_interrupted \<in> set (pm_events m) \<or>
     (\<forall>pid. pm_children m pid \<noteq> No_child \<longrightarrow> worker_pid (pm_worker m) = Some pid)"

lemma killed_child [simp]: "pm_children (kill_child k m) pid = No_child \<longleftrightarrow> pm_children m pid = No_child"
  by (simp add: kill_child_def split: pam_child.splits)

lemma pw_reaps_step:
  "pw_threads_ok m \<Longrightarrow> pw_reaps m \<Longrightarrow> pw_step l m = Some m' \<Longrightarrow> pw_reaps m'"
  by (erule pw_step_cases; (erule pw_step_elims)?;
      clarsimp simp: pw_threads_ok_def pw_reaps_def pw_step_simps
       split: if_splits pam_child.splits; (force; fail)?)

fun is_verdict :: "pw_event \<Rightarrow> bool" where
  "is_verdict (Pw_call Pw_on_finish) = True"
| "is_verdict (Pw_call (Pw_on_error _)) = True"
| "is_verdict _ = False"

fun is_started :: "pw_event \<Rightarrow> bool" where
  "is_started (Verify_ok _) = True"
| "is_started _ = False"

definition verdicts :: "pw_event list \<Rightarrow> nat" where
  "verdicts es = length (filter is_verdict es)"

definition verifications :: "pw_event list \<Rightarrow> nat" where
  "verifications es = length (filter is_started es)"

lemma count_simps [simp]:
  "verdicts [] = 0" "verifications [] = 0"
  "verdicts (e # es) = (if is_verdict e then Suc (verdicts es) else verdicts es)"
  "verifications (e # es) = (if is_started e then Suc (verifications es) else verifications es)"
  by (simp_all add: verdicts_def verifications_def)

lemma kill_counts [simp]:
  "verdicts (pm_events (kill_child k m)) = verdicts (pm_events m)"
  "verifications (pm_events (kill_child k m)) = verifications (pm_events m)"
  by (simp_all add: kill_child_def split: pam_child.splits)

fun undecided :: "pw_pc \<Rightarrow> nat" where
  "undecided W_none = 0"
| "undecided W_end = 0"
| "undecided W_stopped = 0"
| "undecided W_on_stop = 0"
| "undecided W_free = 0"
| "undecided W_last = 0"
| "undecided W_done = 0"
| "undecided _ = 1"

definition pw_verdicts_ok :: "pw_machine \<Rightarrow> bool" where
  "pw_verdicts_ok m \<longleftrightarrow> verdicts (pm_events m) + undecided (pm_worker m) \<le> verifications (pm_events m)"

lemma pw_verdicts_ok_step:
  "pw_threads_ok m \<Longrightarrow> pw_verdicts_ok m \<Longrightarrow> pw_step l m = Some m' \<Longrightarrow> pw_verdicts_ok m'"
  by (erule pw_step_cases; (erule pw_step_elims)?;
      clarsimp simp: pw_threads_ok_def pw_verdicts_ok_def pw_step_simps split: if_splits pam_child.splits)

definition quiet_step :: "pw_label \<Rightarrow> pw_machine \<Rightarrow> pw_machine option" where
  "quiet_step l m = (case l of Pw_stop _ \<Rightarrow> None | Pw_delete \<Rightarrow> None | _ \<Rightarrow> pw_step l m)"

fun owner_runs :: "pw_owner_pc \<Rightarrow> bool" where
  "owner_runs (V_join _) = True"
| "owner_runs (V_dup _) = True"
| "owner_runs V_dup_failed = True"
| "owner_runs V_create = True"
| "owner_runs V_create_failed = True"
| "owner_runs _ = False"

definition quiet_ok :: "pw_machine \<Rightarrow> bool" where
  "quiet_ok m \<longleftrightarrow> pw_threads_ok m \<and> (\<forall>t. pm_stops m t = S_idle) \<and>
     (pw_is_running (pm_ctx m) \<longleftrightarrow> owner_runs (pm_owner m) \<or> pm_worker m \<noteq> W_none \<and> pm_worker m \<noteq> W_done) \<and>
     (owner_runs (pm_owner m) \<longrightarrow> pm_worker m = W_none \<or> pm_worker m = W_done) \<and>
     pm_worker m \<noteq> W_on_stop \<and>
     (pwh_on_finish (pw_handlers (pm_ctx m)) \<and> pwh_on_error (pw_handlers (pm_ctx m)) \<longrightarrow>
       verdicts (pm_events m) + undecided (pm_worker m) = verifications (pm_events m))"

lemma quiet_step_Some: "quiet_step l m = Some m' \<Longrightarrow> pw_step l m = Some m' \<and> (\<forall>t. l \<noteq> Pw_stop t) \<and> l \<noteq> Pw_delete"
  by (auto simp: quiet_step_def split: pw_label.splits)

lemma quiet_ok_step:
  assumes "quiet_ok m" and "quiet_step l m = Some m'"
  shows "quiet_ok m'"
proof -
  from quiet_step_Some [OF assms(2)] have "pw_step l m = Some m'" "\<forall>t. l \<noteq> Pw_stop t" "l \<noteq> Pw_delete" by auto
  with assms(1) show ?thesis
    by - (erule pw_step_cases; (erule pw_step_elims)?;
      clarsimp simp: quiet_ok_def pw_threads_ok_def pw_step_simps split: if_splits pam_child.splits)
qed

text \<open>Cancellation: a child that the worker waits for and that still runs has its pid published, or a
  thread is about to kill it; once \<open>is_running\<close> is false and the pid is still published, a
  thread inside \<open>kl_password_stop\<close> is about to take it.\<close>

fun waits_for :: "pw_pc \<Rightarrow> int option" where
  "waits_for (W_check pid) = Some pid"
| "waits_for (W_take pid) = Some pid"
| "waits_for (W_wait pid) = Some pid"
| "waits_for _ = None"

fun is_child_running :: "pam_child \<Rightarrow> bool" where
  "is_child_running (Child_running u c) = True"
| "is_child_running _ = False"

definition stopping :: "pw_stop_pc \<Rightarrow> (nat \<Rightarrow> pw_stop_pc) \<Rightarrow> bool" where
  "stopping x stops \<longleftrightarrow> (\<exists>t. stops t = x)"

lemma stopping_upd: "stops t \<noteq> x \<Longrightarrow> stopping x (stops(t := y)) \<longleftrightarrow> y = x \<or> stopping x stops"
  unfolding stopping_def by (metis fun_upd_apply)

definition pw_cancel_ok :: "pw_machine \<Rightarrow> bool" where
  "pw_cancel_ok m \<longleftrightarrow>
     (\<forall>pid. waits_for (pm_worker m) = Some pid \<and> 0 < pid \<and> is_child_running (pm_children m pid) \<longrightarrow>
        pw_active_pam_pid (pm_ctx m) = pid \<or> stopping (S_kill pid) (pm_stops m)) \<and>
     (\<forall>pid. pm_worker m = W_wait pid \<and> 0 < pid \<and> pw_active_pam_pid (pm_ctx m) = pid \<and>
        \<not> pw_is_running (pm_ctx m) \<longrightarrow> stopping S_exchange (pm_stops m))"

lemma running_after_kill [simp]:
  "is_child_running (pm_children (kill_child k m) pid) \<longleftrightarrow> pid \<noteq> k \<and> is_child_running (pm_children m pid)"
  by (auto simp: kill_child_def split: pam_child.splits)

lemma pw_cancel_ok_step:
  "pw_threads_ok m \<Longrightarrow> pw_pids_ok m \<Longrightarrow> pw_cancel_ok m \<Longrightarrow> pw_step l m = Some m' \<Longrightarrow> pw_cancel_ok m'"
  apply (erule pw_step_cases; (erule pw_step_elims)?;
      clarsimp simp: pw_threads_ok_def pw_pids_ok_def pw_cancel_ok_def pw_step_simps stopping_upd
       split: if_splits pam_child.splits; (auto; fail)?)
  done

text \<open>What no step changes, and what events never do.\<close>

lemma pw_step_keeps:
  "pw_step l m = Some m' \<Longrightarrow> pw_handlers (pm_ctx m') = pw_handlers (pm_ctx m) \<and>
   pw_username (pm_ctx m') = pw_username (pm_ctx m) \<and> set (pm_events m) \<subseteq> set (pm_events m')"
  by (erule pw_step_cases; (erule pw_step_elims)?;
      clarsimp simp: pw_step_simps subsetD [OF kill_child_events] split: if_splits pam_child.splits)

subsection \<open>The invariants of the machine\<close>

definition pw_inv :: "pw_machine \<Rightarrow> bool" where
  "pw_inv m \<longleftrightarrow> pw_threads_ok m \<and> pw_candidate_ok m \<and> pw_pids_ok m \<and> pw_evidence m \<and> pw_reaps m \<and>
     pw_verdicts_ok m \<and> pw_cancel_ok m"

lemmas pw_inv_defs = pw_threads_ok_def pw_candidate_ok_def pw_pids_ok_def pw_evidence_def pw_reaps_def
  pw_verdicts_ok_def pw_cancel_ok_def vouched_def

lemma pw_initial_inv: "pw_initial m \<Longrightarrow> pw_inv m"
  using pw_initial_fields [of m] by (simp add: pw_inv_def pw_inv_defs)

lemma pw_inv_step: "pw_inv m \<Longrightarrow> pw_step l m = Some m' \<Longrightarrow> pw_inv m'"
  unfolding pw_inv_def
  using pw_threads_ok_step pw_candidate_ok_step pw_pids_ok_step pw_evidence_step pw_reaps_step
    pw_verdicts_ok_step pw_cancel_ok_step by meson

interpretation pw: machine_invariant pw_initial pw_step pw_inv
  by unfold_locales (auto intro: pw_initial_inv pw_inv_step)

lemma pw_initial_quiet: "pw_initial m \<Longrightarrow> quiet_ok m"
  using pw_initial_fields [of m] by (simp add: quiet_ok_def pw_threads_ok_def)

interpretation quiet: machine_invariant pw_initial quiet_step quiet_ok
  by unfold_locales (auto intro: pw_initial_quiet quiet_ok_step)

text \<open>The worker's rank: how many steps it has left at most.\<close>

fun pw_rank :: "pw_pc \<Rightarrow> nat" where
  "pw_rank W_begin = 15"
| "pw_rank W_fork = 14"
| "pw_rank (W_store _) = 13"
| "pw_rank (W_check _) = 12"
| "pw_rank (W_take _) = 11"
| "pw_rank (W_kill _ _) = 10"
| "pw_rank (W_wait _) = 9"
| "pw_rank (W_clear _ _) = 8"
| "pw_rank (W_result _) = 7"
| "pw_rank W_finish = 6"
| "pw_rank W_auth_error = 6"
| "pw_rank W_fork_error = 6"
| "pw_rank W_end = 5"
| "pw_rank W_stopped = 4"
| "pw_rank W_on_stop = 3"
| "pw_rank W_free = 2"
| "pw_rank W_last = 1"
| "pw_rank _ = 0"

fun moves_worker :: "pw_label \<Rightarrow> bool" where
  "moves_worker (Pw_worker _) = True"
| "moves_worker (Pw_interrupt _) = True"
| "moves_worker _ = False"

fun is_owner_step :: "pw_label \<Rightarrow> bool" where
  "is_owner_step (Pw_owner _) = True"
| "is_owner_step _ = False"

lemma pw_rank_step:
  "pw_threads_ok m \<Longrightarrow> pw_step l m = Some m' \<Longrightarrow> \<not> is_owner_step l \<Longrightarrow> \<not> pm_fault m' \<Longrightarrow>
   (if moves_worker l then Suc (pw_rank (pm_worker m')) else pw_rank (pm_worker m')) \<le> pw_rank (pm_worker m)"
  by (erule pw_step_cases; (erule pw_step_elims)?;
      clarsimp simp: pw_step_simps split: if_splits pam_child.splits)

lemma pw_fault_final: "pm_fault m \<Longrightarrow> pw_step l m = None"
  by (simp add: pw_step_def)

interpretation pw_ends: winding_up pw_step "\<lambda>l. \<not> is_owner_step l" moves_worker "\<lambda>m. \<not> pm_fault m"
  pw_threads_ok "\<lambda>m. pw_rank (pm_worker m)"
proof
  show "\<not> pm_fault m" if "pw_step l m = Some m'" for l m m' using that pw_fault_final by fastforce
  show "pw_threads_ok m' \<and>
      (if moves_worker l then Suc (pw_rank (pm_worker m')) else pw_rank (pm_worker m')) \<le> pw_rank (pm_worker m)"
    if "pw_threads_ok m" "pw_step l m = Some m'" "\<not> is_owner_step l" "\<not> pm_fault m'" for l m m'
    using pw_threads_ok_step [OF that(1,2)] pw_rank_step [OF that] by blast
qed

lemma pw_rank_max: "pw_rank pc \<le> 15"
  by (cases pc) simp_all

lemma pw_worker_moves:
  assumes inv: "pw_inv m" and w: "pm_worker m \<noteq> W_none" "pm_worker m \<noteq> W_done"
  shows "(\<exists>pid m'. pw_step (Pw_worker pid) m = Some m') \<or>
    (\<exists>pid. pm_worker m = W_wait pid \<and> is_child_running (pm_children m pid))"
proof (cases "\<exists>pid. pm_worker m = W_wait pid")
  case True
  then obtain pid where pid: "pm_worker m = W_wait pid" by blast
  then have "pm_children m pid \<noteq> No_child" and "pm_alive m" "\<not> pm_fault m"
    using inv w by (auto simp: pw_inv_def pw_pids_ok_def pw_threads_ok_def)
  with pid show ?thesis by (cases "pm_children m pid") (auto simp: pw_step_def)
next
  case False
  have "pm_alive m" "\<not> pm_fault m"
    using inv w by (auto simp: pw_inv_def pw_threads_ok_def)
  then have "\<exists>m'. pw_step (Pw_worker (-1)) m = Some m'"
    using False w by (cases "pm_worker m"; simp add: pw_step_def Let_def)
  then show ?thesis by blast
qed

text \<open>Once \<open>is_running\<close> is false and every stop call has returned, the worker does not wait for a
  child that runs.\<close>

lemma stopped_child:
  assumes inv: "pw_inv m" and "\<not> pw_is_running (pm_ctx m)" and "\<forall>t. pm_stops m t = S_idle"
    and w: "pm_worker m = W_wait pid"
  shows "\<not> is_child_running (pm_children m pid)"
proof -
  have "0 < pid" using inv w by (simp add: pw_inv_def pw_pids_ok_def)
  then show ?thesis using inv w assms(2,3) by (auto simp: pw_inv_def pw_cancel_ok_def stopping_def)
qed

lemma pw_stopped_moves:
  assumes "pw_inv m" and "\<not> pw_is_running (pm_ctx m)" and "\<forall>t. pm_stops m t = S_idle"
    and "pm_worker m \<noteq> W_none" and "pm_worker m \<noteq> W_done"
  shows "\<exists>pid m'. pw_step (Pw_worker pid) m = Some m'"
  using pw_worker_moves [OF assms(1,4,5)] stopped_child [OF assms(1-3)] by blast

subsection \<open>The conversation function\<close>

lemma secure_clear_all: "secure_clear v (length v) = replicate (length v) 0"
  by (induction v) simp_all

abbreviation conv_answer :: "string \<Rightarrow> int \<Rightarrow> string option" where
  "conv_answer appdata msg_style \<equiv> if is_prompt msg_style then Some appdata else None"

lemma list_update_mid: "(xs @ x # ys)[length xs := y] = xs @ y # ys"
  by simp

lemma conv_loop_result:
  "case conv_loop appdata dup (length made) msg (made @ replicate (length msg) None) of
     Inr reply \<Rightarrow> reply = made @ map (conv_answer appdata) msg \<and>
       (\<forall>j < length msg. is_prompt (msg ! j) \<longrightarrow> dup (length made + j))
   | Inl (i, reply) \<Rightarrow> (\<forall>j < length reply. i \<le> j \<longrightarrow> reply ! j = None) \<and>
       \<not> (\<forall>j < length msg. is_prompt (msg ! j) \<longrightarrow> dup (length made + j))"
proof (induction msg arbitrary: made)
  case (Cons style msg)
  let ?made = "made @ [conv_answer appdata style]"
  show ?case
  proof (cases "is_prompt style \<and> \<not> dup (length made)")
    case True
    then show ?thesis by (auto simp: nth_append nth_Cons' intro!: exI [of _ 0])
  next
    case False
    then have step: "conv_loop appdata dup (length made) (style # msg) (made @ replicate (length (style # msg)) None)
      = conv_loop appdata dup (length ?made) msg (?made @ replicate (length msg) None)"
      by auto
    have all: "(\<forall>j < length (style # msg). is_prompt ((style # msg) ! j) \<longrightarrow> dup (length made + j))
      \<longleftrightarrow> (\<forall>j < length msg. is_prompt (msg ! j) \<longrightarrow> dup (length ?made + j))"
      using False by (auto simp: less_Suc_eq_0_disj nth_Cons' all_conj_distrib)
    show ?thesis using Cons.IH [of ?made] unfolding step all by (auto split: sum.splits)
  qed
qed simp

lemma free_replies_frees:
  "length (free_replies i reply) = length reply \<and>
   (\<forall>j < length reply. free_replies i reply ! j = (if j < i then None else reply ! j))"
  by (induction i reply rule: free_replies.induct) (auto simp: nth_list_update less_Suc_eq)

subsection \<open>Example runs\<close>

definition pw_sample :: pw_machine where
  "pw_sample = pw_fresh (the (fst (kl_password_set_handlers (kl_password_init True True 1 (Some ''kiri''))
     (Some \<lparr>pwh_on_init = True, pwh_on_begin = True, pwh_on_finish = True, pwh_on_error = True,
        pwh_on_end = True, pwh_on_stop = True, pwh_on_delete = True\<rparr>))))"

lemma pw_sample_initial: "pw_initial pw_sample"
  unfolding pw_initial_def pw_sample_def kl_password_init_def by auto

text \<open>Verify, wait for the child and report.\<close>

definition start_verify :: "string \<Rightarrow> pw_label list" where
  "start_verify password = [Pw_verify password, Pw_owner True, Pw_owner True, Pw_owner True]"

definition pw_good_run :: "pw_label list" where
  "pw_good_run = start_verify ''secret'' @ [Pw_worker 0, Pw_worker 42, Pw_worker 0, Pw_worker 0,
     Pw_child 42 0 0 0] @ replicate 8 (Pw_worker 0)"

text \<open>A stop that comes before the fork, then another verification whose compare-and-exchange comes
  before the first worker has returned.\<close>

definition pw_lost_prefix :: "pw_label list" where
  "pw_lost_prefix = start_verify ''wrong'' @ [Pw_worker 0, Pw_stop 1, Pw_stopper 1, Pw_stopper 1]"

definition pw_lost_suffix :: "pw_label list" where
  "pw_lost_suffix = [Pw_verify ''secret'', Pw_worker 42, Pw_worker 0, Pw_worker 0, Pw_child 42 0 7 0]
     @ replicate 8 (Pw_worker 0) @ [Pw_owner True, Pw_owner True, Pw_owner True, Pw_worker 0, Pw_worker 43]
     @ replicate 12 (Pw_worker 0)"

text \<open>A stop that has taken the pid but not yet killed while the worker reaps the child.\<close>

definition pw_stray_run :: "pw_label list" where
  "pw_stray_run = start_verify ''secret'' @ [Pw_worker 0, Pw_worker 42, Pw_worker 0, Pw_worker 0,
     Pw_stop 1, Pw_stopper 1, Pw_stopper 1, Pw_child 42 0 0 0, Pw_worker 0, Pw_stopper 1]"

lemma pw_good_run_reach:
  "reach pw_initial pw_step (the (exec pw_step pw_good_run pw_sample))"
proof -
  have "exec pw_step pw_good_run pw_sample \<noteq> None" by code_simp
  then obtain m where "exec pw_step pw_good_run pw_sample = Some m" by blast
  with exec_from_init [of pw_initial pw_sample, OF pw_sample_initial] show ?thesis by simp
qed

subsection \<open>Properties\<close>

text \<open>
  (C20) A password is reported as verified only if PAM accepted it.  In every interleaving of the
  worker, the child processes, the owner and any number of threads inside \<open>kl_password_stop\<close>, if
  \<open>on_finish\<close> was called and no \<open>waitpid\<close> had been interrupted before, then a child process of
  this user had got three successes from PAM for a password that was given to
  \<open>kl_password_verify\<close>.
\<close>

theorem kl_password_finish_backed:
  assumes "reach pw_initial pw_step m" and "pm_events m = later @ Pw_call Pw_on_finish # earlier"
    and "Wait_interrupted \<notin> set earlier"
  shows "\<exists>password. Pam_accepted (pw_username (pm_ctx m)) (Some password) \<in> set earlier \<and>
    Verify_ok (Some password) \<in> set earlier"
proof -
  have "backed (pw_username (pm_ctx m)) (later @ Pw_call Pw_on_finish # earlier)"
    using pw.holds [OF assms(1)] assms(2) by (simp add: pw_inv_def pw_evidence_def)
  then show ?thesis using assms(3) by (induction later) auto
qed

theorem kl_password_finish_backed_witness:
  "let m = the (exec pw_step pw_good_run pw_sample); es = pm_events m; earlier = drop 2 es
   in es = Pw_call Pw_on_end # Pw_call Pw_on_finish # earlier \<and>
     (\<exists>password. Pam_accepted (Some ''kiri'') (Some password) \<in> set earlier)"
proof -
  let ?m = "the (exec pw_step pw_good_run pw_sample)"
  let ?earlier = "drop 2 (pm_events ?m)"
  have es: "pm_events ?m = [Pw_call Pw_on_end] @ Pw_call Pw_on_finish # ?earlier" by code_simp
  have "Wait_interrupted \<notin> set ?earlier" by code_simp
  from kl_password_finish_backed [OF pw_good_run_reach es this]
  have "\<exists>password. Pam_accepted (pw_username (pm_ctx ?m)) (Some password) \<in> set ?earlier" by blast
  moreover have "pw_username (pm_ctx ?m) = Some ''kiri''" by code_simp
  ultimately show ?thesis using es by (simp add: Let_def)
qed



text \<open>
  (C23) The worker ends.  However the threads are interleaved, while the owner does not start another
  verification the worker makes at most fifteen steps, and until it has returned it can always make
  one, unless it waits for a child process that still runs.
\<close>

theorem pw_worker_terminates:
  assumes "reach pw_initial pw_step m" and "exec pw_step ls m = Some m'" and "\<forall>l \<in> set ls. \<not> is_owner_step l"
    and "\<not> pm_fault m'"
  shows "length (filter moves_worker ls) \<le> 15 \<and>
    (pm_worker m' = W_none \<or> pm_worker m' = W_done \<or>
     (\<exists>pid m''. pw_step (Pw_worker pid) m' = Some m'') \<or>
     (\<exists>pid. pm_worker m' = W_wait pid \<and> is_child_running (pm_children m' pid)))"
proof -
  have "pw_inv m" "pw_inv m'" using pw.holds assms(1) exec_reach [OF assms(1,2)] by blast+
  with pw_ends.bounded [OF _ assms(2-4)] pw_rank_max [of "pm_worker m"] pw_worker_moves [of m']
  show ?thesis by (force simp: pw_inv_def)
qed

theorem pw_worker_terminates_witness:
  "let m = the (exec pw_step (start_verify ''secret'') pw_sample); ls = drop 4 pw_good_run;
       m' = the (exec pw_step ls m)
   in length (filter moves_worker ls) \<le> 15 \<and> pm_worker m' = W_done"
proof -
  let ?m = "the (exec pw_step (start_verify ''secret'') pw_sample)"
  let ?ls = "drop 4 pw_good_run"
  let ?m' = "the (exec pw_step ?ls ?m)"
  have "exec pw_step (start_verify ''secret'') pw_sample \<noteq> None" by code_simp
  then have "exec pw_step (start_verify ''secret'') pw_sample = Some ?m" by simp
  from exec_from_init [of pw_initial, OF pw_sample_initial this] have r: "reach pw_initial pw_step ?m" .
  have "exec pw_step ?ls ?m \<noteq> None" by code_simp
  then have e: "exec pw_step ?ls ?m = Some ?m'" by simp
  have "\<forall>l \<in> set ?ls. \<not> is_owner_step l" by code_simp
  moreover have "\<not> pm_fault ?m'" by code_simp
  moreover have "pm_worker ?m' = W_done" by code_simp
  ultimately show ?thesis using pw_worker_terminates [OF r e] by (simp add: Let_def)
qed

text \<open>
  (C21) Stopping takes effect.  Once \<open>is_running\<close> has been cleared and no thread is inside
  \<open>kl_password_stop\<close> any more, the child that the worker waits for has ended, killed or not: the
  worker is not held up by PAM, whatever the order in which the worker published the pid and the
  stopping thread looked for it.
\<close>

theorem kl_password_stop_cancels:
  assumes "reach pw_initial pw_step m" and "\<not> pw_is_running (pm_ctx m)" and "\<forall>t. pm_stops m t = S_idle"
    and "pm_worker m \<noteq> W_none" and "pm_worker m \<noteq> W_done"
  shows "\<exists>pid m'. pw_step (Pw_worker pid) m = Some m'"
  using pw_stopped_moves [OF pw.holds [OF assms(1)] assms(2-5)] .

definition pw_stop_run :: "pw_label list" where
  "pw_stop_run = start_verify ''secret'' @ [Pw_worker 0, Pw_worker 42, Pw_worker 0, Pw_worker 0,
     Pw_stop 1, Pw_stopper 1, Pw_stopper 1, Pw_stopper 1]"

lemma pw_step_other_stops:
  "pw_step l m = Some m' \<Longrightarrow> l \<noteq> Pw_stop t \<Longrightarrow> l \<noteq> Pw_delete \<Longrightarrow> pm_stops m t = S_idle \<Longrightarrow> pm_stops m' t = S_idle"
  by (erule pw_step_cases; (erule pw_step_elims)?;
      clarsimp simp: pw_step_simps split: if_splits pam_child.splits)

lemma exec_other_stops:
  "exec pw_step ls m = Some m' \<Longrightarrow> Pw_stop t \<notin> set ls \<Longrightarrow> Pw_delete \<notin> set ls \<Longrightarrow> pm_stops m t = S_idle \<Longrightarrow>
   pm_stops m' t = S_idle"
  by (induction ls arbitrary: m) (auto split: option.splits, metis pw_step_other_stops)

theorem kl_password_stop_cancels_witness:
  "let m = the (exec pw_step pw_stop_run pw_sample)
   in pm_worker m = W_wait 42 \<and> (\<exists>pid m'. pw_step (Pw_worker pid) m = Some m')"
proof -
  let ?m = "the (exec pw_step pw_stop_run pw_sample)"
  have "exec pw_step pw_stop_run pw_sample \<noteq> None" by code_simp
  then have e: "exec pw_step pw_stop_run pw_sample = Some ?m" by simp
  from exec_from_init [of pw_initial, OF pw_sample_initial this] have r: "reach pw_initial pw_step ?m" .
  have "pm_stops ?m 1 = S_idle" by code_simp
  moreover have "pm_stops ?m t = S_idle" if "t \<noteq> 1" for t
  proof (rule exec_other_stops [OF e])
    show "Pw_stop t \<notin> set pw_stop_run" using that by (simp add: pw_stop_run_def start_verify_def)
    show "Pw_delete \<notin> set pw_stop_run" by (simp add: pw_stop_run_def start_verify_def)
    show "pm_stops pw_sample t = S_idle" by (simp add: pw_sample_def pw_fresh_def)
  qed
  ultimately have "\<forall>t. pm_stops ?m t = S_idle" by metis
  moreover have "\<not> pw_is_running (pm_ctx ?m)" and w: "pm_worker ?m = W_wait 42" by code_simp+
  ultimately show ?thesis using kl_password_stop_cancels [OF r] by (simp add: Let_def)
qed

text \<open>
  (C24) A client that never stops the module gets exactly one verdict per verification: whenever no
  worker is at work, the calls of \<open>on_finish\<close> and \<open>on_error\<close> are as many as the
  verifications that were started.
\<close>

theorem kl_password_verify_answers:
  assumes "reach pw_initial quiet_step m" and "pm_worker m = W_none \<or> pm_worker m = W_done"
    and "pwh_on_finish (pw_handlers (pm_ctx m))" and "pwh_on_error (pw_handlers (pm_ctx m))"
  shows "verdicts (pm_events m) = verifications (pm_events m)"
  using quiet.holds [OF assms(1)] assms(2-4) by (auto simp: quiet_ok_def)

theorem kl_password_verify_answers_witness:
  "let m = the (exec quiet_step pw_good_run pw_sample) in verdicts (pm_events m) = verifications (pm_events m)"
proof -
  let ?m = "the (exec quiet_step pw_good_run pw_sample)"
  have "exec quiet_step pw_good_run pw_sample \<noteq> None" by code_simp
  then have "exec quiet_step pw_good_run pw_sample = Some ?m" by simp
  from exec_from_init [of pw_initial, OF pw_sample_initial this] have "reach pw_initial quiet_step ?m" .
  moreover have "pm_worker ?m = W_done" "pwh_on_finish (pw_handlers (pm_ctx ?m))"
    "pwh_on_error (pw_handlers (pm_ctx ?m))" by code_simp+
  ultimately show ?thesis using kl_password_verify_answers by (simp add: Let_def)
qed

text \<open>
  Without that restriction a verification can be lost.  A stop, all of it over, is followed by a
  verification while the first worker still runs: \<open>kl_password_verify\<close> sets \<open>is_running\<close>, joins
  the worker, whose last act is to clear \<open>is_running\<close>, and starts the new worker; that one finds
  the module stopped and kills its own child.  No stop was called, and there is no verdict.
\<close>

theorem kl_password_verify_lost:
  "case exec pw_step pw_lost_prefix pw_sample of None \<Rightarrow> False
   | Some m \<Rightarrow> pm_stops m 1 = S_idle \<and>
       (case exec pw_step pw_lost_suffix m of None \<Rightarrow> False
        | Some m' \<Rightarrow> pm_worker m' = W_done \<and> Verify_ok (Some ''secret'') \<in> set (pm_events m') \<and>
            Signal_sent 43 \<in> set (pm_events m') \<and>
            verifications (pm_events m') = 2 \<and> verdicts (pm_events m') = 1) \<and>
       list_all (\<lambda>l. case l of Pw_stop _ \<Rightarrow> False | Pw_stopper _ \<Rightarrow> False | Pw_delete \<Rightarrow> False | _ \<Rightarrow> True)
         pw_lost_suffix"
  by code_simp

text \<open>
  A stop can send SIGKILL to a process that is not the module's child any more: between taking
  the pid and killing it, the worker may have reaped the child.
\<close>

theorem kl_password_stop_stray_kill:
  "case exec pw_step pw_stray_run pw_sample of None \<Rightarrow> False
   | Some m \<Rightarrow> Stray_kill 42 \<in> set (pm_events m) \<and> pm_children m 42 = No_child"
  by code_simp

text \<open>
  The conversation function answers every prompt with the candidate and nothing else, or fails;
  it fails only without a response pointer, without a candidate or when memory runs out, and then
  every string it had duplicated has been freed.
\<close>

theorem internal_pam_conv_answers:
  assumes "0 < num_msg" and "length msg = nat num_msg"
  shows "case internal_pam_conv num_msg msg resp appdata alloc dup of
     (r, Inr reply) \<Rightarrow> r = PAM_SUCCESS \<and> reply = map (conv_answer (the appdata)) msg \<and>
       resp \<and> appdata \<noteq> None \<and> alloc \<and> (\<forall>j < length msg. is_prompt (msg ! j) \<longrightarrow> dup j)
   | (r, Inl freed) \<Rightarrow> r \<noteq> PAM_SUCCESS \<and> (\<forall>s \<in> set freed. s = None) \<and>
       \<not> (resp \<and> appdata \<noteq> None \<and> alloc \<and> (\<forall>j < length msg. is_prompt (msg ! j) \<longrightarrow> dup j))"
proof (cases "resp \<and> appdata \<noteq> None \<and> alloc")
  case True
  then show ?thesis
    using assms conv_loop_result [where appdata = "the appdata" and dup = dup and made = "[]" and msg = msg] free_replies_frees
    by (auto simp: internal_pam_conv_def PAM_SUCCESS_def PAM_BUF_ERR_def in_set_conv_nth
        split: sum.splits)
next
  case False
  then show ?thesis
    using assms by (auto simp: internal_pam_conv_def PAM_SUCCESS_def PAM_BUF_ERR_def PAM_CONV_ERR_def)
qed

theorem internal_pam_conv_answers_witness:
  "case internal_pam_conv 2 [4, 1] True (Some ''secret'') True (\<lambda>_. True) of
     (r, Inr reply) \<Rightarrow> reply = [None, Some ''secret'']
   | (r, Inl freed) \<Rightarrow> False"
  using internal_pam_conv_answers [of 2 "[4, 1]" True "Some ''secret''" True "\<lambda>_. True"]
  by (simp add: is_prompt_def PAM_PROMPT_ECHO_OFF_def PAM_PROMPT_ECHO_ON_def split: sum.splits prod.splits)

end
