(* ===== verification/Fingerprint.thy ===== *)
theory Fingerprint
  imports Machine
begin

section \<open>Fingerprint verification (src/auth.back/src/fingerprint.c)\<close>

text \<open>
  The context of the fingerprint module, its worker thread \<open>fp_worker\<close>, which asks fprintd over
  D-Bus to verify a finger again and again, the callback \<open>fprint_signal_cb\<close> that runs inside
  \<open>sd_bus_process\<close> on that thread, and the calls of a client.  The conventions are those of
  theory \<open>Password\<close>: one step is at most one access to a shared atomic, handlers are
  recorded as events, the label holds what D-Bus answers.  The cancel pipe is the number of bytes in
  it; the bus, the match slot and the device path are whether they exist and what the path is.
\<close>

subsection \<open>Data\<close>

datatype kl_fingerprint_error = FP_ERR_NOT_MATCH | FP_ERR_NOT_FOUND | FP_ERR_SYSTEM

datatype fp_callback =
  Fp_on_init | Fp_on_start | Fp_on_loop | Fp_on_finish | Fp_on_error kl_fingerprint_error | Fp_on_end
| Fp_on_stop | Fp_on_delete

record kl_fingerprint_handlers =
  fph_on_init :: bool
  fph_on_start :: bool
  fph_on_loop :: bool
  fph_on_finish :: bool
  fph_on_error :: bool
  fph_on_end :: bool
  fph_on_stop :: bool
  fph_on_delete :: bool

record kl_fingerprint_ctx =
  fp_handlers :: kl_fingerprint_handlers
  fp_user_data :: ptr
  fp_username :: "string option"
  fp_has_thread :: bool
  fp_init_called :: bool
  fp_is_running :: bool
  fp_check_in_progress :: bool
  fp_cancel_pipe :: nat
  fp_bus :: bool
  fp_device_path :: "string option"
  fp_signal_slot :: bool

text \<open>The program counter of the worker, with the line it is at.\<close>

datatype fp_pc =
  F_none                   \<comment> \<open>no thread\<close>
| F_loop                   \<comment> \<open>66\<close>
| F_device                 \<comment> \<open>67\<close>
| F_not_found              \<comment> \<open>68\<close>
| F_start                  \<comment> \<open>74\<close>
| F_start_error            \<comment> \<open>79\<close>
| F_set                    \<comment> \<open>90\<close>
| F_on_loop                \<comment> \<open>91\<close>
| F_running                \<comment> \<open>94, \<open>is_running\<close>\<close>
| F_checking               \<comment> \<open>95, \<open>check_in_progress\<close>\<close>
| F_process                \<comment> \<open>96\<close>
| C_result string bool     \<comment> \<open>37, in \<open>fprint_signal_cb\<close>\<close>
| C_done                   \<comment> \<open>51\<close>
| C_end                    \<comment> \<open>53\<close>
| F_select                 \<comment> \<open>107\<close>
| F_stop                   \<comment> \<open>110\<close>
| F_sleep                  \<comment> \<open>115\<close>
| F_return                 \<comment> \<open>117\<close>
| F_done                   \<comment> \<open>returned\<close>

datatype fp_owner_pc =
  FO_idle | FO_drain | FO_run | FO_check | FO_on_start | FO_create | FO_create_failed
| FD_stop | FD_join | FD_free | FO_deleted

datatype fp_stop_pc = FS_idle | FS_cas | FS_write | FS_cas_check | FS_end | FS_stop

datatype fp_event =
  Fp_call fp_callback | Fp_method string | Fp_status string bool | Fp_started | Fp_start_refused

record fp_machine =
  fm_ctx :: kl_fingerprint_ctx
  fm_alive :: bool
  fm_worker :: fp_pc
  fm_owner :: fp_owner_pc
  fm_stops :: "nat \<Rightarrow> fp_stop_pc"
  fm_events :: "fp_event list"
  fm_fault :: bool

definition fp_log :: "fp_event \<Rightarrow> fp_machine \<Rightarrow> fp_machine" where
  "fp_log e m = m\<lparr>fm_events := e # fm_events m\<rparr>"

definition fp_notify :: "(kl_fingerprint_handlers \<Rightarrow> bool) \<Rightarrow> fp_callback \<Rightarrow> fp_machine \<Rightarrow> fp_machine" where
  "fp_notify h cb m = (if h (fp_handlers (fm_ctx m)) then fp_log (Fp_call cb) m else m)"

definition fp_set :: "(kl_fingerprint_ctx \<Rightarrow> kl_fingerprint_ctx) \<Rightarrow> fp_machine \<Rightarrow> fp_machine" where
  "fp_set f m = m\<lparr>fm_ctx := f (fm_ctx m)\<rparr>"

abbreviation fp_at :: "fp_pc \<Rightarrow> fp_machine \<Rightarrow> fp_machine" where
  "fp_at pc m \<equiv> m\<lparr>fm_worker := pc\<rparr>"

subsection \<open>The worker thread and the signal callback\<close>

text \<open>The result of a status signal, as \<open>fprint_signal_cb\<close> reports it (lines 37 to 47).\<close>

definition fp_report :: "string \<Rightarrow> fp_machine \<Rightarrow> fp_machine" where
  "fp_report result m =
     (if result = ''verify-match'' then fp_notify fph_on_finish Fp_on_finish m
      else if result = ''verify-no-match'' then fp_notify fph_on_error (Fp_on_error FP_ERR_NOT_MATCH) m
      else fp_notify fph_on_error (Fp_on_error FP_ERR_SYSTEM) m)"

text \<open>
  One step of the thread; \<open>r\<close> is what the D-Bus call returns and \<open>msg\<close> the result and the done
  flag of a VerifyStatus signal that \<open>sd_bus_process\<close> dispatches and whose arguments can be read.
\<close>

fun fp_worker_at :: "fp_pc \<Rightarrow> int \<Rightarrow> (string \<times> bool) option \<Rightarrow> fp_machine \<Rightarrow> fp_machine option" where
  "fp_worker_at F_loop r msg m = Some (fp_at (if fp_is_running (fm_ctx m) then F_device else F_return) m)"
| "fp_worker_at F_device r msg m =
     Some (fp_at (if \<not> fp_bus (fm_ctx m) \<or> fp_device_path (fm_ctx m) = None then F_not_found else F_start) m)"
| "fp_worker_at F_not_found r msg m =
     Some (fp_at F_return (fp_notify fph_on_error (Fp_on_error FP_ERR_NOT_FOUND) m))"
| "fp_worker_at F_start r msg m =
     Some (fp_at (if r < 0 then F_start_error else F_set) (fp_log (Fp_method ''VerifyStart'') m))"
| "fp_worker_at F_start_error r msg m =
     Some (fp_at F_return (fp_notify fph_on_error (Fp_on_error FP_ERR_SYSTEM) m))"
| "fp_worker_at F_set r msg m = Some (fp_at F_on_loop (fp_set (fp_check_in_progress_update (\<lambda>_. True)) m))"
| "fp_worker_at F_on_loop r msg m = Some (fp_at F_running (fp_notify fph_on_loop Fp_on_loop m))"
| "fp_worker_at F_running r msg m = Some (fp_at (if fp_is_running (fm_ctx m) then F_checking else F_stop) m)"
| "fp_worker_at F_checking r msg m =
     Some (fp_at (if fp_check_in_progress (fm_ctx m) then F_process else F_stop) m)"
| "fp_worker_at F_process r msg m =
     (case msg of
        Some (result, finished) \<Rightarrow> Some (fp_at (C_result result finished) (fp_log (Fp_status result finished) m))
      | None \<Rightarrow> Some (fp_at (if r < 0 then F_stop else if r > 0 then F_running else F_select) m))"
| "fp_worker_at (C_result result finished) r msg m =
     Some (fp_at (if finished then C_done else F_running) (fp_report result m))"
| "fp_worker_at C_done r msg m =
     (if fp_check_in_progress (fm_ctx m)
      then Some (fp_at C_end (fp_set (fp_check_in_progress_update (\<lambda>_. False)) m))
      else Some (fp_at F_running m))"
| "fp_worker_at C_end r msg m = Some (fp_at F_running (fp_notify fph_on_end Fp_on_end m))"
| "fp_worker_at F_select r msg m = Some (fp_at F_running m)"
| "fp_worker_at F_stop r msg m = Some (fp_at F_sleep (fp_log (Fp_method ''VerifyStop'') m))"
| "fp_worker_at F_sleep r msg m = Some (fp_at F_loop m)"
| "fp_worker_at F_return r msg m = Some (fp_at F_done m)"
| "fp_worker_at F_none r msg m = None"
| "fp_worker_at F_done r msg m = None"

subsection \<open>The calls of the client\<close>

text \<open>
  What the system answers during \<open>kl_fingerprint_init\<close>: allocation, \<open>pipe\<close>,
  \<open>sd_bus_open_system\<close>, the call of GetDefaultDevice, the reading of its reply with the path in
  it, the duplication of the path, and the match.
\<close>

record fp_answers =
  ans_calloc :: bool
  ans_strdup :: bool
  ans_pipe :: int
  ans_open :: int
  ans_default_device :: int
  ans_read :: int
  ans_path :: string
  ans_dup_path :: bool
  ans_match :: bool

definition kl_fingerprint_init ::
  "fp_answers \<Rightarrow> ptr \<Rightarrow> string option \<Rightarrow> kl_fingerprint_ctx option" where
  "kl_fingerprint_init a user_data username =
     (if \<not> ans_calloc a then None
      else if username \<noteq> None \<and> \<not> ans_strdup a then None
      else if ans_pipe a \<noteq> 0 then None
      else
        let bus = (ans_open a \<ge> 0);
            device_path = (if bus \<and> ans_default_device a \<ge> 0 \<and> ans_read a \<ge> 0 \<and> ans_dup_path a
                           then Some (ans_path a) else None)
        in Some \<lparr>fp_handlers = \<lparr>fph_on_init = False, fph_on_start = False, fph_on_loop = False,
                    fph_on_finish = False, fph_on_error = False, fph_on_end = False, fph_on_stop = False,
                    fph_on_delete = False\<rparr>,
                  fp_user_data = user_data, fp_username = username, fp_has_thread = False,
                  fp_init_called = False, fp_is_running = False, fp_check_in_progress = False,
                  fp_cancel_pipe = 0, fp_bus = bus, fp_device_path = device_path,
                  fp_signal_slot = (device_path \<noteq> None \<and> ans_match a)\<rparr>)"

definition kl_fingerprint_set_handlers ::
  "kl_fingerprint_ctx option \<Rightarrow> kl_fingerprint_handlers option \<Rightarrow>
   kl_fingerprint_ctx option \<times> fp_callback list" where
  "kl_fingerprint_set_handlers ctx handlers =
     (case (ctx, handlers) of
        (Some ctx, Some handlers) \<Rightarrow>
          (let ctx = ctx\<lparr>fp_handlers := handlers\<rparr>
           in if \<not> fp_init_called ctx \<and> fph_on_init handlers
              then (Some (ctx\<lparr>fp_init_called := True\<rparr>), [Fp_on_init])
              else (Some ctx, []))
      | _ \<Rightarrow> (ctx, []))"

definition kl_fingerprint_is_running :: "kl_fingerprint_ctx option \<Rightarrow> bool" where
  "kl_fingerprint_is_running ctx = (case ctx of Some ctx \<Rightarrow> fp_is_running ctx | None \<Rightarrow> False)"

definition kl_fingerprint_get_user_data :: "kl_fingerprint_ctx option \<Rightarrow> ptr" where
  "kl_fingerprint_get_user_data ctx = (case ctx of Some ctx \<Rightarrow> fp_user_data ctx | None \<Rightarrow> NULL)"

text \<open>The loop of lines 193 to 196: at most 64 bytes at a time while the pipe is readable.\<close>

fun drain :: "nat \<Rightarrow> nat" where
  "drain bytes = (if bytes = 0 then 0 else drain (bytes - min 64 bytes))"

declare drain.simps [simp del]

definition kl_fingerprint_start :: "fp_machine \<Rightarrow> fp_machine option" where
  "kl_fingerprint_start m =
     (if fm_owner m \<noteq> FO_idle then None
      else if fp_has_thread (fm_ctx m) then Some (fp_log Fp_start_refused m)
      else Some (m\<lparr>fm_owner := FO_drain\<rparr>))"

definition fp_join :: "fp_owner_pc \<Rightarrow> fp_machine \<Rightarrow> fp_machine option" where
  "fp_join next m =
     (if fp_has_thread (fm_ctx m) then
        (if fm_worker m = F_done
         then Some ((fp_set (fp_has_thread_update (\<lambda>_. False)) (fp_at F_none m))\<lparr>fm_owner := next\<rparr>)
         else None)
      else Some (m\<lparr>fm_owner := next\<rparr>))"

fun fp_owner_at :: "fp_owner_pc \<Rightarrow> bool \<Rightarrow> fp_machine \<Rightarrow> fp_machine option" where
  "fp_owner_at FO_drain ok m = Some ((fp_set (fp_cancel_pipe_update drain) m)\<lparr>fm_owner := FO_run\<rparr>)"
| "fp_owner_at FO_run ok m = Some ((fp_set (fp_is_running_update (\<lambda>_. True)) m)\<lparr>fm_owner := FO_check\<rparr>)"
| "fp_owner_at FO_check ok m =
     Some ((fp_set (fp_check_in_progress_update (\<lambda>_. False)) m)\<lparr>fm_owner := FO_on_start\<rparr>)"
| "fp_owner_at FO_on_start ok m = Some ((fp_notify fph_on_start Fp_on_start m)\<lparr>fm_owner := FO_create\<rparr>)"
| "fp_owner_at FO_create ok m =
     Some (if ok then (fp_log Fp_started (fp_at F_loop (fp_set (fp_has_thread_update (\<lambda>_. True)) m)))\<lparr>fm_owner := FO_idle\<rparr>
           else m\<lparr>fm_owner := FO_create_failed\<rparr>)"
| "fp_owner_at FO_create_failed ok m =
     Some ((fp_log Fp_start_refused (fp_set (fp_is_running_update (\<lambda>_. False)) m))\<lparr>fm_owner := FO_idle\<rparr>)"
| "fp_owner_at FD_stop ok m = (if fm_stops m 0 = FS_idle then Some (m\<lparr>fm_owner := FD_join\<rparr>) else None)"
| "fp_owner_at FD_join ok m = fp_join FD_free m"
| "fp_owner_at FD_free ok m =
     (let m = (if fp_bus (fm_ctx m) \<and> fp_device_path (fm_ctx m) \<noteq> None
               then fp_log (Fp_method ''Release'') m else m)
      in Some ((fp_notify fph_on_delete Fp_on_delete m)\<lparr>fm_alive := False, fm_owner := FO_deleted\<rparr>))"
| "fp_owner_at _ ok m = None"

text \<open>\<open>kl_fingerprint_stop\<close> by thread \<open>t\<close>; the owner is thread 0.  \<open>ok\<close> is whether the
  write to the pipe succeeds, which the code ignores.\<close>

definition kl_fingerprint_stop :: "nat \<Rightarrow> fp_machine \<Rightarrow> fp_machine option" where
  "kl_fingerprint_stop t m =
     (if fm_stops m t = FS_idle then Some (m\<lparr>fm_stops := (fm_stops m)(t := FS_cas)\<rparr>) else None)"

fun fp_stop_at :: "fp_stop_pc \<Rightarrow> nat \<Rightarrow> bool \<Rightarrow> fp_machine \<Rightarrow> fp_machine option" where
  "fp_stop_at FS_idle t ok m = None"
| "fp_stop_at FS_cas t ok m =
     (if fp_is_running (fm_ctx m)
      then Some ((fp_set (fp_is_running_update (\<lambda>_. False)) m)\<lparr>fm_stops := (fm_stops m)(t := FS_write)\<rparr>)
      else Some (m\<lparr>fm_stops := (fm_stops m)(t := FS_cas_check)\<rparr>))"
| "fp_stop_at FS_write t ok m =
     Some ((if ok then fp_set (fp_cancel_pipe_update Suc) m else m)\<lparr>fm_stops := (fm_stops m)(t := FS_cas_check)\<rparr>)"
| "fp_stop_at FS_cas_check t ok m =
     (if fp_check_in_progress (fm_ctx m)
      then Some ((fp_set (fp_check_in_progress_update (\<lambda>_. False)) m)\<lparr>fm_stops := (fm_stops m)(t := FS_end)\<rparr>)
      else Some (m\<lparr>fm_stops := (fm_stops m)(t := FS_idle)\<rparr>))"
| "fp_stop_at FS_end t ok m =
     Some ((fp_notify fph_on_end Fp_on_end m)\<lparr>fm_stops := (fm_stops m)(t := FS_stop)\<rparr>)"
| "fp_stop_at FS_stop t ok m =
     Some ((fp_notify fph_on_stop Fp_on_stop m)\<lparr>fm_stops := (fm_stops m)(t := FS_idle)\<rparr>)"

definition kl_fingerprint_delete :: "fp_machine \<Rightarrow> fp_machine option" where
  "kl_fingerprint_delete m =
     (if fm_owner m = FO_idle \<and> fm_stops m 0 = FS_idle
      then Some (m\<lparr>fm_owner := FD_stop, fm_stops := (fm_stops m)(0 := FS_cas)\<rparr>)
      else None)"

subsection \<open>The machine\<close>

datatype fp_label =
  Fp_worker int "(string \<times> bool) option" | Fp_start | Fp_owner bool | Fp_delete | Fp_stop nat
| Fp_stopper nat bool

text \<open>Every step of the worker and of a thread inside \<open>kl_fingerprint_stop\<close> reads the context.\<close>

definition fp_step :: "fp_label \<Rightarrow> fp_machine \<Rightarrow> fp_machine option" where
  "fp_step l m =
     (if fm_fault m then None
      else case l of
        Fp_worker r msg \<Rightarrow>
          if fm_alive m \<or> fm_worker m = F_none \<or> fm_worker m = F_done
          then fp_worker_at (fm_worker m) r msg m else Some (m\<lparr>fm_fault := True\<rparr>)
      | Fp_start \<Rightarrow> kl_fingerprint_start m
      | Fp_owner ok \<Rightarrow> fp_owner_at (fm_owner m) ok m
      | Fp_delete \<Rightarrow> kl_fingerprint_delete m
      | Fp_stop t \<Rightarrow> kl_fingerprint_stop t m
      | Fp_stopper t ok \<Rightarrow>
          if fm_alive m \<or> fm_stops m t = FS_idle
          then fp_stop_at (fm_stops m t) t ok m else Some (m\<lparr>fm_fault := True\<rparr>))"

definition fp_fresh :: "kl_fingerprint_ctx \<Rightarrow> fp_machine" where
  "fp_fresh ctx = \<lparr>fm_ctx = ctx, fm_alive = True, fm_worker = F_none, fm_owner = FO_idle,
     fm_stops = (\<lambda>_. FS_idle), fm_events = [], fm_fault = False\<rparr>"

definition fp_initial :: "fp_machine \<Rightarrow> bool" where
  "fp_initial m \<longleftrightarrow> (\<exists>a user_data username handlers ctx.
     kl_fingerprint_init a user_data username = Some ctx \<and>
     m = fp_fresh (the (fst (kl_fingerprint_set_handlers (Some ctx) handlers))))"

subsection \<open>Reasoning about steps\<close>

lemma fp_log_fields [simp]:
  "fm_ctx (fp_log e m) = fm_ctx m"
  "fm_alive (fp_log e m) = fm_alive m"
  "fm_worker (fp_log e m) = fm_worker m"
  "fm_owner (fp_log e m) = fm_owner m"
  "fm_stops (fp_log e m) = fm_stops m"
  "fm_events (fp_log e m) = e # fm_events m"
  "fm_fault (fp_log e m) = fm_fault m"
  by (simp_all add: fp_log_def)

lemma fp_set_fields [simp]:
  "fm_ctx (fp_set f m) = f (fm_ctx m)"
  "fm_alive (fp_set f m) = fm_alive m"
  "fm_worker (fp_set f m) = fm_worker m"
  "fm_owner (fp_set f m) = fm_owner m"
  "fm_stops (fp_set f m) = fm_stops m"
  "fm_events (fp_set f m) = fm_events m"
  "fm_fault (fp_set f m) = fm_fault m"
  by (simp_all add: fp_set_def)

lemma fp_notify_fields [simp]:
  "fm_ctx (fp_notify h cb m) = fm_ctx m"
  "fm_alive (fp_notify h cb m) = fm_alive m"
  "fm_worker (fp_notify h cb m) = fm_worker m"
  "fm_owner (fp_notify h cb m) = fm_owner m"
  "fm_stops (fp_notify h cb m) = fm_stops m"
  "fm_events (fp_notify h cb m) = (if h (fp_handlers (fm_ctx m)) then Fp_call cb # fm_events m else fm_events m)"
  "fm_fault (fp_notify h cb m) = fm_fault m"
  by (simp_all add: fp_notify_def)

lemma fp_report_fields [simp]:
  "fm_ctx (fp_report result m) = fm_ctx m"
  "fm_alive (fp_report result m) = fm_alive m"
  "fm_worker (fp_report result m) = fm_worker m"
  "fm_owner (fp_report result m) = fm_owner m"
  "fm_stops (fp_report result m) = fm_stops m"
  "fm_fault (fp_report result m) = fm_fault m"
  by (simp_all add: fp_report_def)

lemma drain_empties [simp]: "drain bytes = 0"
  by (induction bytes rule: drain.induct) (simp add: drain.simps)

lemmas fp_calls = kl_fingerprint_start_def fp_join_def kl_fingerprint_stop_def kl_fingerprint_delete_def Let_def
lemmas fp_step_elims = fp_worker_at.elims fp_owner_at.elims fp_stop_at.elims

lemma fp_step_cases [consumes 1, case_names fault worker start owner delete stop stopper]:
  assumes "fp_step l m = Some m'"
  obtains "m' = m\<lparr>fm_fault := True\<rparr>" "\<not> fm_alive m" "fm_worker m = F_none \<longrightarrow> (\<exists>t ok. l = Fp_stopper t ok)"
  | r msg where "l = Fp_worker r msg" "fp_worker_at (fm_worker m) r msg m = Some m'"
  | "l = Fp_start" "kl_fingerprint_start m = Some m'"
  | ok where "l = Fp_owner ok" "fp_owner_at (fm_owner m) ok m = Some m'"
  | "l = Fp_delete" "kl_fingerprint_delete m = Some m'"
  | t where "l = Fp_stop t" "kl_fingerprint_stop t m = Some m'"
  | t ok where "l = Fp_stopper t ok" "fp_stop_at (fm_stops m t) t ok m = Some m'"
proof -
  have "m' = m\<lparr>fm_fault := True\<rparr> \<and> \<not> fm_alive m \<and> (fm_worker m = F_none \<longrightarrow> (\<exists>t ok. l = Fp_stopper t ok)) \<or>
    (\<exists>r msg. l = Fp_worker r msg \<and> fp_worker_at (fm_worker m) r msg m = Some m') \<or>
    l = Fp_start \<and> kl_fingerprint_start m = Some m' \<or>
    (\<exists>ok. l = Fp_owner ok \<and> fp_owner_at (fm_owner m) ok m = Some m') \<or>
    l = Fp_delete \<and> kl_fingerprint_delete m = Some m' \<or>
    (\<exists>t. l = Fp_stop t \<and> kl_fingerprint_stop t m = Some m') \<or>
    (\<exists>t ok. l = Fp_stopper t ok \<and> fp_stop_at (fm_stops m t) t ok m = Some m')"
    using assms by (cases l) (simp_all add: fp_step_def split: if_splits)
  then show thesis by (elim disjE exE conjE) (erule that; assumption)+
qed

lemma fp_initial_fields:
  assumes "fp_initial m"
  shows "fm_alive m" "fm_worker m = F_none" "fm_owner m = FO_idle" "fm_stops m = (\<lambda>_. FS_idle)"
    "fm_events m = []" "\<not> fm_fault m" "\<not> fp_has_thread (fm_ctx m)" "\<not> fp_is_running (fm_ctx m)"
    "\<not> fp_check_in_progress (fm_ctx m)"
proof -
  obtain a user_data username handlers ctx where
    ctx: "kl_fingerprint_init a user_data username = Some ctx" and
    m: "m = fp_fresh (the (fst (kl_fingerprint_set_handlers (Some ctx) handlers)))"
    using assms by (auto simp: fp_initial_def)
  show "fm_alive m" "fm_worker m = F_none" "fm_owner m = FO_idle" "fm_stops m = (\<lambda>_. FS_idle)"
    "fm_events m = []" "\<not> fm_fault m" "\<not> fp_has_thread (fm_ctx m)" "\<not> fp_is_running (fm_ctx m)"
    "\<not> fp_check_in_progress (fm_ctx m)"
    using ctx by (simp_all add: m fp_fresh_def kl_fingerprint_set_handlers_def kl_fingerprint_init_def
        Let_def split: option.split if_splits) (auto split: option.split)
qed

fun fp_owner_alone :: "fp_owner_pc \<Rightarrow> bool" where
  "fp_owner_alone FO_idle = False"
| "fp_owner_alone FD_stop = False"
| "fp_owner_alone FD_join = False"
| "fp_owner_alone _ = True"

definition fp_threads_ok :: "fp_machine \<Rightarrow> bool" where
  "fp_threads_ok m \<longleftrightarrow>
     (fp_has_thread (fm_ctx m) \<longleftrightarrow> fm_worker m \<noteq> F_none) \<and>
     (fp_owner_alone (fm_owner m) \<longrightarrow> fm_worker m = F_none) \<and>
     (fm_alive m \<longleftrightarrow> fm_owner m \<noteq> FO_deleted) \<and> (fm_fault m \<longrightarrow> \<not> fm_alive m)"

lemma fp_threads_ok_step: "fp_threads_ok m \<Longrightarrow> fp_step l m = Some m' \<Longrightarrow> fp_threads_ok m'"
  by (erule fp_step_cases; (erule fp_step_elims)?;
      clarsimp simp: fp_threads_ok_def fp_calls split: if_splits option.splits)

text \<open>What no step changes, and what events never do.\<close>

lemma fp_step_keeps:
  "fp_step l m = Some m' \<Longrightarrow> fp_handlers (fm_ctx m') = fp_handlers (fm_ctx m) \<and>
   set (fm_events m) \<subseteq> set (fm_events m')"
  by (erule fp_step_cases; (erule fp_step_elims)?;
      clarsimp simp: fp_report_def fp_calls split: if_splits option.splits; (auto; fail)?)

text \<open>The thread is created at most once in the life of a context.\<close>

fun fp_ending :: "fp_owner_pc \<Rightarrow> bool" where
  "fp_ending FD_free = True"
| "fp_ending FO_deleted = True"
| "fp_ending _ = False"

definition fp_starts :: "fp_event list \<Rightarrow> nat" where
  "fp_starts es = length (filter (\<lambda>e. e = Fp_started) es)"

lemma fp_starts_simps [simp]:
  "fp_starts [] = 0" "fp_starts (e # es) = (if e = Fp_started then Suc (fp_starts es) else fp_starts es)"
  by (simp_all add: fp_starts_def)

lemma fp_starts_report [simp]: "fp_starts (fm_events (fp_report result m)) = fp_starts (fm_events m)"
  by (simp add: fp_report_def)

definition fp_starts_ok :: "fp_machine \<Rightarrow> bool" where
  "fp_starts_ok m \<longleftrightarrow> fp_starts (fm_events m) \<le> 1 \<and>
     (fp_starts (fm_events m) = 0 \<or> fm_worker m \<noteq> F_none \<or> fp_ending (fm_owner m))"

lemma fp_starts_ok_step: "fp_threads_ok m \<Longrightarrow> fp_starts_ok m \<Longrightarrow> fp_step l m = Some m' \<Longrightarrow> fp_starts_ok m'"
  by (erule fp_step_cases; (erule fp_step_elims)?;
      clarsimp simp: fp_threads_ok_def fp_starts_ok_def fp_calls split: if_splits option.splits)

text \<open>A match is reported only when fprintd has sent one.\<close>

fun fp_backed :: "fp_event list \<Rightarrow> bool" where
  "fp_backed [] = True"
| "fp_backed (e # es) \<longleftrightarrow> fp_backed es \<and>
     (e = Fp_call Fp_on_finish \<longrightarrow> (\<exists>finished. Fp_status ''verify-match'' finished \<in> set es))"

fun fp_reporting :: "fp_pc \<Rightarrow> (string \<times> bool) option" where
  "fp_reporting (C_result result finished) = Some (result, finished)"
| "fp_reporting _ = None"

definition fp_evidence :: "fp_machine \<Rightarrow> bool" where
  "fp_evidence m \<longleftrightarrow> fp_backed (fm_events m) \<and>
     (\<forall>result finished. fp_reporting (fm_worker m) = Some (result, finished) \<longrightarrow>
        Fp_status result finished \<in> set (fm_events m))"

lemma fp_evidence_step: "fp_threads_ok m \<Longrightarrow> fp_evidence m \<Longrightarrow> fp_step l m = Some m' \<Longrightarrow> fp_evidence m'"
  by (erule fp_step_cases; (erule fp_step_elims)?;
      clarsimp simp: fp_threads_ok_def fp_evidence_def fp_report_def fp_calls split: if_splits option.splits; (auto; fail)?)

definition fp_inv :: "fp_machine \<Rightarrow> bool" where
  "fp_inv m \<longleftrightarrow> fp_threads_ok m \<and> fp_starts_ok m \<and> fp_evidence m"

lemma fp_initial_inv: "fp_initial m \<Longrightarrow> fp_inv m"
  using fp_initial_fields [of m]
  by (simp add: fp_inv_def fp_threads_ok_def fp_starts_ok_def fp_evidence_def)

lemma fp_inv_step: "fp_inv m \<Longrightarrow> fp_step l m = Some m' \<Longrightarrow> fp_inv m'"
  unfolding fp_inv_def using fp_threads_ok_step fp_starts_ok_step fp_evidence_step by meson

interpretation fp: machine_invariant fp_initial fp_step fp_inv
  by unfold_locales (auto intro: fp_initial_inv fp_inv_step)

subsection \<open>Cancellation\<close>

text \<open>The steps the worker has left at most once \<open>is_running\<close> is false.\<close>

fun fp_rank :: "fp_pc \<Rightarrow> nat" where
  "fp_rank F_checking = 10"
| "fp_rank F_process = 9"
| "fp_rank F_device = 9"
| "fp_rank F_start = 8"
| "fp_rank (C_result _ _) = 8"
| "fp_rank F_set = 7"
| "fp_rank C_done = 7"
| "fp_rank F_on_loop = 6"
| "fp_rank C_end = 6"
| "fp_rank F_select = 6"
| "fp_rank F_running = 5"
| "fp_rank F_stop = 4"
| "fp_rank F_sleep = 3"
| "fp_rank F_loop = 2"
| "fp_rank F_not_found = 2"
| "fp_rank F_start_error = 2"
| "fp_rank F_return = 1"
| "fp_rank F_none = 0"
| "fp_rank F_done = 0"

lemma fp_rank_max: "fp_rank pc \<le> 10"
  by (cases pc) simp_all

fun is_fp_worker :: "fp_label \<Rightarrow> bool" where
  "is_fp_worker (Fp_worker _ _) = True"
| "is_fp_worker _ = False"

definition fp_stopped :: "fp_machine \<Rightarrow> bool" where
  "fp_stopped m \<longleftrightarrow> \<not> fp_is_running (fm_ctx m) \<and> (fm_worker m \<noteq> F_none \<or> fp_ending (fm_owner m))"

lemma fp_stopped_step:
  "fp_threads_ok m \<Longrightarrow> fp_stopped m \<Longrightarrow> fp_step l m = Some m' \<Longrightarrow>
   fp_stopped m' \<and> (if is_fp_worker l then Suc (fp_rank (fm_worker m')) else fp_rank (fm_worker m')) \<le> fp_rank (fm_worker m)"
  by (erule fp_step_cases; (erule fp_step_elims)?;
      clarsimp simp: fp_threads_ok_def fp_stopped_def fp_calls split: if_splits option.splits; (auto; fail)?)

interpretation fp_ends: winding_up fp_step "\<lambda>_. True" is_fp_worker "\<lambda>_. True"
  "\<lambda>m. fp_threads_ok m \<and> fp_stopped m" "\<lambda>m. fp_rank (fm_worker m)"
  by unfold_locales (use fp_threads_ok_step fp_stopped_step in blast)+

lemma fp_worker_moves:
  assumes "fp_threads_ok m" and "fm_worker m \<noteq> F_none" and "fm_worker m \<noteq> F_done"
  shows "\<exists>m'. fp_step (Fp_worker r msg) m = Some m'"
proof -
  have "fm_alive m" "\<not> fm_fault m" using assms by (auto simp: fp_threads_ok_def)
  then show ?thesis using assms(2,3)
    by (cases "fm_worker m"; simp add: fp_step_def Let_def split: option.split)
qed

subsection \<open>Example runs\<close>

definition fp_device_ok :: fp_answers where
  "fp_device_ok = \<lparr>ans_calloc = True, ans_strdup = True, ans_pipe = 0, ans_open = 0, ans_default_device = 0,
     ans_read = 1, ans_path = ''/net/reactivated/Fprint/Device/0'', ans_dup_path = True, ans_match = True\<rparr>"

definition fp_sample :: fp_machine where
  "fp_sample = fp_fresh (the (fst (kl_fingerprint_set_handlers
     (kl_fingerprint_init fp_device_ok 1 (Some ''kiri''))
     (Some \<lparr>fph_on_init = True, fph_on_start = True, fph_on_loop = True, fph_on_finish = True,
        fph_on_error = True, fph_on_end = True, fph_on_stop = True, fph_on_delete = True\<rparr>))))"

lemma fp_sample_initial: "fp_initial fp_sample"
  unfolding fp_initial_def
  by (rule exI [of _ fp_device_ok], rule exI [of _ 1], rule exI [of _ "Some ''kiri''"])
     (auto simp: fp_sample_def kl_fingerprint_init_def fp_device_ok_def Let_def)

definition fp_go :: fp_label where "fp_go = Fp_worker 0 None"

definition fp_start_run :: "fp_label list" where
  "fp_start_run = Fp_start # replicate 5 (Fp_owner True)"

definition fp_match_run :: "fp_label list" where
  "fp_match_run = fp_start_run @ replicate 7 fp_go @ [Fp_worker 1 (Some (''verify-match'', True)), fp_go]"

text \<open>A stop between the start of a scan at the device and the store of \<open>check_in_progress\<close>.\<close>

definition fp_late_stop :: "fp_label list" where
  "fp_late_stop = fp_start_run @ replicate 3 fp_go @ [Fp_stop 1] @ replicate 3 (Fp_stopper 1 True)"

definition fp_late_rest :: "fp_label list" where
  "fp_late_rest = replicate 7 fp_go"

lemma fp_run_reach:
  "exec fp_step ls fp_sample \<noteq> None \<Longrightarrow> reach fp_initial fp_step (the (exec fp_step ls fp_sample))"
  using exec_from_init [of fp_initial, OF fp_sample_initial] by fastforce

subsection \<open>Properties\<close>

text \<open>
  A finger is reported as recognised only if fprintd said so: in every interleaving, each call of
  \<open>on_finish\<close> comes after a VerifyStatus signal with the result verify-match.
\<close>

theorem kl_fingerprint_finish_backed:
  assumes "reach fp_initial fp_step m" and "fm_events m = later @ Fp_call Fp_on_finish # earlier"
  shows "\<exists>finished. Fp_status ''verify-match'' finished \<in> set earlier"
proof -
  have "fp_backed (later @ Fp_call Fp_on_finish # earlier)"
    using fp.holds [OF assms(1)] assms(2) by (simp add: fp_inv_def fp_evidence_def)
  then show ?thesis by (induction later) auto
qed

theorem kl_fingerprint_finish_backed_witness:
  "let earlier = tl (fm_events (the (exec fp_step fp_match_run fp_sample)))
   in \<exists>finished. Fp_status ''verify-match'' finished \<in> set earlier"
proof -
  let ?m = "the (exec fp_step fp_match_run fp_sample)"
  have "exec fp_step fp_match_run fp_sample \<noteq> None" by code_simp
  moreover have "fm_events ?m = [] @ Fp_call Fp_on_finish # tl (fm_events ?m)" by code_simp
  ultimately show ?thesis using kl_fingerprint_finish_backed fp_run_reach unfolding Let_def by blast
qed

text \<open>
  (C25) Stopping takes effect.  Once \<open>is_running\<close> is false while the worker exists, it stays false,
  the worker makes at most ten more steps, whatever the other threads do, and it can always make
  the next one until it has returned; so the join in \<open>kl_fingerprint_delete\<close> comes to an end.
\<close>

theorem kl_fingerprint_stop_cancels:
  assumes "reach fp_initial fp_step m" and "fp_has_thread (fm_ctx m)" and "\<not> fp_is_running (fm_ctx m)"
    and "exec fp_step ls m = Some m'"
  shows "\<not> fp_is_running (fm_ctx m') \<and> length (filter is_fp_worker ls) \<le> 10 \<and>
    (fm_worker m' = F_none \<or> fm_worker m' = F_done \<or> (\<exists>m''. fp_step (Fp_worker r msg) m' = Some m''))"
proof -
  have inv: "fp_threads_ok m" "fp_threads_ok m'"
    using fp.holds assms(1) exec_reach [OF assms(1,4)] by (auto simp: fp_inv_def)
  moreover from this(1) assms(2,3) have "fp_stopped m" by (simp add: fp_threads_ok_def fp_stopped_def)
  ultimately show ?thesis
    using fp_ends.bounded [OF _ assms(4)] fp_rank_max [of "fm_worker m"] fp_worker_moves [of m' r msg]
    by (fastforce simp: fp_stopped_def)
qed

theorem kl_fingerprint_stop_cancels_witness:
  "let m = the (exec fp_step fp_late_stop fp_sample)
   in fp_has_thread (fm_ctx m) \<and> length (filter is_fp_worker fp_late_rest) \<le> 10"
proof -
  let ?m = "the (exec fp_step fp_late_stop fp_sample)"
  have "exec fp_step fp_late_stop fp_sample \<noteq> None" by code_simp
  note r = fp_run_reach [OF this]
  have h: "fp_has_thread (fm_ctx ?m)" "\<not> fp_is_running (fm_ctx ?m)" by code_simp+
  have "exec fp_step fp_late_rest ?m \<noteq> None" by code_simp
  then obtain m' where "exec fp_step fp_late_rest ?m = Some m'" by blast
  from kl_fingerprint_stop_cancels [OF r h this] h(1) show ?thesis by (simp add: Let_def)
qed

text \<open>
  A context scans once: in its whole life at most one worker is created, and
  \<open>kl_fingerprint_start\<close> refuses while there is one, even after it was stopped and has returned.
\<close>

theorem kl_fingerprint_start_once:
  assumes "reach fp_initial fp_step m"
  shows "fp_starts (fm_events m) \<le> 1 \<and>
    (fm_owner m = FO_idle \<and> fp_starts (fm_events m) = 1 \<longrightarrow>
       kl_fingerprint_start m = Some (fp_log Fp_start_refused m))"
  using fp.holds [OF assms]
  by (auto simp: fp_inv_def fp_starts_ok_def fp_threads_ok_def kl_fingerprint_start_def)

theorem kl_fingerprint_start_once_witness:
  "let m = the (exec fp_step (fp_late_stop @ fp_late_rest) fp_sample)
   in fm_worker m = F_done \<and> kl_fingerprint_start m = Some (fp_log Fp_start_refused m)"
proof -
  let ?m = "the (exec fp_step (fp_late_stop @ fp_late_rest) fp_sample)"
  have "exec fp_step (fp_late_stop @ fp_late_rest) fp_sample \<noteq> None" by code_simp
  moreover have "fm_worker ?m = F_done" "fm_owner ?m = FO_idle" "fp_starts (fm_events ?m) = 1" by code_simp+
  ultimately show ?thesis using kl_fingerprint_start_once [OF fp_run_reach] unfolding Let_def by blast
qed

text \<open>
  A stop that is over before \<open>check_in_progress\<close> is set finds nothing to end: the worker still
  announces the scan with \<open>on_loop\<close>, and returns with \<open>check_in_progress\<close> set and neither
  \<open>on_end\<close> nor \<open>on_stop\<close> called.
\<close>

theorem fp_scan_after_stop:
  "case exec fp_step fp_late_stop fp_sample of None \<Rightarrow> False
   | Some m \<Rightarrow> fm_stops m 1 = FS_idle \<and> \<not> fp_is_running (fm_ctx m) \<and>
       Fp_call Fp_on_loop \<notin> set (fm_events m) \<and>
       (case exec fp_step fp_late_rest m of None \<Rightarrow> False
        | Some m' \<Rightarrow> fm_worker m' = F_done \<and> Fp_call Fp_on_loop \<in> set (fm_events m') \<and>
            Fp_call Fp_on_end \<notin> set (fm_events m') \<and> Fp_call Fp_on_stop \<notin> set (fm_events m') \<and>
            fp_check_in_progress (fm_ctx m'))"
  by code_simp

end
