(* ===== verification/Line_Input.thy ===== *)
theory Line_Input
  imports Prelude
begin

section \<open>Reading the password line (src/auth.back/example/main.c, lines 191 to 226)\<close>

text \<open>
  The coordinator's input loop keeps the line typed so far in an array of 512 bytes with a length.
  \<open>handle_key\<close> is what the loop does with one byte read from the terminal; it returns the C
  string passed to \<open>kl_password_verify\<close>, if any.  \<open>edit_line\<close> is the reference, on plain
  strings; the lemmas show that the array code implements it, stays in the array and wipes what it
  drops.
\<close>

definition MAX_PASS_LEN :: nat where "MAX_PASS_LEN = 512"

record input =
  pass_buf :: "char list"
  pass_len :: nat

abbreviation NUL :: char where "NUL \<equiv> CHR 0x00"

definition code :: "char \<Rightarrow> nat" where "code c = of_char c"

text \<open>The string that a C function sees in a buffer.\<close>

definition c_string :: "char list \<Rightarrow> string" where
  "c_string buf = takeWhile (\<lambda>c. c \<noteq> NUL) buf"

definition explicit_bzero :: "char list \<Rightarrow> nat \<Rightarrow> char list" where
  "explicit_bzero buf n = replicate (min n (length buf)) NUL @ drop n buf"

definition handle_key :: "char \<Rightarrow> input \<Rightarrow> input \<times> string option" where
  "handle_key c inp =
     (let buf = pass_buf inp; len = pass_len inp in
      if code c = 10 \<or> code c = 13 then
        (let buf = buf[len := NUL] in
         if len > 0 then (\<lparr>pass_buf = explicit_bzero buf len, pass_len = 0\<rparr>, Some (c_string buf))
         else (\<lparr>pass_buf = buf, pass_len = len\<rparr>, None))
      else if code c = 127 \<or> code c = 8 then
        (if len > 0 then (\<lparr>pass_buf = buf[len - 1 := NUL], pass_len = len - 1\<rparr>, None) else (inp, None))
      else if code c \<ge> 32 \<and> code c \<le> 126 then
        (if len < MAX_PASS_LEN - 1 then (\<lparr>pass_buf = buf[len := c], pass_len = len + 1\<rparr>, None)
         else (inp, None))
      else (inp, None))"

text \<open>A sequence of keys, with the strings submitted on the way.\<close>

fun type_keys :: "(char \<Rightarrow> 's \<Rightarrow> 's \<times> string option) \<Rightarrow> char list \<Rightarrow> 's \<Rightarrow> 's \<times> string list" where
  "type_keys key [] s = (s, [])"
| "type_keys key (c # cs) s =
     (let (s, out) = key c s; (s, outs) = type_keys key cs s
      in (s, (case out of None \<Rightarrow> outs | Some line \<Rightarrow> line # outs)))"

definition edit_line :: "char \<Rightarrow> string \<Rightarrow> string \<times> string option" where
  "edit_line c line =
     (if code c = 10 \<or> code c = 13 then (if line = [] then ([], None) else ([], Some line))
      else if code c = 127 \<or> code c = 8 then (butlast line, None)
      else if 32 \<le> code c \<and> code c \<le> 126 \<and> length line < MAX_PASS_LEN - 1 then (line @ [c], None)
      else (line, None))"

definition input_line :: "input \<Rightarrow> string" where
  "input_line inp = take (pass_len inp) (pass_buf inp)"

definition input_ok :: "input \<Rightarrow> bool" where
  "input_ok inp \<longleftrightarrow> length (pass_buf inp) = MAX_PASS_LEN \<and> pass_len inp < MAX_PASS_LEN \<and>
     NUL \<notin> set (input_line inp)"

definition input_wiped :: "input \<Rightarrow> bool" where
  "input_wiped inp \<longleftrightarrow> set (drop (pass_len inp) (pass_buf inp)) \<subseteq> {NUL}"

lemma code_NUL: "code NUL = 0"
  by (simp add: code_def)

lemma c_string_terminated:
  assumes "n < length buf" and "NUL \<notin> set (take n buf)"
  shows "c_string (buf[n := NUL]) = take n buf"
proof -
  have "\<And>x. x \<in> set (take n buf) \<Longrightarrow> x \<noteq> NUL" using assms(2) by blast
  then have "takeWhile (\<lambda>c. c \<noteq> NUL) (take n buf @ NUL # drop (Suc n) buf) = take n buf"
    by (subst takeWhile_append2) simp_all
  then show ?thesis using assms(1) by (simp add: c_string_def upd_conv_take_nth_drop)
qed

lemma take_put: "n < length xs \<Longrightarrow> take (Suc n) (xs[n := x]) = take n xs @ [x]"
  by (simp add: take_Suc_conv_app_nth)

lemma drop_put: "n < length xs \<Longrightarrow> drop n (xs[n := x]) = x # drop (Suc n) xs"
  by (metis Cons_nth_drop_Suc drop_update_cancel length_list_update lessI nth_list_update_eq)

lemma take_put_butlast: "n \<le> length xs \<Longrightarrow> take (n - 1) (xs[n - 1 := x]) = butlast (take n xs)"
  by (simp add: butlast_take)

lemma max_pass_len: "0 < MAX_PASS_LEN" "n < MAX_PASS_LEN - 1 \<longleftrightarrow> Suc n < MAX_PASS_LEN"
  by (auto simp: MAX_PASS_LEN_def)

lemmas input_defs = input_ok_def input_line_def input_wiped_def

text \<open>The end of a line that is not empty, by the array and the length.\<close>

lemma handle_key_enter:
  assumes inp: "inp = \<lparr>pass_buf = buf, pass_len = len\<rparr>" and ok: "input_ok inp"
    and enter: "code c = 10 \<or> code c = 13" and len0: "len \<noteq> 0"
  shows "input_ok (fst (handle_key c inp)) \<and>
    edit_line c (input_line inp) = (input_line (fst (handle_key c inp)), snd (handle_key c inp)) \<and>
    (input_wiped inp \<longrightarrow> input_wiped (fst (handle_key c inp)))"
proof -
  have len: "length buf = MAX_PASS_LEN" "len < length buf" "NUL \<notin> set (take len buf)"
    using ok by (auto simp: inp input_defs)
  have line: "input_line inp = take len buf" using len by (simp add: inp input_line_def)
  have key: "handle_key c inp =
      (\<lparr>pass_buf = replicate len NUL @ NUL # drop (Suc len) buf, pass_len = 0\<rparr>, Some (take len buf))"
    using enter len len0 c_string_terminated [OF len(2,3)] drop_put [OF len(2)]
    by (simp add: inp handle_key_def explicit_bzero_def)
  have "input_wiped inp \<longrightarrow> set (drop (Suc len) buf) \<subseteq> {NUL}"
    using set_drop_subset_set_drop [of len "Suc len" buf] by (auto simp: inp input_wiped_def)
  then have "input_wiped inp \<longrightarrow> input_wiped (fst (handle_key c inp))"
    unfolding key by (auto simp: input_wiped_def)
  moreover have "input_ok (fst (handle_key c inp))"
    using len unfolding key by (simp add: input_ok_def input_line_def max_pass_len)
  moreover have "edit_line c (input_line inp) = ([], Some (take len buf))"
    using enter len0 len(2) unfolding line edit_line_def by auto
  ultimately show ?thesis unfolding key by (simp add: input_line_def)
qed

lemma handle_key_edits:
  assumes "input_ok inp"
  shows "input_ok (fst (handle_key c inp)) \<and>
    edit_line c (input_line inp) = (input_line (fst (handle_key c inp)), snd (handle_key c inp)) \<and>
    (input_wiped inp \<longrightarrow> input_wiped (fst (handle_key c inp)))"
proof -
  obtain buf len where inp: "inp = \<lparr>pass_buf = buf, pass_len = len\<rparr>" by (cases inp)
  have len: "length buf = MAX_PASS_LEN" "len < length buf" "NUL \<notin> set (take len buf)"
    using assms by (auto simp: inp input_defs)
  have line: "input_line inp = take len buf" "length (take len buf) = len"
    using len by (simp_all add: inp input_line_def)
  consider (enter) "code c = 10 \<or> code c = 13"
    | (erase) "\<not> (code c = 10 \<or> code c = 13)" "code c = 127 \<or> code c = 8"
    | (other) "\<not> (code c = 10 \<or> code c = 13)" "\<not> (code c = 127 \<or> code c = 8)" by blast
  then show ?thesis
  proof cases
    case enter
    show ?thesis
    proof (cases "len = 0")
      case True
      have "buf[0 := NUL] = NUL # drop 1 buf" using drop_put [of 0 buf NUL] len by (simp add: True)
      with True enter len show ?thesis
        by (auto simp: inp handle_key_def edit_line_def input_defs max_pass_len dest: in_set_dropD)
    next
      case False
      then show ?thesis by (rule handle_key_enter [OF inp assms enter])
    qed
  next
    case erase
    show ?thesis
    proof (cases "len = 0")
      case True
      with erase assms show ?thesis by (simp add: inp handle_key_def edit_line_def input_defs)
    next
      case False
      then have "len - 1 < length buf" using len by simp
      then show ?thesis
        using erase len False drop_put [of "len - 1" buf NUL] take_put_butlast [of len buf NUL]
        by (auto simp: inp handle_key_def edit_line_def input_defs dest: in_set_butlastD)
    qed
  next
    case other
    with assms len line show ?thesis
      using drop_put [OF len(2)] take_put [OF len(2), of c] code_NUL set_drop_subset_set_drop [of len "Suc len" buf]
      by (auto simp: inp handle_key_def edit_line_def input_defs max_pass_len)
  qed
qed

lemma handle_keys_edit:
  assumes "input_ok inp" and "type_keys handle_key keys inp = (inp', lines)"
  shows "input_ok inp' \<and> type_keys edit_line keys (input_line inp) = (input_line inp', lines) \<and>
    (input_wiped inp \<longrightarrow> input_wiped inp')"
  using assms
proof (induction keys arbitrary: inp lines)
  case (Cons c keys)
  obtain inp1 out where k: "handle_key c inp = (inp1, out)" by fastforce
  obtain lines1 where "type_keys handle_key keys inp1 = (inp', lines1)"
    and "lines = (case out of None \<Rightarrow> lines1 | Some line \<Rightarrow> line # lines1)"
    using Cons.prems(2) k by (auto split: prod.splits)
  with Cons.IH [of inp1] handle_key_edits [OF Cons.prems(1), of c] k show ?case by auto
qed simp

subsection \<open>Properties\<close>

text \<open>
  (C29) The array code is the line editor.  Whatever bytes are read, from a valid buffer on, the length
  stays below 512, so that every index written is inside the array; the lines handed to
  \<open>kl_password_verify\<close> and the line under edit are those of the editor on plain strings; and
  bytes that no longer belong to the line are zero, if they were at the start.
\<close>

theorem handle_key_refines_edit_line:
  assumes "input_ok inp" and "type_keys handle_key keys inp = (inp', lines)"
  shows "input_ok inp' \<and> type_keys edit_line keys (input_line inp) = (input_line inp', lines) \<and>
    (input_wiped inp \<longrightarrow> input_wiped inp')"
  using handle_keys_edit [OF assms] .

theorem handle_key_refines_edit_line_witness:
  "let inp = \<lparr>pass_buf = replicate 512 NUL, pass_len = 0\<rparr>
   in snd (type_keys handle_key (''sex'' @ [CHR 0x7F, CHR ''c'', CHR 0x0A]) inp) = [''sec'']"
proof -
  let ?inp = "\<lparr>pass_buf = replicate 512 NUL, pass_len = 0\<rparr>"
  let ?keys = "''sex'' @ [CHR 0x7F, CHR ''c'', CHR 0x0A]"
  obtain inp' lines where run: "type_keys handle_key ?keys ?inp = (inp', lines)" by fastforce
  have "input_ok ?inp" by (simp add: input_ok_def input_line_def MAX_PASS_LEN_def)
  from handle_key_refines_edit_line [OF this run]
  have "snd (type_keys edit_line ?keys (input_line ?inp)) = lines" by simp
  moreover have "snd (type_keys edit_line ?keys []) = [''sec'']" by code_simp
  ultimately show ?thesis unfolding Let_def run by (simp add: input_line_def)
qed

end
