(* ===== verification/Coordinator.thy ===== *)
theory Coordinator
  imports Gate Terminal Password Fingerprint Line_Input
begin

section \<open>The authentication coordinator (src/auth.back/example/main.c)\<close>

text \<open>
  The program that uses both modules: the main thread starts the fingerprint scanner, reads keys,
  verifies the lines typed, and leaves its loop when a handler has set \<open>authenticated\<close>, on a
  signal, or when neither module runs; it then deletes both contexts and returns 0 or 1.  The
  handlers run on the worker threads: the first to set \<open>authenticated\<close> stops both modules.

  The state holds the machines of the two modules, the shared flags and the program counters of the
  main thread and of the handlers; a worker does not move while its handler runs.  The main thread
  is thread 0, the password worker thread 1 and the fingerprint worker thread 2 of the stop calls.
  Handlers that only print and the standard streams are not modelled.
\<close>

subsection \<open>State\<close>

datatype main_pc =
  M_start                  \<comment> \<open>184\<close>
| M_starting
| M_authenticated          \<comment> \<open>194\<close>
| M_interrupted            \<comment> \<open>194\<close>
| M_fp_running             \<comment> \<open>196\<close>
| M_pw_running             \<comment> \<open>196\<close>
| M_select                 \<comment> \<open>205\<close>
| M_key char               \<comment> \<open>210\<close>
| M_verifying              \<comment> \<open>213\<close>
| M_delete_fp              \<comment> \<open>232\<close>
| M_deleting_fp
| M_delete_pw              \<comment> \<open>233\<close>
| M_deleting_pw
| M_result                 \<comment> \<open>243\<close>
| M_exit int               \<comment> \<open>250\<close>

text \<open>A worker thread inside \<open>fp_on_finish\<close> or \<open>pw_on_finish\<close>: at the exchange, in the first
  and in the second of the two stop calls; \<open>H_error\<close> is the stop of \<open>fp_on_error\<close>.\<close>

datatype handler_pc = H_none | H_cas | H_first | H_second | H_error

record coordinator =
  co_fp :: fp_machine
  co_pw :: pw_machine
  co_authenticated :: bool
  co_interrupted :: bool
  co_main :: main_pc
  co_fp_handler :: handler_pc
  co_pw_handler :: handler_pc
  co_input :: input
  co_console :: console

definition with_fp :: "fp_label \<Rightarrow> coordinator \<Rightarrow> coordinator option" where
  "with_fp l s = (case fp_step l (co_fp s) of None \<Rightarrow> None | Some fp \<Rightarrow> Some (s\<lparr>co_fp := fp\<rparr>))"

definition with_pw :: "pw_label \<Rightarrow> coordinator \<Rightarrow> coordinator option" where
  "with_pw l s = (case pw_step l (co_pw s) of None \<Rightarrow> None | Some pw \<Rightarrow> Some (s\<lparr>co_pw := pw\<rparr>))"

subsection \<open>Handlers\<close>

text \<open>\<open>fp_on_finish\<close> (lines 57 to 65) and the stop in \<open>fp_on_error\<close> (lines 66 to 74).\<close>

fun fp_handler_at :: "handler_pc \<Rightarrow> bool \<Rightarrow> coordinator \<Rightarrow> coordinator option" where
  "fp_handler_at H_none ok s = None"
| "fp_handler_at H_cas ok s =
     (if co_authenticated s then Some (s\<lparr>co_fp_handler := H_none\<rparr>)
      else with_pw (Pw_stop 2) (s\<lparr>co_authenticated := True, co_fp_handler := H_first\<rparr>))"
| "fp_handler_at H_first ok s =
     (if pm_stops (co_pw s) 2 = S_idle then with_fp (Fp_stop 2) (s\<lparr>co_fp_handler := H_second\<rparr>)
      else with_pw (Pw_stopper 2) s)"
| "fp_handler_at H_second ok s =
     (if fm_stops (co_fp s) 2 = FS_idle then Some (s\<lparr>co_fp_handler := H_none\<rparr>)
      else with_fp (Fp_stopper 2 ok) s)"
| "fp_handler_at H_error ok s = with_fp (Fp_stop 2) (s\<lparr>co_fp_handler := H_second\<rparr>)"

text \<open>\<open>pw_on_finish\<close> (lines 98 to 106).\<close>

fun pw_handler_at :: "handler_pc \<Rightarrow> bool \<Rightarrow> coordinator \<Rightarrow> coordinator option" where
  "pw_handler_at H_cas ok s =
     (if co_authenticated s then Some (s\<lparr>co_pw_handler := H_none\<rparr>)
      else with_fp (Fp_stop 1) (s\<lparr>co_authenticated := True, co_pw_handler := H_first\<rparr>))"
| "pw_handler_at H_first ok s =
     (if fm_stops (co_fp s) 1 = FS_idle then with_pw (Pw_stop 1) (s\<lparr>co_pw_handler := H_second\<rparr>)
      else with_fp (Fp_stopper 1 ok) s)"
| "pw_handler_at H_second ok s =
     (if pm_stops (co_pw s) 1 = S_idle then Some (s\<lparr>co_pw_handler := H_none\<rparr>)
      else with_pw (Pw_stopper 1) s)"
| "pw_handler_at _ ok s = None"

text \<open>What a callback of a worker leads into.\<close>

fun fp_calls_handler :: "fp_pc \<Rightarrow> handler_pc" where
  "fp_calls_handler (C_result result finished) = (if result = ''verify-match'' then H_cas else H_none)"
| "fp_calls_handler F_not_found = H_error"
| "fp_calls_handler _ = H_none"

fun pw_calls_handler :: "pw_pc \<Rightarrow> handler_pc" where
  "pw_calls_handler W_finish = H_cas"
| "pw_calls_handler _ = H_none"

definition fp_worker_moves_on :: "int \<Rightarrow> (string \<times> bool) option \<Rightarrow> coordinator \<Rightarrow> coordinator option" where
  "fp_worker_moves_on r msg s =
     (if co_fp_handler s = H_none
      then with_fp (Fp_worker r msg) (s\<lparr>co_fp_handler := fp_calls_handler (fm_worker (co_fp s))\<rparr>)
      else None)"

definition pw_worker_moves_on :: "int \<Rightarrow> coordinator \<Rightarrow> coordinator option" where
  "pw_worker_moves_on pid s =
     (if co_pw_handler s = H_none
      then with_pw (Pw_worker pid) (s\<lparr>co_pw_handler := pw_calls_handler (pm_worker (co_pw s))\<rparr>)
      else None)"

subsection \<open>The main thread\<close>

text \<open>\<open>key\<close> is the byte read when \<open>select\<close> reports one, \<open>ok\<close> is handed to the module's
  step.\<close>

fun main_at :: "main_pc \<Rightarrow> char option \<Rightarrow> bool \<Rightarrow> coordinator \<Rightarrow> coordinator option" where
  "main_at M_start key ok s = with_fp Fp_start (s\<lparr>co_main := M_starting\<rparr>)"
| "main_at M_starting key ok s =
     (if fm_owner (co_fp s) = FO_idle then Some (s\<lparr>co_main := M_authenticated\<rparr>) else with_fp (Fp_owner ok) s)"
| "main_at M_authenticated key ok s =
     Some (s\<lparr>co_main := if co_authenticated s then M_delete_fp else M_interrupted\<rparr>)"
| "main_at M_interrupted key ok s =
     Some (s\<lparr>co_main := if co_interrupted s then M_delete_fp else M_fp_running\<rparr>)"
| "main_at M_fp_running key ok s =
     Some (s\<lparr>co_main := if kl_fingerprint_is_running (Some (fm_ctx (co_fp s))) then M_select else M_pw_running\<rparr>)"
| "main_at M_pw_running key ok s =
     Some (s\<lparr>co_main := if kl_password_is_running (Some (pm_ctx (co_pw s))) then M_select else M_delete_fp\<rparr>)"
| "main_at M_select key ok s =
     Some (s\<lparr>co_main := (case key of None \<Rightarrow> M_authenticated | Some c \<Rightarrow> M_key c)\<rparr>)"
| "main_at (M_key c) key ok s =
     (case handle_key c (co_input s) of (inp, line) \<Rightarrow>
        (case line of
           None \<Rightarrow> Some (s\<lparr>co_input := inp, co_main := M_authenticated\<rparr>)
         | Some password \<Rightarrow> with_pw (Pw_verify password) (s\<lparr>co_input := inp, co_main := M_verifying\<rparr>)))"
| "main_at M_verifying key ok s =
     (if pm_owner (co_pw s) = O_idle then Some (s\<lparr>co_main := M_authenticated\<rparr>) else with_pw (Pw_owner ok) s)"
| "main_at M_delete_fp key ok s = with_fp Fp_delete (s\<lparr>co_main := M_deleting_fp\<rparr>)"
| "main_at M_deleting_fp key ok s =
     (if fm_owner (co_fp s) = FO_deleted then Some (s\<lparr>co_main := M_delete_pw\<rparr>)
      else if fm_stops (co_fp s) 0 \<noteq> FS_idle then with_fp (Fp_stopper 0 ok) s
      else with_fp (Fp_owner ok) s)"
| "main_at M_delete_pw key ok s = with_pw Pw_delete (s\<lparr>co_main := M_deleting_pw\<rparr>)"
| "main_at M_deleting_pw key ok s =
     (if pm_owner (co_pw s) = O_deleted then Some (s\<lparr>co_main := M_result\<rparr>)
      else if pm_stops (co_pw s) 0 \<noteq> S_idle then with_pw (Pw_stopper 0) s
      else with_pw (Pw_owner ok) s)"
| "main_at M_result key ok s =
     Some (s\<lparr>co_main := M_exit (if co_authenticated s then 0 else 1), co_console := restore_tty (co_console s)\<rparr>)"
| "main_at (M_exit r) key ok s = None"

subsection \<open>The machine\<close>

datatype co_label =
  Co_main "char option" bool | Co_signal | Co_fp int "(string \<times> bool) option" | Co_fp_handler bool
| Co_pw int | Co_pw_signal int | Co_child int int int int | Co_pw_handler bool

text \<open>\<open>Co_signal\<close> is \<open>global_sig_handler\<close>; \<open>Co_pw_signal\<close> is the same on the password
  worker's thread while that is inside \<open>waitpid\<close>, which the handler, installed without
  \<open>SA_RESTART\<close>, interrupts.\<close>

definition co_step :: "co_label \<Rightarrow> coordinator \<Rightarrow> coordinator option" where
  "co_step l s =
     (case l of
        Co_main key ok \<Rightarrow> main_at (co_main s) key ok s
      | Co_signal \<Rightarrow> Some (s\<lparr>co_interrupted := True\<rparr>)
      | Co_fp r msg \<Rightarrow> fp_worker_moves_on r msg s
      | Co_fp_handler ok \<Rightarrow> fp_handler_at (co_fp_handler s) ok s
      | Co_pw pid \<Rightarrow> pw_worker_moves_on pid s
      | Co_pw_signal status \<Rightarrow> with_pw (Pw_interrupt status) (s\<lparr>co_interrupted := True\<rparr>)
      | Co_child pid start authenticate acct_mgmt \<Rightarrow> with_pw (Pw_child pid start authenticate acct_mgmt) s
      | Co_pw_handler ok \<Rightarrow> pw_handler_at (co_pw_handler s) ok s)"

text \<open>The start of \<open>main\<close>, lines 144 to 181: \<open>Inl\<close> is its early return.\<close>

record co_answers =
  sa_malloc :: bool
  sa_user :: "string option"
  sa_strdup :: bool
  sa_fp :: fp_answers
  sa_pw_calloc :: bool
  sa_pw_strdup :: bool
  sa_tty :: "termios option"

definition coord_ptr :: ptr where "coord_ptr = 1"

definition fp_handlers_all :: kl_fingerprint_handlers where
  "fp_handlers_all = \<lparr>fph_on_init = True, fph_on_start = True, fph_on_loop = True, fph_on_finish = True,
     fph_on_error = True, fph_on_end = True, fph_on_stop = True, fph_on_delete = True\<rparr>"

definition pw_handlers_all :: kl_password_handlers where
  "pw_handlers_all = \<lparr>pwh_on_init = True, pwh_on_begin = True, pwh_on_finish = True, pwh_on_error = True,
     pwh_on_end = True, pwh_on_stop = True, pwh_on_delete = True\<rparr>"

definition coordinator_setup :: "co_answers \<Rightarrow> char list \<Rightarrow> int + coordinator" where
  "coordinator_setup a garbage =
     (if \<not> sa_malloc a then Inl 1
      else if \<not> sa_strdup a then Inl 1
      else let username = (case sa_user a of Some name \<Rightarrow> name | None \<Rightarrow> ''unknown'');
               fp = kl_fingerprint_init (sa_fp a) coord_ptr (Some username);
               pw = kl_password_init (sa_pw_calloc a) (sa_pw_strdup a) coord_ptr (Some username)
           in if fp = None \<or> pw = None then Inl 1
              else Inr \<lparr>co_fp = fp_fresh (the (fst (kl_fingerprint_set_handlers fp (Some fp_handlers_all)))),
                        co_pw = pw_fresh (the (fst (kl_password_set_handlers pw (Some pw_handlers_all)))),
                        co_authenticated = False, co_interrupted = False, co_main = M_start,
                        co_fp_handler = H_none, co_pw_handler = H_none,
                        co_input = \<lparr>pass_buf = garbage, pass_len = 0\<rparr>,
                        co_console = started_console (sa_tty a)\<rparr>)"

definition co_initial :: "coordinator \<Rightarrow> bool" where
  "co_initial s \<longleftrightarrow> (\<exists>a garbage. length garbage = MAX_PASS_LEN \<and> coordinator_setup a garbage = Inr s)"

subsection \<open>The modules inside the program\<close>

lemma with_fp_Some:
  "with_fp l s = Some s' \<longleftrightarrow> (\<exists>fp. fp_step l (co_fp s) = Some fp \<and> s' = s\<lparr>co_fp := fp\<rparr>)"
  by (auto simp: with_fp_def split: option.splits)

lemma with_pw_Some:
  "with_pw l s = Some s' \<longleftrightarrow> (\<exists>pw. pw_step l (co_pw s) = Some pw \<and> s' = s\<lparr>co_pw := pw\<rparr>)"
  by (auto simp: with_pw_def split: option.splits)

lemmas with_Some = with_fp_Some with_pw_Some
  with_fp_Some [unfolded eq_commute [of "with_fp _ _"]] with_pw_Some [unfolded eq_commute [of "with_pw _ _"]]
lemmas co_moves = with_Some fp_worker_moves_on_def pw_worker_moves_on_def
lemmas co_step_elims = main_at.elims fp_handler_at.elims pw_handler_at.elims

lemma co_step_cases [consumes 1, case_names main signal fp fp_handler pw pw_signal child pw_handler]:
  assumes "co_step l s = Some s'"
  obtains key ok where "l = Co_main key ok" "main_at (co_main s) key ok s = Some s'"
  | "l = Co_signal" "s' = s\<lparr>co_interrupted := True\<rparr>"
  | r msg where "l = Co_fp r msg" "fp_worker_moves_on r msg s = Some s'"
  | ok where "l = Co_fp_handler ok" "fp_handler_at (co_fp_handler s) ok s = Some s'"
  | pid where "l = Co_pw pid" "pw_worker_moves_on pid s = Some s'"
  | status where "l = Co_pw_signal status" "with_pw (Pw_interrupt status) (s\<lparr>co_interrupted := True\<rparr>) = Some s'"
  | pid r1 r2 r3 where "l = Co_child pid r1 r2 r3" "with_pw (Pw_child pid r1 r2 r3) s = Some s'"
  | ok where "l = Co_pw_handler ok" "pw_handler_at (co_pw_handler s) ok s = Some s'"
proof -
  have "(\<exists>key ok. l = Co_main key ok \<and> main_at (co_main s) key ok s = Some s') \<or>
    l = Co_signal \<and> s' = s\<lparr>co_interrupted := True\<rparr> \<or>
    (\<exists>r msg. l = Co_fp r msg \<and> fp_worker_moves_on r msg s = Some s') \<or>
    (\<exists>ok. l = Co_fp_handler ok \<and> fp_handler_at (co_fp_handler s) ok s = Some s') \<or>
    (\<exists>pid. l = Co_pw pid \<and> pw_worker_moves_on pid s = Some s') \<or>
    (\<exists>status. l = Co_pw_signal status \<and> with_pw (Pw_interrupt status) (s\<lparr>co_interrupted := True\<rparr>) = Some s') \<or>
    (\<exists>pid r1 r2 r3. l = Co_child pid r1 r2 r3 \<and> with_pw (Pw_child pid r1 r2 r3) s = Some s') \<or>
    (\<exists>ok. l = Co_pw_handler ok \<and> pw_handler_at (co_pw_handler s) ok s = Some s')"
    using assms by (cases l) (simp_all add: co_step_def)
  then show thesis by (elim disjE exE conjE) (erule that; assumption)+
qed

lemma co_step_fp:
  "co_step l s = Some s' \<Longrightarrow> co_fp s' = co_fp s \<or> (\<exists>k. fp_step k (co_fp s) = Some (co_fp s'))"
  by (erule co_step_cases; (erule co_step_elims)?;
      clarsimp simp: co_moves split: if_splits option.splits prod.splits; (blast; fail)?)

lemma co_step_pw:
  "co_step l s = Some s' \<Longrightarrow> co_pw s' = co_pw s \<or> (\<exists>k. pw_step k (co_pw s) = Some (co_pw s'))"
  by (erule co_step_cases; (erule co_step_elims)?;
      clarsimp simp: co_moves split: if_splits option.splits prod.splits; (blast; fail)?)

lemma co_initial_parts:
  assumes "co_initial s"
  shows "fp_initial (co_fp s)" "pw_initial (co_pw s)"
    "fp_handlers (fm_ctx (co_fp s)) = fp_handlers_all" "pw_handlers (pm_ctx (co_pw s)) = pw_handlers_all"
    "\<not> co_authenticated s" "co_main s = M_start" "co_fp_handler s = H_none" "co_pw_handler s = H_none"
    "input_ok (co_input s)"
proof -
  obtain a garbage where len: "length garbage = MAX_PASS_LEN" and "coordinator_setup a garbage = Inr s"
    using assms by (auto simp: co_initial_def)
  then obtain username fp pw where
    fp: "kl_fingerprint_init (sa_fp a) coord_ptr (Some username) = Some fp" and
    pw: "kl_password_init (sa_pw_calloc a) (sa_pw_strdup a) coord_ptr (Some username) = Some pw" and
    s: "s = \<lparr>co_fp = fp_fresh (the (fst (kl_fingerprint_set_handlers (Some fp) (Some fp_handlers_all)))),
      co_pw = pw_fresh (the (fst (kl_password_set_handlers (Some pw) (Some pw_handlers_all)))),
      co_authenticated = False, co_interrupted = False, co_main = M_start,
      co_fp_handler = H_none, co_pw_handler = H_none, co_input = \<lparr>pass_buf = garbage, pass_len = 0\<rparr>,
      co_console = started_console (sa_tty a)\<rparr>"
    by (auto simp: coordinator_setup_def Let_def split: if_splits)
  have "kl_password_init True True coord_ptr (Some username) = Some pw"
    using pw by (simp add: kl_password_init_def split: if_splits)
  then show "fp_initial (co_fp s)" "pw_initial (co_pw s)"
    unfolding fp_initial_def pw_initial_def s using fp by fastforce+
  show "fp_handlers (fm_ctx (co_fp s)) = fp_handlers_all" "pw_handlers (pm_ctx (co_pw s)) = pw_handlers_all"
    by (simp_all add: s fp_fresh_def pw_fresh_def kl_fingerprint_set_handlers_def kl_password_set_handlers_def
        Let_def)
  show "\<not> co_authenticated s" "co_main s = M_start" "co_fp_handler s = H_none" "co_pw_handler s = H_none"
    "input_ok (co_input s)"
    using len by (simp_all add: s input_ok_def input_line_def max_pass_len)
qed

interpretation fp_part: machine_simulation co_initial co_step fp_initial fp_step co_fp
  by unfold_locales (auto intro: co_initial_parts dest: co_step_fp)

interpretation pw_part: machine_simulation co_initial co_step pw_initial pw_step co_pw
  by unfold_locales (auto intro: co_initial_parts dest: co_step_pw)

lemma co_fp_inv: "reach co_initial co_step s \<Longrightarrow> fp_inv (co_fp s)"
  using fp_part.reach_abs fp.holds by blast

lemma co_pw_inv: "reach co_initial co_step s \<Longrightarrow> pw_inv (co_pw s)"
  using pw_part.reach_abs pw.holds by blast

subsection \<open>Handlers run with a reason\<close>

definition co_handlers_set :: "coordinator \<Rightarrow> bool" where
  "co_handlers_set s \<longleftrightarrow> fp_handlers (fm_ctx (co_fp s)) = fp_handlers_all \<and>
     pw_handlers (pm_ctx (co_pw s)) = pw_handlers_all"

lemma co_step_keeps:
  assumes "co_step l s = Some s'"
  shows "fp_handlers (fm_ctx (co_fp s')) = fp_handlers (fm_ctx (co_fp s))"
    "pw_handlers (pm_ctx (co_pw s')) = pw_handlers (pm_ctx (co_pw s))"
    "pw_username (pm_ctx (co_pw s')) = pw_username (pm_ctx (co_pw s))"
    "set (fm_events (co_fp s)) \<subseteq> set (fm_events (co_fp s'))"
    "set (pm_events (co_pw s)) \<subseteq> set (pm_events (co_pw s'))"
  using co_step_fp [OF assms] co_step_pw [OF assms]
  by (elim disjE exE; simp add: fp_step_keeps pw_step_keeps)+

interpretation handlers: machine_invariant co_initial co_step co_handlers_set
  by unfold_locales (simp_all add: co_handlers_set_def co_initial_parts co_step_keeps)

definition co_claims :: "coordinator \<Rightarrow> bool" where
  "co_claims s \<longleftrightarrow>
     (co_fp_handler s = H_cas \<longrightarrow> Fp_call Fp_on_finish \<in> set (fm_events (co_fp s))) \<and>
     (co_pw_handler s = H_cas \<longrightarrow> Pw_call Pw_on_finish \<in> set (pm_events (co_pw s)))"

lemma fp_reports_match:
  assumes "fp_step (Fp_worker r msg) m = Some m'" and "fp_calls_handler (fm_worker m) = H_cas"
    and "fp_inv m" and "fp_handlers (fm_ctx m) = fp_handlers_all"
  shows "Fp_call Fp_on_finish \<in> set (fm_events m')"
proof -
  obtain d where w: "fm_worker m = C_result ''verify-match'' d"
    using assms(2) by (cases "fm_worker m") (auto split: if_splits)
  moreover have "fm_alive m" using assms(3) w by (auto simp: fp_inv_def fp_threads_ok_def)
  ultimately show ?thesis
    using assms(1,4) by (auto simp: fp_step_def fp_report_def fp_handlers_all_def split: if_splits)
qed

lemma pw_reports_finish:
  assumes "pw_step (Pw_worker pid) m = Some m'" and "pw_calls_handler (pm_worker m) = H_cas"
    and "pw_inv m" and "pw_handlers (pm_ctx m) = pw_handlers_all"
  shows "Pw_call Pw_on_finish \<in> set (pm_events m')"
proof -
  have w: "pm_worker m = W_finish" using assms(2) by (cases "pm_worker m") auto
  moreover have "pm_alive m" using assms(3) w by (auto simp: pw_inv_def pw_threads_ok_def)
  ultimately show ?thesis
    using assms(1,4) by (auto simp: pw_step_def pw_handlers_all_def split: if_splits)
qed

lemma co_claims_step:
  assumes "reach co_initial co_step s" and "co_claims s" and "co_step l s = Some s'"
  shows "co_claims s'"
proof -
  note inv = co_fp_inv [OF assms(1)] co_pw_inv [OF assms(1)]
  have set_: "fp_handlers (fm_ctx (co_fp s)) = fp_handlers_all" "pw_handlers (pm_ctx (co_pw s)) = pw_handlers_all"
    using handlers.holds [OF assms(1)] by (auto simp: co_handlers_set_def)
  have "(co_fp_handler s' = H_cas \<longrightarrow> co_fp_handler s = H_cas \<or> Fp_call Fp_on_finish \<in> set (fm_events (co_fp s'))) \<and>
    (co_pw_handler s' = H_cas \<longrightarrow> co_pw_handler s = H_cas \<or> Pw_call Pw_on_finish \<in> set (pm_events (co_pw s')))"
    using assms(3)
    by - (erule co_step_cases; (erule co_step_elims)?;
      clarsimp simp: co_moves fp_reports_match [OF _ _ inv(1) set_(1)] pw_reports_finish [OF _ _ inv(2) set_(2)]
        split: if_splits option.splits prod.splits)
  with assms(2) co_step_keeps(4,5) [OF assms(3)] show ?thesis unfolding co_claims_def by blast
qed

interpretation claims: machine_invariant co_initial co_step co_claims
proof
  show "co_initial s \<Longrightarrow> co_claims s" for s by (simp add: co_claims_def co_initial_parts)
qed (rule co_claims_step)

subsection \<open>The gate\<close>

text \<open>The proofs: PAM accepted a password given for verification, or fprintd reported a match; an
  interrupted wait passes for one, since its status word is arbitrary.\<close>

definition password_accepted :: "pw_machine \<Rightarrow> bool" where
  "password_accepted m \<longleftrightarrow> (\<exists>password. Pam_accepted (pw_username (pm_ctx m)) (Some password) \<in> set (pm_events m) \<and>
     Verify_ok (Some password) \<in> set (pm_events m))"

definition finger_matched :: "fp_machine \<Rightarrow> bool" where
  "finger_matched m \<longleftrightarrow> (\<exists>finished. Fp_status ''verify-match'' finished \<in> set (fm_events m))"

definition wait_interrupted :: "pw_machine \<Rightarrow> bool" where
  "wait_interrupted m \<longleftrightarrow> Wait_interrupted \<in> set (pm_events m)"

fun exit_code :: "main_pc \<Rightarrow> int option" where
  "exit_code (M_exit r) = Some r"
| "exit_code _ = None"

definition co_proof :: "coordinator \<Rightarrow> bool" where
  "co_proof s \<longleftrightarrow> password_accepted (co_pw s) \<or> finger_matched (co_fp s) \<or> wait_interrupted (co_pw s)"

definition co_gate :: "coordinator \<Rightarrow> gate" where
  "co_gate s = \<lparr>gate_proof = co_proof s, gate_open = co_authenticated s, gate_result = exit_code (co_main s)\<rparr>"

lemma pw_finish_proof: "pw_inv m \<Longrightarrow> Pw_call Pw_on_finish \<in> set (pm_events m) \<Longrightarrow> password_accepted m \<or> wait_interrupted m"
proof -
  assume "pw_inv m" and fin: "Pw_call Pw_on_finish \<in> set (pm_events m)"
  then have "backed (pw_username (pm_ctx m)) (pm_events m)" by (simp add: pw_inv_def pw_evidence_def)
  moreover have "\<exists>c. Pam_accepted u (Some c) \<in> set es \<and> Verify_ok (Some c) \<in> set es \<or> Wait_interrupted \<in> set es"
    if "backed u es" "Pw_call Pw_on_finish \<in> set es" for u es
    using that by (induction es) auto
  ultimately show ?thesis using fin unfolding password_accepted_def wait_interrupted_def by blast
qed

lemma fp_finish_proof: "fp_inv m \<Longrightarrow> Fp_call Fp_on_finish \<in> set (fm_events m) \<Longrightarrow> finger_matched m"
proof -
  assume "fp_inv m" and fin: "Fp_call Fp_on_finish \<in> set (fm_events m)"
  then have "fp_backed (fm_events m)" by (simp add: fp_inv_def fp_evidence_def)
  moreover have "\<exists>d. Fp_status ''verify-match'' d \<in> set es" if "fp_backed es" "Fp_call Fp_on_finish \<in> set es" for es
    using that by (induction es) auto
  ultimately show ?thesis using fin unfolding finger_matched_def by blast
qed

lemma co_proof_mono: "co_step l s = Some s' \<Longrightarrow> co_proof s \<Longrightarrow> co_proof s'"
  unfolding co_proof_def password_accepted_def finger_matched_def wait_interrupted_def
  using co_step_keeps(4,5) [of l s s'] unfolding co_step_keeps(3) [of l s s'] by blast

text \<open>Only the exchange in a handler changes \<open>authenticated\<close>, and only the end of \<open>main\<close> gives an
  exit code.\<close>

lemma co_step_gate:
  assumes "co_step l s = Some s'"
  shows "co_authenticated s' = co_authenticated s \<and> exit_code (co_main s') = exit_code (co_main s) \<or>
    (co_fp_handler s = H_cas \<or> co_pw_handler s = H_cas) \<and> co_authenticated s' \<and>
      exit_code (co_main s') = exit_code (co_main s) \<or>
    co_authenticated s' = co_authenticated s \<and> exit_code (co_main s) = None \<and>
      exit_code (co_main s') = Some (if co_authenticated s then 0 else 1) \<and> co_fp s' = co_fp s \<and> co_pw s' = co_pw s"
  using assms
  by - (erule co_step_cases; (erule co_step_elims)?;
      clarsimp simp: co_moves split: if_splits option.splits prod.splits)

lemma co_gate_view: "co_gate = gate_view co_proof co_authenticated (\<lambda>s. exit_code (co_main s))"
  by (simp add: fun_eq_iff co_gate_def gate_view_def)

interpretation gate_part: front_end co_initial co_step co_proof co_authenticated "\<lambda>s. exit_code (co_main s)"
proof
  fix l s s' assume r: "reach co_initial co_step s" and st: "co_step l s = Some s'"
  show "co_proof s \<Longrightarrow> co_proof s'" by (rule co_proof_mono [OF st])
  have "co_proof s" if "co_fp_handler s = H_cas \<or> co_pw_handler s = H_cas"
    using that claims.holds [OF r] fp_finish_proof [OF co_fp_inv [OF r]] pw_finish_proof [OF co_pw_inv [OF r]]
    by (auto simp: co_claims_def co_proof_def)
  then show "co_authenticated s' = co_authenticated s \<and> exit_code (co_main s') = exit_code (co_main s) \<or>
      co_proof s \<and> co_authenticated s' \<and> exit_code (co_main s') = exit_code (co_main s) \<or>
      co_authenticated s' = co_authenticated s \<and> co_proof s' = co_proof s \<and> exit_code (co_main s) = None \<and>
        exit_code (co_main s') = Some (if co_authenticated s then 0 else 1)"
    using co_step_gate [OF st] by (auto simp: co_proof_def)
qed (simp add: co_initial_parts)

subsection \<open>The password context outlives its users\<close>

fun pw_deleting :: "pw_owner_pc \<Rightarrow> bool" where
  "pw_deleting D_stop = True"
| "pw_deleting D_join = True"
| "pw_deleting D_free = True"
| "pw_deleting O_deleted = True"
| "pw_deleting _ = False"

fun past_fp :: "main_pc \<Rightarrow> bool" where
  "past_fp M_delete_pw = True"
| "past_fp M_deleting_pw = True"
| "past_fp M_result = True"
| "past_fp (M_exit _) = True"
| "past_fp _ = False"

text \<open>Who is inside \<open>kl_password_stop\<close>: the owner while it deletes, or a worker in its handler.\<close>

definition co_stops_ok :: "coordinator \<Rightarrow> bool" where
  "co_stops_ok s \<longleftrightarrow>
     (pm_stops (co_pw s) 0 \<noteq> S_idle \<longrightarrow> pm_owner (co_pw s) = D_stop) \<and>
     (pm_stops (co_pw s) 1 \<noteq> S_idle \<longrightarrow> co_pw_handler s = H_second) \<and>
     (pm_stops (co_pw s) 2 \<noteq> S_idle \<longrightarrow> co_fp_handler s = H_first) \<and>
     (\<forall>t. 2 < t \<longrightarrow> pm_stops (co_pw s) t = S_idle) \<and>
     (co_fp_handler s \<noteq> H_none \<longrightarrow> fm_worker (co_fp s) \<noteq> F_none \<and> fm_worker (co_fp s) \<noteq> F_done) \<and>
     (co_pw_handler s \<noteq> H_none \<longrightarrow> pm_worker (co_pw s) \<noteq> W_none \<and> pm_worker (co_pw s) \<noteq> W_done) \<and>
     (past_fp (co_main s) \<longrightarrow> fm_owner (co_fp s) = FO_deleted) \<and>
     (pw_deleting (pm_owner (co_pw s)) \<longrightarrow> past_fp (co_main s)) \<and>
     \<not> pm_fault (co_pw s)"

lemma pw_worker_frame:
  assumes "pw_step (Pw_worker pid) m = Some m'" and "pw_threads_ok m"
  shows "pm_stops m' = pm_stops m \<and> pm_owner m' = pm_owner m \<and> \<not> pm_fault m' \<and>
    (pw_calls_handler (pm_worker m) \<noteq> H_none \<longrightarrow> pm_worker m' \<noteq> W_none \<and> pm_worker m' \<noteq> W_done)"
proof -
  have "pw_worker_at (pm_worker m) pid m = Some m'" "\<not> pm_fault m"
    using assms by (auto simp: pw_step_def pw_threads_ok_def split: if_splits)
  then show ?thesis
    by - (erule pw_worker_at.elims; clarsimp simp: Let_def split: if_splits pam_child.splits)
qed

lemma pw_other_frame:
  "pw_step (Pw_interrupt status) m = Some m' \<Longrightarrow>
     pm_stops m' = pm_stops m \<and> pm_owner m' = pm_owner m \<and> pm_fault m' = pm_fault m \<and>
     pm_worker m' \<noteq> W_none \<and> pm_worker m' \<noteq> W_done"
  "pw_step (Pw_child pid r1 r2 r3) m = Some m' \<Longrightarrow>
     pm_stops m' = pm_stops m \<and> pm_owner m' = pm_owner m \<and> pm_fault m' = pm_fault m \<and> pm_worker m' = pm_worker m"
  "pw_step (Pw_verify password) m = Some m' \<Longrightarrow>
     pm_stops m' = pm_stops m \<and> \<not> pw_deleting (pm_owner m') \<and> pm_owner m = O_idle \<and>
     pm_fault m' = pm_fault m \<and> pm_worker m' = pm_worker m"
  "pw_step (Pw_stop t) m = Some m' \<Longrightarrow> pm_stops m t = S_idle \<and>
     pm_stops m' = (pm_stops m)(t := S_cas) \<and> pm_owner m' = pm_owner m \<and> pm_fault m' = pm_fault m \<and>
     pm_worker m' = pm_worker m"
  "pw_step Pw_delete m = Some m' \<Longrightarrow>
     pm_stops m' = (pm_stops m)(0 := S_cas) \<and> pm_owner m' = D_stop \<and> pm_fault m' = pm_fault m \<and>
     pm_worker m' = pm_worker m"
  by (auto simp: pw_step_def pw_step_simps split: if_splits)

lemma pw_owner_frame:
  assumes "pw_step (Pw_owner ok) m = Some m'"
  shows "pm_stops m' = pm_stops m \<and> pw_deleting (pm_owner m') = pw_deleting (pm_owner m) \<and>
    (pm_owner m = D_stop \<longrightarrow> pm_stops m 0 = S_idle) \<and> pm_fault m' = pm_fault m \<and>
    (pm_worker m \<noteq> W_none \<and> pm_worker m \<noteq> W_done \<and> pw_threads_ok m \<longrightarrow> pm_worker m' = pm_worker m)"
proof -
  have "pw_owner_at (pm_owner m) ok m = Some m'" using assms by (simp add: pw_step_def split: if_splits)
  then show ?thesis
    by - (erule pw_owner_at.elims; clarsimp simp: pw_join_def pw_threads_ok_def split: if_splits)
qed

lemma pw_stopper_frame:
  assumes "pw_step (Pw_stopper t) m = Some m'" and "pm_alive m"
  shows "(\<exists>x. pm_stops m' = (pm_stops m)(t := x)) \<and> pm_owner m' = pm_owner m \<and> pm_fault m' = pm_fault m \<and>
    pm_worker m' = pm_worker m"
proof -
  have "pw_stop_at (pm_stops m t) t m = Some m'" using assms by (simp add: pw_step_def split: if_splits)
  then show ?thesis using assms(2)
    by - (erule pw_stop_at.elims; clarsimp simp: Let_def split: if_splits; blast)
qed

lemma fp_worker_frame:
  assumes "fp_step (Fp_worker r msg) m = Some m'" and "fp_threads_ok m"
  shows "fm_owner m' = fm_owner m \<and>
    (fp_calls_handler (fm_worker m) \<noteq> H_none \<longrightarrow> fm_worker m' \<noteq> F_none \<and> fm_worker m' \<noteq> F_done)"
proof -
  have "fp_worker_at (fm_worker m) r msg m = Some m'"
    using assms by (auto simp: fp_step_def fp_threads_ok_def split: if_splits)
  then show ?thesis
    by - (erule fp_worker_at.elims; clarsimp split: if_splits option.splits)
qed

lemma fp_frame:
  "fp_step l m = Some m' \<Longrightarrow>
     (fm_owner m = FO_deleted \<longrightarrow> fm_owner m' = FO_deleted) \<and>
     (\<not> is_fp_worker l \<and> fp_threads_ok m \<and> fm_worker m \<noteq> F_none \<and> fm_worker m \<noteq> F_done \<longrightarrow>
        fm_worker m' = fm_worker m)"
  by (erule fp_step_cases; (erule fp_step_elims)?;
      clarsimp simp: fp_threads_ok_def fp_calls split: if_splits option.splits)

lemma co_stops_alive:
  assumes "co_stops_ok s" and fp: "fp_threads_ok (co_fp s)" and pw: "pw_threads_ok (co_pw s)"
    and t: "pm_stops (co_pw s) t \<noteq> S_idle"
  shows "pm_alive (co_pw s)"
proof (rule ccontr)
  assume "\<not> pm_alive (co_pw s)"
  with pw have d: "pm_owner (co_pw s) = O_deleted" and w: "pm_worker (co_pw s) = W_none"
    by (auto simp: pw_threads_ok_def)
  with assms(1) have "fm_owner (co_fp s) = FO_deleted" by (simp add: co_stops_ok_def)
  with fp have f: "fm_worker (co_fp s) = F_none" by (simp add: fp_threads_ok_def)
  have "t \<le> 2" using t assms(1) unfolding co_stops_ok_def by (meson not_le)
  then have "t = 0 \<or> t = 1 \<or> t = 2" by auto
  then show False using t assms(1) d w f by (auto simp: co_stops_ok_def)
qed

lemma co_stops_ok_step:
  assumes r: "reach co_initial co_step s" and ok: "co_stops_ok s" and st: "co_step l s = Some s'"
  shows "co_stops_ok s'"
proof -
  have fp: "fp_threads_ok (co_fp s)" and pw: "pw_threads_ok (co_pw s)"
    using co_fp_inv [OF r] co_pw_inv [OF r] by (auto simp: fp_inv_def pw_inv_def)
  have stopper: "pw_step (Pw_stopper t) (co_pw s) = Some m \<Longrightarrow>
    (\<exists>x. pm_stops m = (pm_stops (co_pw s))(t := x)) \<and> pm_owner m = pm_owner (co_pw s) \<and>
      pm_fault m = pm_fault (co_pw s) \<and> pm_worker m = pm_worker (co_pw s)" for t m
    using pw_stopper_frame [of t "co_pw s" m] co_stops_alive [OF ok fp pw, of t]
    by (cases "pm_stops (co_pw s) t = S_idle") (simp_all add: pw_step_def split: if_splits)
  note frames = pw_worker_frame [where m = "co_pw s", OF _ pw] pw_other_frame [where m = "co_pw s"]
    pw_owner_frame [where m = "co_pw s"] stopper
    fp_worker_frame [where m = "co_fp s", OF _ fp] fp_frame [where m = "co_fp s"]
  show ?thesis
    using st ok fp pw
    apply -
    apply (erule co_step_cases; (erule co_step_elims)?;
      clarsimp simp: co_moves co_stops_ok_def split: if_splits option.splits prod.splits;
      (frule frames; (frule frames)?; clarsimp; fail)?)
    done
qed

interpretation stops: machine_invariant co_initial co_step co_stops_ok
proof
  show "co_initial s \<Longrightarrow> co_stops_ok s" for s
    using pw_initial_fields [OF co_initial_parts(2), of s]
    by (simp add: co_stops_ok_def co_initial_parts)
qed (rule co_stops_ok_step)

subsection \<open>Example runs\<close>

definition no_device :: fp_answers where
  "no_device = fp_device_ok\<lparr>ans_open := -2\<rparr>"

definition a_terminal :: termios where
  "a_terminal = \<lparr>c_lflag = 0x8a3b, c_rest = 5\<rparr>"

definition sample_answers :: "fp_answers \<Rightarrow> co_answers" where
  "sample_answers device = \<lparr>sa_malloc = True, sa_user = Some ''kiri'', sa_strdup = True, sa_fp = device,
     sa_pw_calloc = True, sa_pw_strdup = True, sa_tty = Some a_terminal\<rparr>"

definition co_sample :: "fp_answers \<Rightarrow> coordinator" where
  "co_sample device =
     (case coordinator_setup (sample_answers device) (replicate MAX_PASS_LEN NUL) of Inr s \<Rightarrow> s)"

lemma co_sample_initial: "co_initial (co_sample fp_device_ok)" "co_initial (co_sample no_device)"
proof -
  have "co_initial (co_sample device)"
    if "coordinator_setup (sample_answers device) (replicate MAX_PASS_LEN NUL) \<noteq> Inl 1" for device
    using that unfolding co_initial_def co_sample_def
    by (auto simp: coordinator_setup_def Let_def split: if_splits)
  then show "co_initial (co_sample fp_device_ok)" "co_initial (co_sample no_device)"
    by (simp_all add: coordinator_setup_def sample_answers_def kl_fingerprint_init_def kl_password_init_def
        fp_device_ok_def no_device_def Let_def)
qed

definition main_steps :: "nat \<Rightarrow> co_label list" where
  "main_steps n = replicate n (Co_main None True)"

definition co_press :: "char \<Rightarrow> co_label list" where
  "co_press c = main_steps 3 @ [Co_main (Some c) True] @ main_steps 1"

definition co_typed :: "co_label list" where
  "co_typed = main_steps 7 @ co_press (CHR ''s'') @ co_press (CHR 0x0A) @ main_steps 4 @
     [Co_pw 0, Co_pw 42, Co_pw 0, Co_pw 0]"

definition co_granted :: "co_label list" where
  "co_granted = replicate 8 (Co_pw_handler True) @ replicate 5 (Co_pw 0) @ replicate 2 (Co_fp 0 None) @ main_steps 15"

text \<open>The password is accepted.\<close>

definition co_good_run :: "co_label list" where
  "co_good_run = co_typed @ [Co_child 42 0 0 0] @ replicate 4 (Co_pw 0) @ co_granted"

text \<open>A signal interrupts the wait for a child that never answers.\<close>

definition co_interrupted_run :: "co_label list" where
  "co_interrupted_run = co_typed @ [Co_pw_signal 0] @ replicate 3 (Co_pw 0) @ co_granted"

text \<open>A signal makes the main thread delete the fingerprint context while a password is verified.\<close>

definition co_uaf_run :: "co_label list" where
  "co_uaf_run = co_typed @ [Co_child 42 0 0 0, Co_signal] @ main_steps 7 @ replicate 2 (Co_fp 0 None) @
     main_steps 3 @ replicate 4 (Co_pw 0) @ replicate 2 (Co_pw_handler True)"

text \<open>There is no fingerprint device.\<close>

definition co_no_device_run :: "co_label list" where
  "co_no_device_run = main_steps 7 @ replicate 3 (Co_fp 0 None) @ replicate 5 (Co_fp_handler True) @
     [Co_fp 0 None] @ main_steps 18"

lemma co_run_reach:
  "co_initial s0 \<Longrightarrow> exec co_step ls s0 \<noteq> None \<Longrightarrow> reach co_initial co_step (the (exec co_step ls s0))"
  using exec_from_init [of co_initial] by fastforce

lemma co_good_checked:
  "case exec co_step co_good_run (co_sample fp_device_ok) of None \<Rightarrow> False
   | Some s \<Rightarrow> co_main s = M_exit 0 \<and> co_authenticated s \<and> Wait_interrupted \<notin> set (pm_events (co_pw s))"
  by code_simp

abbreviation co_good :: coordinator where
  "co_good \<equiv> the (exec co_step co_good_run (co_sample fp_device_ok))"

lemma co_good_facts:
  "exec co_step co_good_run (co_sample fp_device_ok) \<noteq> None" "reach co_initial co_step co_good"
  "co_main co_good = M_exit 0" "co_authenticated co_good" "\<not> wait_interrupted (co_pw co_good)"
proof -
  show "exec co_step co_good_run (co_sample fp_device_ok) \<noteq> None" using co_good_checked by (auto split: option.splits)
  from co_run_reach [OF co_sample_initial(1) this] show "reach co_initial co_step co_good" .
  show "co_main co_good = M_exit 0" "co_authenticated co_good" "\<not> wait_interrupted (co_pw co_good)"
    using co_good_checked by (auto simp: wait_interrupted_def split: option.splits)
qed

fun has_exited :: "main_pc \<Rightarrow> bool" where
  "has_exited (M_exit r) = True"
| "has_exited _ = False"

interpretation raw_tty: raw_terminal
  "\<lambda>s. \<exists>a garbage. sa_tty a = device \<and> coordinator_setup a garbage = Inr s" co_step co_console
  "\<lambda>s. has_exited (co_main s)" device for device
proof
  show "co_console s = started_console device \<and> \<not> has_exited (co_main s)"
    if "\<exists>a garbage. sa_tty a = device \<and> coordinator_setup a garbage = Inr s" for s
    using that by (auto simp: coordinator_setup_def Let_def split: if_splits)
  show "co_console s' = co_console s \<and> has_exited (co_main s') = has_exited (co_main s) \<or>
      co_console s' = restore_tty (co_console s) \<and> \<not> has_exited (co_main s) \<and> has_exited (co_main s')"
    if "co_step l s = Some s'" for l s s'
    using that
    by - (erule co_step_cases; (erule co_step_elims)?;
      clarsimp simp: co_moves split: if_splits option.splits prod.splits)
qed

interpretation input: machine_invariant co_initial co_step "\<lambda>s. input_ok (co_input s)"
proof
  show "input_ok (co_input s')" if "input_ok (co_input s)" "co_step l s = Some s'" for l s s'
    using that(2,1) handle_key_edits [of "co_input s"]
    by - (erule co_step_cases; (erule co_step_elims)?;
      clarsimp simp: co_moves split: if_splits option.splits prod.splits; metis fst_conv)
qed (rule co_initial_parts)

subsection \<open>Properties\<close>



text \<open>
  (C6) Access is granted only to who has proved to be the user: if \<open>main\<close> has returned, it returned
  0 or 1, and if it returned 0 and no \<open>waitpid\<close> was interrupted, then PAM had accepted, for the
  user the program runs as, a password that was given for verification, or fprintd had reported a
  match.
\<close>

theorem coordinator_grants_proved:
  assumes "reach co_initial co_step s" and "co_main s = M_exit r"
  shows "(r = 0 \<or> r = 1) \<and>
    (r = 0 \<and> \<not> wait_interrupted (co_pw s) \<longrightarrow> password_accepted (co_pw s) \<or> finger_matched (co_fp s))"
  using gate_part.returns_truth [OF assms(1), of r] assms(2) by (auto simp: co_proof_def)

theorem coordinator_grants_proved_witness:
  "let s = the (exec co_step co_good_run (co_sample fp_device_ok))
   in co_main s = M_exit 0 \<and> (password_accepted (co_pw s) \<or> finger_matched (co_fp s))"
  using coordinator_grants_proved [OF co_good_facts(2,3)] co_good_facts(3,5) by (simp add: Let_def)

text \<open>
  (C8) The password context is never used after it was freed, by no thread and in no interleaving, and
  the line buffer is never indexed outside its bounds.
\<close>

theorem coordinator_password_safe:
  assumes "reach co_initial co_step s"
  shows "\<not> pm_fault (co_pw s) \<and> length (pass_buf (co_input s)) = MAX_PASS_LEN \<and> pass_len (co_input s) < MAX_PASS_LEN"
  using stops.holds [OF assms] input.holds [OF assms] by (simp add: co_stops_ok_def input_ok_def)

theorem coordinator_password_safe_witness:
  "\<not> pm_fault (co_pw (the (exec co_step co_good_run (co_sample fp_device_ok))))"
  using coordinator_password_safe [OF co_good_facts(2)] by simp


text \<open>
  A signal can grant access: it interrupts \<open>waitpid\<close>, whose status word has no initial value; if
  that happens to be 0, the worker reports success, and \<open>main\<close> returns 0 although PAM has not
  answered and no finger was seen.
\<close>

theorem coordinator_interrupt_grants:
  "case exec co_step co_interrupted_run (co_sample fp_device_ok) of None \<Rightarrow> False
   | Some s \<Rightarrow> co_main s = M_exit 0 \<and>
       \<not> list_ex (\<lambda>e. case e of Pam_accepted u c \<Rightarrow> True | _ \<Rightarrow> False) (pm_events (co_pw s)) \<and>
       \<not> list_ex (\<lambda>e. case e of Fp_status result finished \<Rightarrow> True | _ \<Rightarrow> False) (fm_events (co_fp s))"
  by code_simp

text \<open>
  Without a fingerprint device the program denies access before a password can be typed: the scanner
  switches itself off, no verification is running yet, and the loop ends.
\<close>

theorem coordinator_needs_scanner:
  "case exec co_step co_no_device_run (co_sample no_device) of None \<Rightarrow> False
   | Some s \<Rightarrow> co_main s = M_exit 1 \<and> \<not> co_interrupted s \<and> pm_events (co_pw s) = [Pw_call Pw_on_delete]"
  by code_simp

text \<open>
  The program hides what is typed and gives the terminal back: until \<open>main\<close> has returned the terminal
  neither echoes nor buffers lines, all else being as the program found it, and afterwards all is.
\<close>

theorem coordinator_restores_terminal:
  assumes "coordinator_setup a garbage = Inr s0" and "sa_tty a = Some t" and "exec co_step ls s0 = Some s"
  shows "terminal_ok t (has_exited (co_main s)) (tty (co_console s))"
  using raw_tty.terminal_follows [OF refl _ assms(3)] assms(1,2) by blast

theorem coordinator_restores_terminal_witness:
  "tty (co_console (the (exec co_step co_good_run (co_sample fp_device_ok)))) = Some a_terminal"
proof -
  let ?s = "the (exec co_step co_good_run (co_sample fp_device_ok))"
  have built: "coordinator_setup (sample_answers fp_device_ok) (replicate MAX_PASS_LEN NUL) = Inr (co_sample fp_device_ok)"
    by (simp add: co_sample_def coordinator_setup_def sample_answers_def kl_fingerprint_init_def kl_password_init_def
      fp_device_ok_def Let_def)
  have run: "exec co_step co_good_run (co_sample fp_device_ok) = Some ?s" using co_good_facts(1) by simp
  have "has_exited (co_main ?s)" using co_good_facts(3) by simp
  with coordinator_restores_terminal [OF built _ run, of a_terminal] show ?thesis
    by (simp add: terminal_ok_def sample_answers_def)
qed

end
