(* ===== verification/Password_Class.thy ===== *)
theory Password_Class
  imports Password Line_Input
begin

section \<open>The class Password (src/libs/auth/src/password.cpp)\<close>

text \<open>
  The C++ version of the password module.  The conventions are those of theory \<open>Password\<close>, from
  which the vocabulary of both versions is taken: the callbacks, the children and the events, where
  the enumerators \<open>AuthFailed\<close> and \<open>System\<close> are \<open>PW_ERR_AUTH_FAILED\<close> and
  \<open>PW_ERR_SYSTEM\<close>.  The state of the class, its handlers, the program counters and the steps are
  translated from the C++ source.

  What differs from the C module: the object owns strings instead of pointers, so there is a user
  name and a candidate at any time; \<open>verify\<close> catches the exceptions of the assignment and of the
  thread's creation in one block; the status word of \<open>waitpid\<close> starts at 0.  \<open>as_module\<close>
  reads a state of the object as a state of the C module, and the object is shown to simulate the
  module, so that the module's invariants hold for the object.
\<close>

subsection \<open>Data\<close>

record password_handlers =
  ph_on_init :: bool
  ph_on_begin :: bool
  ph_on_finish :: bool
  ph_on_error :: bool
  ph_on_end :: bool
  ph_on_stop :: bool
  ph_on_delete :: bool

record password_object =
  po_username :: string
  po_user_data :: ptr
  po_handlers :: password_handlers
  po_worker_thread :: bool   \<comment> \<open>whether it is joinable\<close>
  po_init_called :: bool
  po_is_running :: bool
  po_active_pam_pid :: int
  po_candidate :: string

text \<open>The program counter of the worker, with the line it is at.\<close>

datatype run_pc =
  R_none              \<comment> \<open>no thread\<close>
| R_begin             \<comment> \<open>120\<close>
| R_fork              \<comment> \<open>123\<close>
| R_fork_error        \<comment> \<open>125\<close>
| R_store int         \<comment> \<open>152\<close>
| R_check int         \<comment> \<open>154\<close>
| R_take int          \<comment> \<open>155\<close>
| R_kill int int      \<comment> \<open>157, with \<open>to_kill\<close>\<close>
| R_wait int          \<comment> \<open>162\<close>
| R_clear int int     \<comment> \<open>163, with \<open>status\<close>\<close>
| R_result int        \<comment> \<open>165\<close>
| R_finish            \<comment> \<open>167\<close>
| R_auth_error        \<comment> \<open>170\<close>
| R_end               \<comment> \<open>180, in \<open>cleanup\<close>\<close>
| R_stopped           \<comment> \<open>183\<close>
| R_on_stop           \<comment> \<open>184\<close>
| R_clear_candidate   \<comment> \<open>188\<close>
| R_last              \<comment> \<open>189\<close>
| R_done              \<comment> \<open>returned\<close>

text \<open>The owner inside \<open>verify\<close>, with its argument, or inside the destructor.\<close>

datatype own_pc =
  N_idle
| N_join string         \<comment> \<open>93\<close>
| N_assign string       \<comment> \<open>97\<close>
| N_catch_assign string \<comment> \<open>102, from line 97\<close>
| N_thread              \<comment> \<open>99\<close>
| N_catch_thread        \<comment> \<open>102, from line 99\<close>
| N_stop                \<comment> \<open>59\<close>
| N_stop_join           \<comment> \<open>61\<close>
| N_clear               \<comment> \<open>65\<close>
| N_destroyed

record password_machine =
  po_object :: password_object
  po_alive :: bool
  po_worker :: run_pc
  po_owner :: own_pc
  po_stops :: "nat \<Rightarrow> pw_stop_pc"
  po_children :: "int \<Rightarrow> pam_child"
  po_events :: "pw_event list"
  po_fault :: bool

definition po_log :: "pw_event \<Rightarrow> password_machine \<Rightarrow> password_machine" where
  "po_log e m = m\<lparr>po_events := e # po_events m\<rparr>"

definition po_notify :: "(password_handlers \<Rightarrow> bool) \<Rightarrow> pw_callback \<Rightarrow> password_machine \<Rightarrow> password_machine" where
  "po_notify h cb m = (if h (po_handlers (po_object m)) then po_log (Pw_call cb) m else m)"

definition po_set :: "(password_object \<Rightarrow> password_object) \<Rightarrow> password_machine \<Rightarrow> password_machine" where
  "po_set f m = m\<lparr>po_object := f (po_object m)\<rparr>"

abbreviation po_at :: "run_pc \<Rightarrow> password_machine \<Rightarrow> password_machine" where
  "po_at pc m \<equiv> m\<lparr>po_worker := pc\<rparr>"

definition po_kill :: "int \<Rightarrow> password_machine \<Rightarrow> password_machine" where
  "po_kill pid m =
     (case po_children m pid of
        No_child \<Rightarrow> po_log (Stray_kill pid) m
      | Child_running u c \<Rightarrow>
          po_log (Signal_sent pid) (m\<lparr>po_children := (po_children m)(pid := Zombie u c SIGKILL)\<rparr>)
      | Zombie u c st \<Rightarrow> po_log (Signal_sent pid) m)"

subsection \<open>The conversation function and the child\<close>

text \<open>The bytes of the string at \<open>v\<close>, one after the other.\<close>

fun secure_clear_chars :: "char list \<Rightarrow> nat \<Rightarrow> char list" where
  "secure_clear_chars v 0 = v"
| "secure_clear_chars (b # v) (Suc n) = NUL # secure_clear_chars v n"
| "secure_clear_chars [] (Suc n) = []"

definition clear_candidate :: "string \<Rightarrow> string" where
  "clear_candidate candidate =
     (if candidate \<noteq> [] then drop (length candidate) (secure_clear_chars candidate (length candidate)) else candidate)"

text \<open>The loop of lines 35 to 48 by its index, and the loop of lines 40 to 42.  \<open>strdup\<close> copies the
  candidate up to the first null byte.\<close>

function answer_loop ::
  "string \<Rightarrow> (nat \<Rightarrow> bool) \<Rightarrow> int list \<Rightarrow> nat \<Rightarrow> string option list \<Rightarrow>
   (nat \<times> string option list) + string option list" where
  "answer_loop appdata dup styles i reply =
     (if i < length styles then
        (if styles ! i = PAM_PROMPT_ECHO_OFF \<or> styles ! i = PAM_PROMPT_ECHO_ON then
           (if dup i then answer_loop appdata dup styles (i + 1) (reply[i := Some (c_string appdata)])
            else Inl (i, reply))
         else answer_loop appdata dup styles (i + 1) reply)
      else Inr reply)"
  by pat_completeness auto
termination by (relation "measure (\<lambda>(_, _, styles, i, _). length styles - i)") auto

declare answer_loop.simps [simp del]

fun free_before :: "nat \<Rightarrow> string option list \<Rightarrow> string option list" where
  "free_before i reply = (if i > 0 then free_before (i - 1) (reply[i - 1 := None]) else reply)"

declare free_before.simps [simp del]

definition pam_conv ::
  "int \<Rightarrow> int list \<Rightarrow> bool \<Rightarrow> string option \<Rightarrow> bool \<Rightarrow> (nat \<Rightarrow> bool) \<Rightarrow>
   int \<times> (string option list + string option list)" where
  "pam_conv num_msg msg resp appdata alloc dup =
     (if num_msg \<le> 0 \<or> \<not> resp \<or> appdata = None then (PAM_CONV_ERR, Inl [])
      else if \<not> alloc then (PAM_BUF_ERR, Inl [])
      else case answer_loop (the appdata) dup (take (nat num_msg) msg) 0 (replicate (nat num_msg) None) of
        Inl (i, reply) \<Rightarrow> (PAM_BUF_ERR, Inl (free_before i reply))
      | Inr reply \<Rightarrow> (PAM_SUCCESS, Inr reply))"

text \<open>Lines 135 to 149.\<close>

definition child_code :: "int \<Rightarrow> int \<Rightarrow> int \<Rightarrow> int" where
  "child_code start authenticate acct_mgmt =
     (let r = start;
          r = (if r = PAM_SUCCESS
               then (let r = authenticate in if r = PAM_SUCCESS then acct_mgmt else r) else r)
      in if r = PAM_SUCCESS then 0 else 1)"

subsection \<open>The worker thread\<close>

fun run_worker_at :: "run_pc \<Rightarrow> int \<Rightarrow> password_machine \<Rightarrow> password_machine option" where
  "run_worker_at R_begin _ m = Some (po_at R_fork (po_notify ph_on_begin Pw_on_begin m))"
| "run_worker_at R_fork pid m =
     (if pid < 0 then Some (po_at R_fork_error m)
      else if pid > 0 \<and> po_children m pid = No_child then
        Some (po_at (R_store pid) (m\<lparr>po_children := (po_children m)
          (pid := Child_running (Some (po_username (po_object m))) (Some (po_candidate (po_object m))))\<rparr>))
      else None)"
| "run_worker_at R_fork_error _ m =
     Some (po_at R_end (po_notify ph_on_error (Pw_on_error PW_ERR_SYSTEM) m))"
| "run_worker_at (R_store pid) _ m = Some (po_at (R_check pid) (po_set (po_active_pam_pid_update (\<lambda>_. pid)) m))"
| "run_worker_at (R_check pid) _ m =
     Some (po_at (if po_is_running (po_object m) then R_wait pid else R_take pid) m)"
| "run_worker_at (R_take pid) _ m =
     (let to_kill = po_active_pam_pid (po_object m)
      in Some (po_at (if to_kill > 0 then R_kill pid to_kill else R_wait pid)
                 (po_set (po_active_pam_pid_update (\<lambda>_. 0)) m)))"
| "run_worker_at (R_kill pid to_kill) _ m = Some (po_at (R_wait pid) (po_kill to_kill m))"
| "run_worker_at (R_wait pid) _ m =
     (case po_children m pid of
        Zombie u c status \<Rightarrow>
          Some (po_at (R_clear pid status) (m\<lparr>po_children := (po_children m)(pid := No_child)\<rparr>))
      | _ \<Rightarrow> None)"
| "run_worker_at (R_clear pid status) _ m =
     Some (po_at (R_result status) (po_set (po_active_pam_pid_update (\<lambda>_. 0)) m))"
| "run_worker_at (R_result status) _ m =
     Some (po_at (if po_is_running (po_object m)
                  then (if exited_zero status then R_finish else R_auth_error)
                  else R_end) m)"
| "run_worker_at R_finish _ m = Some (po_at R_end (po_notify ph_on_finish Pw_on_finish m))"
| "run_worker_at R_auth_error _ m =
     Some (po_at R_end (po_notify ph_on_error (Pw_on_error PW_ERR_AUTH_FAILED) m))"
| "run_worker_at R_end _ m = Some (po_at R_stopped (po_notify ph_on_end Pw_on_end m))"
| "run_worker_at R_stopped _ m =
     Some (po_at (if \<not> po_is_running (po_object m) then R_on_stop else R_clear_candidate) m)"
| "run_worker_at R_on_stop _ m = Some (po_at R_clear_candidate (po_notify ph_on_stop Pw_on_stop m))"
| "run_worker_at R_clear_candidate _ m = Some (po_at R_last (po_set (po_candidate_update clear_candidate) m))"
| "run_worker_at R_last _ m = Some (po_at R_done (po_set (po_is_running_update (\<lambda>_. False)) m))"
| "run_worker_at R_none _ m = None"
| "run_worker_at R_done _ m = None"

text \<open>\<open>waitpid\<close> interrupted by a signal handler: it returns -1 and \<open>status\<close> keeps the value 0
  of line 161.\<close>

definition wait_interrupted_at :: "run_pc \<Rightarrow> password_machine \<Rightarrow> password_machine option" where
  "wait_interrupted_at pc m =
     (case pc of R_wait pid \<Rightarrow> Some (po_at (R_clear pid 0) (po_log Wait_interrupted m)) | _ \<Rightarrow> None)"

definition po_child_ends :: "int \<Rightarrow> int \<Rightarrow> int \<Rightarrow> int \<Rightarrow> password_machine \<Rightarrow> password_machine option" where
  "po_child_ends pid start authenticate acct_mgmt m =
     (case po_children m pid of
        Child_running u c \<Rightarrow>
          (let code = child_code start authenticate acct_mgmt;
               m = m\<lparr>po_children := (po_children m)(pid := Zombie u c (code * 256))\<rparr>
           in Some (if code = 0 then po_log (Pam_accepted u c) m else m))
      | _ \<Rightarrow> None)"

subsection \<open>The methods\<close>

definition Password_construct :: "string \<Rightarrow> ptr \<Rightarrow> password_object" where
  "Password_construct username user_data = \<lparr>po_username = username, po_user_data = user_data,
     po_handlers = \<lparr>ph_on_init = False, ph_on_begin = False, ph_on_finish = False, ph_on_error = False,
       ph_on_end = False, ph_on_stop = False, ph_on_delete = False\<rparr>,
     po_worker_thread = False, po_init_called = False, po_is_running = False, po_active_pam_pid = 0,
     po_candidate = ''''\<rparr>"

definition Password_set_handlers ::
  "password_object \<Rightarrow> password_handlers \<Rightarrow> password_object \<times> pw_callback list" where
  "Password_set_handlers self handlers =
     (let self = self\<lparr>po_handlers := handlers\<rparr>
      in if \<not> po_init_called self \<and> ph_on_init handlers
         then (self\<lparr>po_init_called := True\<rparr>, [Pw_on_init])
         else (self, []))"

definition Password_is_running :: "password_object \<Rightarrow> bool" where
  "Password_is_running self = po_is_running self"

definition Password_get_user_data :: "password_object \<Rightarrow> ptr" where
  "Password_get_user_data self = po_user_data self"

definition Password_set_user_data :: "password_object \<Rightarrow> ptr \<Rightarrow> password_object" where
  "Password_set_user_data self data = self\<lparr>po_user_data := data\<rparr>"

definition Password_get_username :: "password_object \<Rightarrow> string" where
  "Password_get_username self = po_username self"

text \<open>\<open>verify\<close> up to its compare-and-exchange, and from there on one step at a time; \<open>ok\<close> says
  that the assignment or the creation of the thread does not throw.\<close>

definition Password_verify :: "string \<Rightarrow> password_machine \<Rightarrow> password_machine option" where
  "Password_verify pass m =
     (if po_owner m \<noteq> N_idle then None
      else if po_is_running (po_object m) then Some (po_log Verify_refused m)
      else Some ((po_set (po_is_running_update (\<lambda>_. True)) m)\<lparr>po_owner := N_join pass\<rparr>))"

definition po_join :: "own_pc \<Rightarrow> password_machine \<Rightarrow> password_machine option" where
  "po_join next m =
     (if po_worker_thread (po_object m) then
        (if po_worker m = R_done
         then Some ((po_set (po_worker_thread_update (\<lambda>_. False)) (po_at R_none m))\<lparr>po_owner := next\<rparr>)
         else None)
      else Some (m\<lparr>po_owner := next\<rparr>))"

text \<open>Lines 102 to 104.\<close>

definition verify_catch :: "password_machine \<Rightarrow> password_machine option" where
  "verify_catch m =
     (let m = po_set (po_is_running_update (\<lambda>_. False)) m;
          m = po_set (po_candidate_update clear_candidate) m
      in Some ((po_log Verify_refused m)\<lparr>po_owner := N_idle\<rparr>))"

fun po_owner_at :: "own_pc \<Rightarrow> bool \<Rightarrow> password_machine \<Rightarrow> password_machine option" where
  "po_owner_at (N_join pass) ok m = po_join (N_assign pass) m"
| "po_owner_at (N_assign pass) ok m =
     Some (if ok then (po_set (po_candidate_update (\<lambda>_. pass)) m)\<lparr>po_owner := N_thread\<rparr>
           else m\<lparr>po_owner := N_catch_assign pass\<rparr>)"
| "po_owner_at N_thread ok m =
     Some (if ok
           then (po_log (Verify_ok (Some (po_candidate (po_object m))))
                  (po_at R_begin (po_set (po_worker_thread_update (\<lambda>_. True)) m)))\<lparr>po_owner := N_idle\<rparr>
           else m\<lparr>po_owner := N_catch_thread\<rparr>)"
| "po_owner_at (N_catch_assign pass) ok m = verify_catch m"
| "po_owner_at N_catch_thread ok m = verify_catch m"
| "po_owner_at N_stop ok m = (if po_stops m 0 = S_idle then Some (m\<lparr>po_owner := N_stop_join\<rparr>) else None)"
| "po_owner_at N_stop_join ok m = po_join N_clear m"
| "po_owner_at N_clear ok m =
     Some ((po_notify ph_on_delete Pw_on_delete (po_set (po_candidate_update clear_candidate) m))
       \<lparr>po_alive := False, po_owner := N_destroyed\<rparr>)"
| "po_owner_at N_idle ok m = None"
| "po_owner_at N_destroyed ok m = None"

text \<open>\<open>stop\<close>, called by thread \<open>t\<close>; the owner is thread 0.\<close>

definition Password_stop :: "nat \<Rightarrow> password_machine \<Rightarrow> password_machine option" where
  "Password_stop t m =
     (if po_stops m t = S_idle then Some (m\<lparr>po_stops := (po_stops m)(t := S_cas)\<rparr>) else None)"

fun po_stop_at :: "pw_stop_pc \<Rightarrow> nat \<Rightarrow> password_machine \<Rightarrow> password_machine option" where
  "po_stop_at S_idle t m = None"
| "po_stop_at S_cas t m =
     (if \<not> po_alive m then Some (m\<lparr>po_fault := True\<rparr>)
      else if po_is_running (po_object m)
      then Some ((po_set (po_is_running_update (\<lambda>_. False)) m)\<lparr>po_stops := (po_stops m)(t := S_exchange)\<rparr>)
      else Some (m\<lparr>po_stops := (po_stops m)(t := S_idle)\<rparr>))"
| "po_stop_at S_exchange t m =
     (if \<not> po_alive m then Some (m\<lparr>po_fault := True\<rparr>)
      else let pam_pid = po_active_pam_pid (po_object m)
           in Some ((po_set (po_active_pam_pid_update (\<lambda>_. 0)) m)
                \<lparr>po_stops := (po_stops m)(t := if pam_pid > 0 then S_kill pam_pid else S_idle)\<rparr>))"
| "po_stop_at (S_kill pid) t m = Some ((po_kill pid m)\<lparr>po_stops := (po_stops m)(t := S_idle)\<rparr>)"

definition Password_destruct :: "password_machine \<Rightarrow> password_machine option" where
  "Password_destruct m =
     (if po_owner m = N_idle \<and> po_stops m 0 = S_idle
      then Some (m\<lparr>po_owner := N_stop, po_stops := (po_stops m)(0 := S_cas)\<rparr>)
      else None)"

subsection \<open>The machine\<close>

datatype po_label =
  Po_worker int | Po_interrupt | Po_child int int int int | Po_verify string | Po_owner bool
| Po_destruct | Po_stop nat | Po_stopper nat

definition po_step :: "po_label \<Rightarrow> password_machine \<Rightarrow> password_machine option" where
  "po_step l m =
     (if po_fault m then None
      else case l of
        Po_worker pid \<Rightarrow>
          if po_alive m \<or> po_worker m = R_none \<or> po_worker m = R_done
          then run_worker_at (po_worker m) pid m else Some (m\<lparr>po_fault := True\<rparr>)
      | Po_interrupt \<Rightarrow> wait_interrupted_at (po_worker m) m
      | Po_child pid start authenticate acct_mgmt \<Rightarrow> po_child_ends pid start authenticate acct_mgmt m
      | Po_verify pass \<Rightarrow> Password_verify pass m
      | Po_owner ok \<Rightarrow> po_owner_at (po_owner m) ok m
      | Po_destruct \<Rightarrow> Password_destruct m
      | Po_stop t \<Rightarrow> Password_stop t m
      | Po_stopper t \<Rightarrow> po_stop_at (po_stops m t) t m)"

definition po_fresh :: "password_object \<Rightarrow> password_machine" where
  "po_fresh self = \<lparr>po_object = self, po_alive = True, po_worker = R_none, po_owner = N_idle,
     po_stops = (\<lambda>_. S_idle), po_children = (\<lambda>_. No_child), po_events = [], po_fault = False\<rparr>"

definition po_initial :: "password_machine \<Rightarrow> bool" where
  "po_initial m \<longleftrightarrow> (\<exists>username user_data handlers.
     m = po_fresh (fst (Password_set_handlers (Password_construct username user_data) handlers)))"

subsection \<open>The object as a state of the C module\<close>

fun module_pc :: "run_pc \<Rightarrow> pw_pc" where
  "module_pc R_none = W_none"
| "module_pc R_begin = W_begin"
| "module_pc R_fork = W_fork"
| "module_pc R_fork_error = W_fork_error"
| "module_pc (R_store pid) = W_store pid"
| "module_pc (R_check pid) = W_check pid"
| "module_pc (R_take pid) = W_take pid"
| "module_pc (R_kill pid to_kill) = W_kill pid to_kill"
| "module_pc (R_wait pid) = W_wait pid"
| "module_pc (R_clear pid status) = W_clear pid status"
| "module_pc (R_result status) = W_result status"
| "module_pc R_finish = W_finish"
| "module_pc R_auth_error = W_auth_error"
| "module_pc R_end = W_end"
| "module_pc R_stopped = W_stopped"
| "module_pc R_on_stop = W_on_stop"
| "module_pc R_clear_candidate = W_free"
| "module_pc R_last = W_last"
| "module_pc R_done = W_done"

fun module_owner :: "own_pc \<Rightarrow> pw_owner_pc" where
  "module_owner N_idle = O_idle"
| "module_owner (N_join pass) = V_join pass"
| "module_owner (N_assign pass) = V_dup pass"
| "module_owner (N_catch_assign pass) = V_dup_failed"
| "module_owner N_thread = V_create"
| "module_owner N_catch_thread = V_create_failed"
| "module_owner N_stop = D_stop"
| "module_owner N_stop_join = D_join"
| "module_owner N_clear = D_free"
| "module_owner N_destroyed = O_deleted"

definition module_handlers :: "password_handlers \<Rightarrow> kl_password_handlers" where
  "module_handlers h = \<lparr>pwh_on_init = ph_on_init h, pwh_on_begin = ph_on_begin h,
     pwh_on_finish = ph_on_finish h, pwh_on_error = ph_on_error h, pwh_on_end = ph_on_end h,
     pwh_on_stop = ph_on_stop h, pwh_on_delete = ph_on_delete h\<rparr>"

definition module_ctx :: "bool \<Rightarrow> password_object \<Rightarrow> kl_password_ctx" where
  "module_ctx held self = \<lparr>pw_handlers = module_handlers (po_handlers self),
     pw_user_data = po_user_data self, pw_username = Some (po_username self),
     pw_has_thread = po_worker_thread self, pw_init_called = po_init_called self,
     pw_is_running = po_is_running self, pw_active_pam_pid = po_active_pam_pid self,
     pw_candidate = (if held then Some (po_candidate self) else None)\<rparr>"

text \<open>The module frees the candidate where the object only clears it; so the object's candidate counts
  while a worker or \<open>verify\<close> holds it.\<close>

definition holds :: "password_machine \<Rightarrow> bool" where
  "holds m \<longleftrightarrow> holds_candidate (module_pc (po_worker m)) \<or> owner_holds (module_owner (po_owner m))"

definition as_module :: "password_machine \<Rightarrow> pw_machine" where
  "as_module m = \<lparr>pm_ctx = module_ctx (holds m) (po_object m), pm_alive = po_alive m,
     pm_worker = module_pc (po_worker m), pm_owner = module_owner (po_owner m), pm_stops = po_stops m,
     pm_children = po_children m, pm_events = po_events m, pm_fault = po_fault m\<rparr>"

subsection \<open>Reasoning about steps\<close>

lemma po_log_fields [simp]:
  "po_object (po_log e m) = po_object m" "po_alive (po_log e m) = po_alive m"
  "po_worker (po_log e m) = po_worker m" "po_owner (po_log e m) = po_owner m"
  "po_stops (po_log e m) = po_stops m" "po_children (po_log e m) = po_children m"
  "po_events (po_log e m) = e # po_events m" "po_fault (po_log e m) = po_fault m"
  by (simp_all add: po_log_def)

lemma po_set_fields [simp]:
  "po_object (po_set f m) = f (po_object m)" "po_alive (po_set f m) = po_alive m"
  "po_worker (po_set f m) = po_worker m" "po_owner (po_set f m) = po_owner m"
  "po_stops (po_set f m) = po_stops m" "po_children (po_set f m) = po_children m"
  "po_events (po_set f m) = po_events m" "po_fault (po_set f m) = po_fault m"
  by (simp_all add: po_set_def)

lemma po_notify_fields [simp]:
  "po_object (po_notify h cb m) = po_object m" "po_alive (po_notify h cb m) = po_alive m"
  "po_worker (po_notify h cb m) = po_worker m" "po_owner (po_notify h cb m) = po_owner m"
  "po_stops (po_notify h cb m) = po_stops m" "po_children (po_notify h cb m) = po_children m"
  "po_events (po_notify h cb m) = (if h (po_handlers (po_object m)) then Pw_call cb # po_events m else po_events m)"
  "po_fault (po_notify h cb m) = po_fault m"
  by (simp_all add: po_notify_def)

lemma po_kill_fields [simp]:
  "po_object (po_kill pid m) = po_object m" "po_alive (po_kill pid m) = po_alive m"
  "po_worker (po_kill pid m) = po_worker m" "po_owner (po_kill pid m) = po_owner m"
  "po_stops (po_kill pid m) = po_stops m" "po_fault (po_kill pid m) = po_fault m"
  by (simp_all add: po_kill_def split: pam_child.split)

lemma module_handlers_fields [simp]:
  "pwh_on_init (module_handlers h) = ph_on_init h" "pwh_on_begin (module_handlers h) = ph_on_begin h"
  "pwh_on_finish (module_handlers h) = ph_on_finish h" "pwh_on_error (module_handlers h) = ph_on_error h"
  "pwh_on_end (module_handlers h) = ph_on_end h" "pwh_on_stop (module_handlers h) = ph_on_stop h"
  "pwh_on_delete (module_handlers h) = ph_on_delete h"
  by (simp_all add: module_handlers_def)

lemma module_ctx_fields [simp]:
  "pw_handlers (module_ctx held self) = module_handlers (po_handlers self)"
  "pw_username (module_ctx held self) = Some (po_username self)"
  "pw_has_thread (module_ctx held self) = po_worker_thread self"
  "pw_is_running (module_ctx held self) = po_is_running self"
  "pw_active_pam_pid (module_ctx held self) = po_active_pam_pid self"
  "pw_candidate (module_ctx held self) = (if held then Some (po_candidate self) else None)"
  by (simp_all add: module_ctx_def)

lemma as_module_fields [simp]:
  "pm_ctx (as_module m) = module_ctx (holds m) (po_object m)" "pm_alive (as_module m) = po_alive m"
  "pm_worker (as_module m) = module_pc (po_worker m)" "pm_owner (as_module m) = module_owner (po_owner m)"
  "pm_stops (as_module m) = po_stops m" "pm_children (as_module m) = po_children m"
  "pm_events (as_module m) = po_events m" "pm_fault (as_module m) = po_fault m"
  by (simp_all add: as_module_def)

lemma module_pc_eq [simp]:
  "module_pc pc = W_none \<longleftrightarrow> pc = R_none" "module_pc pc = W_done \<longleftrightarrow> pc = R_done"
  by (cases pc; simp)+

lemma module_owner_eq [simp]:
  "module_owner pc = O_idle \<longleftrightarrow> pc = N_idle" "module_owner pc = O_deleted \<longleftrightarrow> pc = N_destroyed"
  by (cases pc; simp)+

lemma pw_machine_eqI:
  "pm_ctx m = pm_ctx m' \<Longrightarrow> pm_alive m = pm_alive m' \<Longrightarrow> pm_worker m = pm_worker m' \<Longrightarrow>
   pm_owner m = pm_owner m' \<Longrightarrow> pm_stops m = pm_stops m' \<Longrightarrow> pm_children m = pm_children m' \<Longrightarrow>
   pm_events m = pm_events m' \<Longrightarrow> pm_fault m = pm_fault m' \<Longrightarrow> m = (m' :: pw_machine)"
  by (cases m; cases m'; simp)

lemma secure_clear_chars_all: "secure_clear_chars v (length v) = replicate (length v) NUL"
  by (induction v) simp_all

lemma clear_candidate_empty [simp]: "clear_candidate c = []"
  by (simp add: clear_candidate_def secure_clear_chars_all)

lemma child_code_eq [simp]: "child_code = pam_child_exit"
  by (simp add: fun_eq_iff child_code_def pam_child_exit_def Let_def)

lemmas po_calls = Password_verify_def po_join_def Password_stop_def Password_destruct_def verify_catch_def

text \<open>The labels of the module that follow a label of the object.\<close>

fun module_labels :: "password_machine \<Rightarrow> po_label \<Rightarrow> pw_label list" where
  "module_labels m (Po_worker pid) = [Pw_worker pid]"
| "module_labels m Po_interrupt = [Pw_interrupt 0]"
| "module_labels m (Po_child pid r1 r2 r3) = [Pw_child pid r1 r2 r3]"
| "module_labels m (Po_verify pass) = [Pw_verify pass]"
| "module_labels m (Po_owner ok) =
     (if po_owner m = N_catch_thread then [Pw_owner ok, Pw_owner ok] else [Pw_owner ok])"
| "module_labels m Po_destruct = [Pw_delete]"
| "module_labels m (Po_stop t) = [Pw_stop t]"
| "module_labels m (Po_stopper t) = [Pw_stopper t]"

lemma po_step_cases [consumes 1, case_names fault worker interrupt child verify owner destruct stop stopper]:
  assumes "po_step l m = Some m'"
  obtains pid where "l = Po_worker pid" "m' = m\<lparr>po_fault := True\<rparr>" "\<not> po_alive m" "po_worker m \<noteq> R_none" "po_worker m \<noteq> R_done" "\<not> po_fault m"
  | pid where "l = Po_worker pid" "run_worker_at (po_worker m) pid m = Some m'" "po_worker m \<noteq> R_none \<longrightarrow> po_worker m \<noteq> R_done \<longrightarrow> po_alive m" "\<not> po_fault m"
  | "l = Po_interrupt" "wait_interrupted_at (po_worker m) m = Some m'" "\<not> po_fault m"
  | pid r1 r2 r3 where "l = Po_child pid r1 r2 r3" "po_child_ends pid r1 r2 r3 m = Some m'" "\<not> po_fault m"
  | pass where "l = Po_verify pass" "Password_verify pass m = Some m'" "\<not> po_fault m"
  | ok where "l = Po_owner ok" "po_owner_at (po_owner m) ok m = Some m'" "\<not> po_fault m"
  | "l = Po_destruct" "Password_destruct m = Some m'" "\<not> po_fault m"
  | t where "l = Po_stop t" "Password_stop t m = Some m'" "\<not> po_fault m"
  | t where "l = Po_stopper t" "po_stop_at (po_stops m t) t m = Some m'" "\<not> po_fault m"
proof -
  have "\<not> po_fault m" using assms by (simp add: po_step_def split: if_splits)
  moreover have "(\<exists>pid. l = Po_worker pid \<and> m' = m\<lparr>po_fault := True\<rparr> \<and> \<not> po_alive m \<and> po_worker m \<noteq> R_none \<and> po_worker m \<noteq> R_done) \<or>
    (\<exists>pid. l = Po_worker pid \<and> run_worker_at (po_worker m) pid m = Some m' \<and> (po_worker m \<noteq> R_none \<longrightarrow> po_worker m \<noteq> R_done \<longrightarrow> po_alive m)) \<or>
    l = Po_interrupt \<and> wait_interrupted_at (po_worker m) m = Some m' \<or>
    (\<exists>pid r1 r2 r3. l = Po_child pid r1 r2 r3 \<and> po_child_ends pid r1 r2 r3 m = Some m') \<or>
    (\<exists>pass. l = Po_verify pass \<and> Password_verify pass m = Some m') \<or>
    (\<exists>ok. l = Po_owner ok \<and> po_owner_at (po_owner m) ok m = Some m') \<or>
    l = Po_destruct \<and> Password_destruct m = Some m' \<or>
    (\<exists>t. l = Po_stop t \<and> Password_stop t m = Some m') \<or>
    (\<exists>t. l = Po_stopper t \<and> po_stop_at (po_stops m t) t m = Some m')"
    using assms by (cases l) (auto simp: po_step_def split: if_splits)
  ultimately show thesis by (elim disjE exE conjE) (erule that; assumption)+
qed

lemmas po_step_elims = run_worker_at.elims po_owner_at.elims po_stop_at.elims

lemma wait_interrupted_Some:
  "wait_interrupted_at pc m = Some m' \<longleftrightarrow> (\<exists>pid. pc = R_wait pid \<and> m' = po_at (R_clear pid 0) (po_log Wait_interrupted m))"
  by (auto simp: wait_interrupted_at_def split: run_pc.splits)

lemmas po_step_simps = po_calls wait_interrupted_Some po_child_ends_def Let_def

lemma po_kill_as_module:
  "po_children (po_kill k m) = pm_children (kill_child k (as_module m))"
  "po_events (po_kill k m) = pm_events (kill_child k (as_module m))"
  by (simp_all add: po_kill_def kill_child_def split: pam_child.split)

lemma module_step:
  assumes "pw_threads_ok (as_module m)" and "po_step l m = Some m'"
  shows "exec pw_step (module_labels m l) (as_module m) = Some (as_module m')"
  using assms(2,1)
  by - (erule po_step_cases; (erule po_step_elims)?;
    clarsimp simp: po_step_simps pw_step_def pw_calls pw_wait_interrupted_def pw_child_ends_def pw_threads_ok_def holds_def
      split: if_splits pam_child.splits;
    ((intro conjI impI)?; (rule pw_machine_eqI)?;
     auto simp: po_kill_as_module holds_def module_ctx_def dest: owner_holds_alone; fail)?)

subsection \<open>The object simulates the module\<close>

lemma po_initial_module: "po_initial m \<Longrightarrow> pw_initial (as_module m)"
proof -
  assume "po_initial m"
  then obtain username user_data handlers where
    m: "m = po_fresh (fst (Password_set_handlers (Password_construct username user_data) handlers))"
    by (auto simp: po_initial_def)
  let ?ctx = "the (kl_password_init True True user_data (Some username))"
  have "kl_password_init True True user_data (Some username) = Some ?ctx"
    by (simp add: kl_password_init_def)
  moreover have "as_module m =
    pw_fresh (the (fst (kl_password_set_handlers (Some ?ctx) (Some (module_handlers handlers)))))"
    by (simp add: m as_module_def holds_def module_ctx_def po_fresh_def pw_fresh_def kl_password_init_def
        kl_password_set_handlers_def Password_set_handlers_def Password_construct_def Let_def)
  ultimately show ?thesis unfolding pw_initial_def by blast
qed

interpretation port: machine_path_simulation po_initial po_step pw_initial pw_step as_module
proof
  show "po_initial m \<Longrightarrow> pw_initial (as_module m)" for m by (rule po_initial_module)
  show "\<exists>ks. exec pw_step ks (as_module m) = Some (as_module m')"
    if "reach pw_initial pw_step (as_module m)" "po_step l m = Some m'" for l m m'
    using module_step [OF _ that(2)] pw.holds [OF that(1)] by (auto simp: pw_inv_def)
qed

lemma po_inv: "reach po_initial po_step m \<Longrightarrow> pw_inv (as_module m)"
  by (rule port.invariant_transfers [OF pw.machine_invariant_axioms])

lemma po_threads: "reach po_initial po_step m \<Longrightarrow> pw_threads_ok (as_module m)"
  using po_inv by (simp add: pw_inv_def)

text \<open>Unlike the module, the object keeps the string: it is empty when nobody holds it.\<close>

definition po_wiped :: "password_machine \<Rightarrow> bool" where
  "po_wiped m \<longleftrightarrow> po_candidate (po_object m) \<noteq> [] \<longrightarrow> holds m"

lemma po_wiped_step:
  assumes "pw_threads_ok (as_module m)" and "po_wiped m" and "po_step l m = Some m'"
  shows "po_wiped m'"
  using assms(3,1,2)
  by - (erule po_step_cases; (erule po_step_elims)?;
    clarsimp simp: po_step_simps po_wiped_def pw_threads_ok_def holds_def split: if_splits pam_child.splits)

interpretation wiped: machine_invariant po_initial po_step po_wiped
proof
  show "po_initial m \<Longrightarrow> po_wiped m" for m
    by (auto simp: po_initial_def po_wiped_def po_fresh_def Password_set_handlers_def Password_construct_def Let_def)
  show "po_wiped m'" if "reach po_initial po_step m" "po_wiped m" "po_step l m = Some m'" for l m m'
    using po_wiped_step [OF po_threads] that by blast
qed

lemma po_step_keeps:
  assumes "po_step l m = Some m'" and "pw_threads_ok (as_module m)"
  shows "po_handlers (po_object m') = po_handlers (po_object m)"
    "po_username (po_object m') = po_username (po_object m)"
    "set (po_events m) \<subseteq> set (po_events m')"
proof -
  have "exec pw_step ks s = Some s' \<Longrightarrow> set (pm_events s) \<subseteq> set (pm_events s')" for ks s s'
    by (induction ks arbitrary: s) (auto split: option.splits dest: pw_step_keeps)
  from this [OF module_step [OF assms(2,1)]] show "set (po_events m) \<subseteq> set (po_events m')" by simp
  show "po_handlers (po_object m') = po_handlers (po_object m)" "po_username (po_object m') = po_username (po_object m)"
    using assms(1)
    by - (erule po_step_cases; (erule po_step_elims)?; clarsimp simp: po_step_simps split: if_splits pam_child.splits)+
qed

subsection \<open>The conversation function\<close>

lemma answer_loop_conv:
  "answer_loop appdata dup styles i reply = conv_loop (c_string appdata) dup i (drop i styles) reply"
proof (induction appdata dup styles i reply rule: answer_loop.induct)
  case (1 appdata dup styles i reply)
  show ?case
  proof (cases "i < length styles")
    case True
    then have "drop i styles = styles ! i # drop (i + 1) styles" by (simp add: Cons_nth_drop_Suc)
    with True "1.IH" show ?thesis
      by (subst answer_loop.simps) (simp add: is_prompt_def)
  next
    case False
    then show ?thesis by (subst answer_loop.simps) simp
  qed
qed

lemma free_before_frees: "free_before = free_replies"
proof (intro ext)
  show "free_before i reply = free_replies i reply" for i reply
    by (induction i reply rule: free_replies.induct) (simp_all add: free_before.simps)
qed

subsection \<open>Example runs\<close>

definition all_password_handlers :: password_handlers where
  "all_password_handlers = \<lparr>ph_on_init = True, ph_on_begin = True, ph_on_finish = True, ph_on_error = True,
     ph_on_end = True, ph_on_stop = True, ph_on_delete = True\<rparr>"

definition po_sample :: password_machine where
  "po_sample = po_fresh (fst (Password_set_handlers (Password_construct ''kiri'' 1) all_password_handlers))"

lemma po_sample_initial: "po_initial po_sample"
  unfolding po_initial_def po_sample_def by blast

definition po_start :: "string \<Rightarrow> po_label list" where
  "po_start pass = [Po_verify pass, Po_owner True, Po_owner True, Po_owner True]"

definition po_waiting :: "po_label list" where
  "po_waiting = po_start ''secret'' @ [Po_worker 0, Po_worker 42, Po_worker 0, Po_worker 0]"

definition po_good_run :: "po_label list" where
  "po_good_run = po_waiting @ [Po_child 42 0 0 0] @ replicate 8 (Po_worker 0)"

lemma po_run_reach:
  "exec po_step ls po_sample \<noteq> None \<Longrightarrow> reach po_initial po_step (the (exec po_step ls po_sample))"
  using exec_from_init [of po_initial, OF po_sample_initial] by fastforce

subsection \<open>Properties\<close>

text \<open>
  (C19) The C++ class is a refinement of the C module: read as a state of the module, every state of the
  object that some interleaving of the worker, the children, the owner and the stopping threads leads
  to is a state the module can reach, with the same calls of handlers, children and signals sent.
\<close>

theorem Password_refines_module:
  assumes "reach po_initial po_step m"
  shows "reach pw_initial pw_step (as_module m) \<and> pm_events (as_module m) = po_events m \<and>
    pm_children (as_module m) = po_children m"
  using port.reach_abs [OF assms] by simp

theorem Password_refines_module_witness:
  "reach pw_initial pw_step (as_module (the (exec po_step po_good_run po_sample)))"
proof -
  have "exec po_step po_good_run po_sample \<noteq> None" by code_simp
  from Password_refines_module [OF po_run_reach [OF this]] show ?thesis by blast
qed

text \<open>
  The object leaves no secret behind: outside \<open>verify\<close> and with no worker at work, the candidate
  is empty, its bytes having been overwritten, and no pid is published.  After the destructor there is
  no worker.
\<close>

theorem Password_wipes:
  assumes "reach po_initial po_step m" and "po_owner m = N_idle \<or> po_owner m = N_destroyed"
    and "po_worker m = R_none \<or> po_worker m = R_done"
  shows "po_candidate (po_object m) = '''' \<and> po_active_pam_pid (po_object m) = 0 \<and>
    (po_owner m = N_destroyed \<longrightarrow> po_worker m = R_none)"
proof -
  have "\<not> holds m" using assms(2,3) by (auto simp: holds_def)
  with wiped.holds [OF assms(1)] have "po_candidate (po_object m) = ''''" by (auto simp: po_wiped_def)
  moreover have "po_active_pam_pid (po_object m) = 0" "po_owner m = N_destroyed \<longrightarrow> po_worker m = R_none"
    using po_inv [OF assms(1)] assms(3) by (auto simp: pw_inv_def pw_pids_ok_def pw_threads_ok_def)
  ultimately show ?thesis by simp
qed

theorem Password_wipes_witness:
  "po_candidate (po_object (the (exec po_step po_good_run po_sample))) = ''''"
proof -
  let ?m = "the (exec po_step po_good_run po_sample)"
  have "exec po_step po_good_run po_sample \<noteq> None" by code_simp
  moreover have "po_owner ?m = N_idle" "po_worker ?m = R_done" by code_simp+
  ultimately show ?thesis using Password_wipes [OF po_run_reach] by blast
qed

text \<open>
  Stopping takes effect, as in the module: once \<open>is_running_\<close> has been cleared and no thread is inside
  \<open>stop\<close>, the worker is not held up by its child.
\<close>

theorem Password_stop_cancels:
  assumes "reach po_initial po_step m" and "\<not> po_is_running (po_object m)" and "\<forall>t. po_stops m t = S_idle"
    and "po_worker m \<noteq> R_none" and "po_worker m \<noteq> R_done"
  shows "\<exists>pid m'. po_step (Po_worker pid) m = Some m'"
proof -
  note inv = po_inv [OF assms(1)]
  have "po_alive m" "\<not> po_fault m" using inv assms(4) by (auto simp: pw_inv_def pw_threads_ok_def)
  moreover have "\<exists>m'. run_worker_at (po_worker m) (-1) m = Some m'"
  proof (cases "\<exists>pid. po_worker m = R_wait pid")
    case True
    then obtain pid where pid: "po_worker m = R_wait pid" by blast
    with inv have "po_children m pid \<noteq> No_child" by (auto simp: pw_inv_def pw_pids_ok_def)
    moreover have "\<not> is_child_running (po_children m pid)"
      using stopped_child [OF inv, of pid] assms(2,3) pid by simp
    ultimately show ?thesis using pid by (cases "po_children m pid") auto
  next
    case False
    then show ?thesis using assms(4,5) by (cases "po_worker m"; simp add: Let_def)
  qed
  ultimately show ?thesis by (auto simp: po_step_def)
qed

text \<open>
  A signal is taken for a success, always: if \<open>waitpid\<close> is interrupted while the object runs, the
  worker's next steps call \<open>on_finish\<close>, whatever PAM will answer, because \<open>status\<close> is still 0.
\<close>

theorem Password_interrupt_succeeds:
  assumes "reach po_initial po_step m" and "po_worker m = R_wait pid" and "po_is_running (po_object m)"
    and "ph_on_finish (po_handlers (po_object m))"
  shows "\<exists>m'. exec po_step (Po_interrupt # replicate 3 (Po_worker 0)) m = Some m' \<and>
    po_events m' = Pw_call Pw_on_finish # Wait_interrupted # po_events m \<and> po_children m' = po_children m"
proof -
  have "po_alive m" "\<not> po_fault m"
    using po_threads [OF assms(1)] assms(2) by (auto simp: pw_threads_ok_def)
  then show ?thesis
    using assms(2-4) by (simp add: po_step_def wait_interrupted_at_def numeral_3_eq_3)
qed

theorem Password_interrupt_succeeds_witness:
  "let m = the (exec po_step po_waiting po_sample)
   in po_children m 42 = Child_running (Some ''kiri'') (Some ''secret'') \<and>
     (\<exists>m'. exec po_step (Po_interrupt # replicate 3 (Po_worker 0)) m = Some m' \<and>
        Pw_call Pw_on_finish \<in> set (po_events m'))"
proof -
  let ?m = "the (exec po_step po_waiting po_sample)"
  have "exec po_step po_waiting po_sample \<noteq> None" by code_simp
  note r = po_run_reach [OF this]
  have w: "po_worker ?m = R_wait 42" "po_is_running (po_object ?m)" "ph_on_finish (po_handlers (po_object ?m))"
    by code_simp+
  have "po_children ?m 42 = Child_running (Some ''kiri'') (Some ''secret'')" by code_simp
  with Password_interrupt_succeeds [OF r w] show ?thesis unfolding Let_def by fastforce
qed

text \<open>
  (C30) The conversation function of the C++ class is that of the C module on the candidate up to its first
  null byte; on candidates without one the two agree for all arguments.
\<close>

theorem pam_conv_equivalent:
  "pam_conv num_msg msg resp appdata alloc dup =
     internal_pam_conv num_msg msg resp (map_option c_string appdata) alloc dup"
  by (cases appdata) (simp_all add: pam_conv_def internal_pam_conv_def answer_loop_conv free_before_frees split: sum.split)

end
