(* ===== verification/Fingerprint_Class.thy ===== *)
theory Fingerprint_Class
  imports Fingerprint
begin

section \<open>The class Fingerprint (src/libs/auth/src/fingerprint.cpp)\<close>

text \<open>
  The C++ version of the fingerprint module.  The events and callbacks are those of theory
  \<open>Fingerprint\<close>, with \<open>NotMatch\<close>, \<open>NotFound\<close> and \<open>System\<close> for the enumerators of
  \<open>kl_fingerprint_error\<close>; the object, its handlers and the steps are translated from the C++ source.

  What differs from the C module: the constructor cannot fail, so that the object may lack the pipe, the
  bus, the device or all of them; \<open>start\<close> joins a worker that was stopped and starts another one,
  and catches exceptions of the handler and of the thread's creation; the destructor gives back the
  slot, the bus and the pipe.
\<close>

subsection \<open>Data\<close>

record fingerprint_handlers =
  fh_on_init :: bool
  fh_on_start :: bool
  fh_on_loop :: bool
  fh_on_finish :: bool
  fh_on_error :: bool
  fh_on_end :: bool
  fh_on_stop :: bool
  fh_on_delete :: bool

record fingerprint_object =
  fo_username :: string
  fo_user_data :: ptr
  fo_handlers :: fingerprint_handlers
  fo_worker_thread :: bool          \<comment> \<open>whether it is joinable\<close>
  fo_init_called :: bool
  fo_is_running :: bool
  fo_check_in_progress :: bool
  fo_cancel_pipe :: "nat option"    \<comment> \<open>bytes in the pipe; \<open>None\<close> for the descriptors -1\<close>
  fo_bus :: bool
  fo_device_path :: string
  fo_signal_slot :: bool

text \<open>The program counter of the worker, with the line it is at.\<close>

datatype scan_pc =
  G_none                   \<comment> \<open>no thread\<close>
| G_loop                   \<comment> \<open>194\<close>
| G_device                 \<comment> \<open>195\<close>
| G_not_found              \<comment> \<open>196\<close>
| G_start                  \<comment> \<open>204\<close>
| G_start_error            \<comment> \<open>208\<close>
| G_set                    \<comment> \<open>222\<close>
| G_on_loop                \<comment> \<open>223\<close>
| G_running                \<comment> \<open>227, \<open>is_running_\<close>\<close>
| G_checking               \<comment> \<open>227, \<open>check_in_progress_\<close>\<close>
| G_process                \<comment> \<open>228\<close>
| G_result string bool     \<comment> \<open>166, in \<open>fprint_signal_cb\<close>\<close>
| G_done                   \<comment> \<open>181\<close>
| G_on_end                 \<comment> \<open>182\<close>
| G_select                 \<comment> \<open>234\<close>
| G_stop                   \<comment> \<open>245\<close>
| G_sleep                  \<comment> \<open>249\<close>
| G_return                 \<comment> \<open>251\<close>
| G_returned               \<comment> \<open>the thread has ended\<close>

text \<open>The owner inside \<open>start\<close> or the destructor.\<close>

datatype starter_pc =
  M_idle
| M_join           \<comment> \<open>96\<close>
| M_drain          \<comment> \<open>100\<close>
| M_run            \<comment> \<open>112\<close>
| M_check          \<comment> \<open>113\<close>
| M_on_start       \<comment> \<open>115\<close>
| M_thread         \<comment> \<open>119\<close>
| M_catch          \<comment> \<open>122\<close>
| M_stop           \<comment> \<open>48\<close>
| M_stop_join      \<comment> \<open>50\<close>
| M_release        \<comment> \<open>54\<close>
| M_destroyed

record fingerprint_machine =
  fo_object :: fingerprint_object
  fo_alive :: bool
  fo_worker :: scan_pc
  fo_owner :: starter_pc
  fo_stops :: "nat \<Rightarrow> fp_stop_pc"
  fo_events :: "fp_event list"
  fo_fault :: bool

definition fo_log :: "fp_event \<Rightarrow> fingerprint_machine \<Rightarrow> fingerprint_machine" where
  "fo_log e m = m\<lparr>fo_events := e # fo_events m\<rparr>"

definition fo_notify :: "(fingerprint_handlers \<Rightarrow> bool) \<Rightarrow> fp_callback \<Rightarrow> fingerprint_machine \<Rightarrow> fingerprint_machine" where
  "fo_notify h cb m = (if h (fo_handlers (fo_object m)) then fo_log (Fp_call cb) m else m)"

definition fo_set :: "(fingerprint_object \<Rightarrow> fingerprint_object) \<Rightarrow> fingerprint_machine \<Rightarrow> fingerprint_machine" where
  "fo_set f m = m\<lparr>fo_object := f (fo_object m)\<rparr>"

abbreviation fo_at :: "scan_pc \<Rightarrow> fingerprint_machine \<Rightarrow> fingerprint_machine" where
  "fo_at pc m \<equiv> m\<lparr>fo_worker := pc\<rparr>"

subsection \<open>The worker thread and the signal callback\<close>

text \<open>Lines 166 to 177 of \<open>fprint_signal_cb\<close>.\<close>

definition signal_report :: "string \<Rightarrow> fingerprint_machine \<Rightarrow> fingerprint_machine" where
  "signal_report result m =
     (if result = ''verify-match'' then fo_notify fh_on_finish Fp_on_finish m
      else if result = ''verify-no-match'' then fo_notify fh_on_error (Fp_on_error FP_ERR_NOT_MATCH) m
      else fo_notify fh_on_error (Fp_on_error FP_ERR_SYSTEM) m)"

text \<open>\<open>r\<close> is what the D-Bus call returns and \<open>msg\<close> the contents of a VerifyStatus signal that
  \<open>sd_bus_process\<close> dispatches and that can be read.\<close>

fun scan_at :: "scan_pc \<Rightarrow> int \<Rightarrow> (string \<times> bool) option \<Rightarrow> fingerprint_machine \<Rightarrow> fingerprint_machine option" where
  "scan_at G_loop r msg m = Some (fo_at (if fo_is_running (fo_object m) then G_device else G_return) m)"
| "scan_at G_device r msg m =
     Some (fo_at (if \<not> fo_bus (fo_object m) \<or> fo_device_path (fo_object m) = '''' then G_not_found else G_start) m)"
| "scan_at G_not_found r msg m =
     Some (fo_at G_return (fo_notify fh_on_error (Fp_on_error FP_ERR_NOT_FOUND) m))"
| "scan_at G_start r msg m =
     Some (fo_at (if r < 0 then G_start_error else G_set) (fo_log (Fp_method ''VerifyStart'') m))"
| "scan_at G_start_error r msg m =
     Some (fo_at G_return (fo_notify fh_on_error (Fp_on_error FP_ERR_SYSTEM) m))"
| "scan_at G_set r msg m = Some (fo_at G_on_loop (fo_set (fo_check_in_progress_update (\<lambda>_. True)) m))"
| "scan_at G_on_loop r msg m = Some (fo_at G_running (fo_notify fh_on_loop Fp_on_loop m))"
| "scan_at G_running r msg m = Some (fo_at (if fo_is_running (fo_object m) then G_checking else G_stop) m)"
| "scan_at G_checking r msg m =
     Some (fo_at (if fo_check_in_progress (fo_object m) then G_process else G_stop) m)"
| "scan_at G_process r msg m =
     (case msg of
        Some (result, finished) \<Rightarrow> Some (fo_at (G_result result finished) (fo_log (Fp_status result finished) m))
      | None \<Rightarrow> Some (fo_at (if r < 0 then G_stop else if r > 0 then G_running else G_select) m))"
| "scan_at (G_result result finished) r msg m =
     Some (fo_at (if finished then G_done else G_running) (signal_report result m))"
| "scan_at G_done r msg m =
     (if fo_check_in_progress (fo_object m)
      then Some (fo_at G_on_end (fo_set (fo_check_in_progress_update (\<lambda>_. False)) m))
      else Some (fo_at G_running m))"
| "scan_at G_on_end r msg m = Some (fo_at G_running (fo_notify fh_on_end Fp_on_end m))"
| "scan_at G_select r msg m = Some (fo_at G_running m)"
| "scan_at G_stop r msg m = Some (fo_at G_sleep (fo_log (Fp_method ''VerifyStop'') m))"
| "scan_at G_sleep r msg m = Some (fo_at G_loop m)"
| "scan_at G_return r msg m = Some (fo_at G_returned m)"
| "scan_at G_none r msg m = None"
| "scan_at G_returned r msg m = None"

subsection \<open>The methods\<close>

text \<open>What the system answers during the constructor: \<open>pipe\<close>, \<open>sd_bus_open_system\<close>, the call of
  GetDefaultDevice, the reading of its reply and the path in it, and the match.\<close>

record device_answers =
  da_pipe :: int
  da_open :: int
  da_default_device :: int
  da_read :: int
  da_path :: "string option"
  da_match :: bool

definition Fingerprint_construct :: "device_answers \<Rightarrow> string \<Rightarrow> ptr \<Rightarrow> fingerprint_object" where
  "Fingerprint_construct a username user_data =
     (let bus = (da_open a \<ge> 0);
          device_path = (if bus \<and> da_default_device a \<ge> 0 \<and> da_read a \<ge> 0
                         then (case da_path a of Some path \<Rightarrow> path | None \<Rightarrow> '''') else '''')
      in \<lparr>fo_username = username, fo_user_data = user_data,
          fo_handlers = \<lparr>fh_on_init = False, fh_on_start = False, fh_on_loop = False, fh_on_finish = False,
            fh_on_error = False, fh_on_end = False, fh_on_stop = False, fh_on_delete = False\<rparr>,
          fo_worker_thread = False, fo_init_called = False, fo_is_running = False,
          fo_check_in_progress = False, fo_cancel_pipe = (if da_pipe a \<noteq> 0 then None else Some 0),
          fo_bus = bus, fo_device_path = device_path,
          fo_signal_slot = (device_path \<noteq> '''' \<and> da_match a)\<rparr>)"

definition Fingerprint_set_handlers ::
  "fingerprint_object \<Rightarrow> fingerprint_handlers \<Rightarrow> fingerprint_object \<times> fp_callback list" where
  "Fingerprint_set_handlers self handlers =
     (let self = self\<lparr>fo_handlers := handlers\<rparr>
      in if \<not> fo_init_called self \<and> fh_on_init handlers
         then (self\<lparr>fo_init_called := True\<rparr>, [Fp_on_init])
         else (self, []))"

definition Fingerprint_is_running :: "fingerprint_object \<Rightarrow> bool" where
  "Fingerprint_is_running self = fo_is_running self"

definition Fingerprint_get_user_data :: "fingerprint_object \<Rightarrow> ptr" where
  "Fingerprint_get_user_data self = fo_user_data self"

definition Fingerprint_set_user_data :: "fingerprint_object \<Rightarrow> ptr \<Rightarrow> fingerprint_object" where
  "Fingerprint_set_user_data self data = self\<lparr>fo_user_data := data\<rparr>"

definition Fingerprint_get_username :: "fingerprint_object \<Rightarrow> string" where
  "Fingerprint_get_username self = fo_username self"

text \<open>The loop of lines 106 to 109: at most 64 bytes at a time, until the pipe is empty or, after
  \<open>reads\<close> successful reads, \<open>select\<close> or \<open>read\<close> fails.\<close>

fun drain_pipe :: "nat \<Rightarrow> nat \<Rightarrow> nat" where
  "drain_pipe 0 bytes = bytes"
| "drain_pipe (Suc reads) bytes = (if bytes > 0 then drain_pipe reads (bytes - min 64 bytes) else bytes)"

text \<open>Lines 92 to 94, and from there on one step at a time; \<open>ok\<close> says that no exception is thrown and
  \<open>reads\<close> bounds the reads of the pipe.\<close>

definition Fingerprint_start :: "fingerprint_machine \<Rightarrow> fingerprint_machine option" where
  "Fingerprint_start m =
     (if fo_owner m \<noteq> M_idle then None
      else if fo_worker_thread (fo_object m) then
        (if fo_is_running (fo_object m) then Some (fo_log Fp_start_refused m)
         else Some (m\<lparr>fo_owner := M_join\<rparr>))
      else Some (m\<lparr>fo_owner := M_drain\<rparr>))"

definition fo_join :: "starter_pc \<Rightarrow> fingerprint_machine \<Rightarrow> fingerprint_machine option" where
  "fo_join next m =
     (if fo_worker_thread (fo_object m) then
        (if fo_worker m = G_returned
         then Some ((fo_set (fo_worker_thread_update (\<lambda>_. False)) (fo_at G_none m))\<lparr>fo_owner := next\<rparr>)
         else None)
      else Some (m\<lparr>fo_owner := next\<rparr>))"

text \<open>Lines 54 to 79.\<close>

definition fo_release :: "fingerprint_machine \<Rightarrow> fingerprint_machine" where
  "fo_release m =
     (let m = (if fo_bus (fo_object m) \<and> fo_device_path (fo_object m) \<noteq> ''''
               then fo_log (Fp_method ''Release'') m else m);
          m = fo_set (fo_signal_slot_update (\<lambda>_. False)) m;
          m = fo_set (fo_bus_update (\<lambda>_. False)) m;
          m = fo_set (fo_cancel_pipe_update (\<lambda>_. None)) m
      in fo_notify fh_on_delete Fp_on_delete m)"

fun fo_owner_at :: "starter_pc \<Rightarrow> bool \<Rightarrow> nat \<Rightarrow> fingerprint_machine \<Rightarrow> fingerprint_machine option" where
  "fo_owner_at M_join ok reads m = fo_join M_drain m"
| "fo_owner_at M_drain ok reads m =
     Some ((fo_set (fo_cancel_pipe_update (map_option (drain_pipe reads))) m)\<lparr>fo_owner := M_run\<rparr>)"
| "fo_owner_at M_run ok reads m = Some ((fo_set (fo_is_running_update (\<lambda>_. True)) m)\<lparr>fo_owner := M_check\<rparr>)"
| "fo_owner_at M_check ok reads m =
     Some ((fo_set (fo_check_in_progress_update (\<lambda>_. False)) m)\<lparr>fo_owner := M_on_start\<rparr>)"
| "fo_owner_at M_on_start ok reads m =
     Some ((fo_notify fh_on_start Fp_on_start m)\<lparr>fo_owner := if ok then M_thread else M_catch\<rparr>)"
| "fo_owner_at M_thread ok reads m =
     Some (if ok
           then (fo_log Fp_started (fo_at G_loop (fo_set (fo_worker_thread_update (\<lambda>_. True)) m)))\<lparr>fo_owner := M_idle\<rparr>
           else m\<lparr>fo_owner := M_catch\<rparr>)"
| "fo_owner_at M_catch ok reads m =
     Some ((fo_log Fp_start_refused (fo_set (fo_is_running_update (\<lambda>_. False)) m))\<lparr>fo_owner := M_idle\<rparr>)"
| "fo_owner_at M_stop ok reads m = (if fo_stops m 0 = FS_idle then Some (m\<lparr>fo_owner := M_stop_join\<rparr>) else None)"
| "fo_owner_at M_stop_join ok reads m = fo_join M_release m"
| "fo_owner_at M_release ok reads m = Some ((fo_release m)\<lparr>fo_alive := False, fo_owner := M_destroyed\<rparr>)"
| "fo_owner_at M_idle ok reads m = None"
| "fo_owner_at M_destroyed ok reads m = None"

text \<open>\<open>stop\<close> by thread \<open>t\<close>; the owner is thread 0.  \<open>ok\<close> is whether the write to the pipe
  succeeds, which the code ignores.\<close>

definition Fingerprint_stop :: "nat \<Rightarrow> fingerprint_machine \<Rightarrow> fingerprint_machine option" where
  "Fingerprint_stop t m =
     (if fo_stops m t = FS_idle then Some (m\<lparr>fo_stops := (fo_stops m)(t := FS_cas)\<rparr>) else None)"

fun fo_stop_at :: "fp_stop_pc \<Rightarrow> nat \<Rightarrow> bool \<Rightarrow> fingerprint_machine \<Rightarrow> fingerprint_machine option" where
  "fo_stop_at FS_idle t ok m = None"
| "fo_stop_at FS_cas t ok m =
     (if fo_is_running (fo_object m)
      then Some ((fo_set (fo_is_running_update (\<lambda>_. False)) m)\<lparr>fo_stops := (fo_stops m)(t := FS_write)\<rparr>)
      else Some (m\<lparr>fo_stops := (fo_stops m)(t := FS_cas_check)\<rparr>))"
| "fo_stop_at FS_write t ok m =
     Some ((if ok then fo_set (fo_cancel_pipe_update (map_option Suc)) m else m)
       \<lparr>fo_stops := (fo_stops m)(t := FS_cas_check)\<rparr>)"
| "fo_stop_at FS_cas_check t ok m =
     (if fo_check_in_progress (fo_object m)
      then Some ((fo_set (fo_check_in_progress_update (\<lambda>_. False)) m)\<lparr>fo_stops := (fo_stops m)(t := FS_end)\<rparr>)
      else Some (m\<lparr>fo_stops := (fo_stops m)(t := FS_idle)\<rparr>))"
| "fo_stop_at FS_end t ok m =
     Some ((fo_notify fh_on_end Fp_on_end m)\<lparr>fo_stops := (fo_stops m)(t := FS_stop)\<rparr>)"
| "fo_stop_at FS_stop t ok m =
     Some ((fo_notify fh_on_stop Fp_on_stop m)\<lparr>fo_stops := (fo_stops m)(t := FS_idle)\<rparr>)"

definition Fingerprint_destruct :: "fingerprint_machine \<Rightarrow> fingerprint_machine option" where
  "Fingerprint_destruct m =
     (if fo_owner m = M_idle \<and> fo_stops m 0 = FS_idle
      then Some (m\<lparr>fo_owner := M_stop, fo_stops := (fo_stops m)(0 := FS_cas)\<rparr>)
      else None)"

subsection \<open>The machine\<close>

datatype fo_label =
  Fo_worker int "(string \<times> bool) option" | Fo_start | Fo_owner bool nat | Fo_destruct | Fo_stop nat
| Fo_stopper nat bool

text \<open>Every step of the worker and of a thread inside \<open>stop\<close> uses the object.\<close>

definition fo_step :: "fo_label \<Rightarrow> fingerprint_machine \<Rightarrow> fingerprint_machine option" where
  "fo_step l m =
     (if fo_fault m then None
      else case l of
        Fo_worker r msg \<Rightarrow>
          if fo_alive m \<or> fo_worker m = G_none \<or> fo_worker m = G_returned
          then scan_at (fo_worker m) r msg m else Some (m\<lparr>fo_fault := True\<rparr>)
      | Fo_start \<Rightarrow> Fingerprint_start m
      | Fo_owner ok reads \<Rightarrow> fo_owner_at (fo_owner m) ok reads m
      | Fo_destruct \<Rightarrow> Fingerprint_destruct m
      | Fo_stop t \<Rightarrow> Fingerprint_stop t m
      | Fo_stopper t ok \<Rightarrow>
          if fo_alive m \<or> fo_stops m t = FS_idle
          then fo_stop_at (fo_stops m t) t ok m else Some (m\<lparr>fo_fault := True\<rparr>))"

definition fo_fresh :: "fingerprint_object \<Rightarrow> fingerprint_machine" where
  "fo_fresh self = \<lparr>fo_object = self, fo_alive = True, fo_worker = G_none, fo_owner = M_idle,
     fo_stops = (\<lambda>_. FS_idle), fo_events = [], fo_fault = False\<rparr>"

definition fo_initial :: "fingerprint_machine \<Rightarrow> bool" where
  "fo_initial m \<longleftrightarrow> (\<exists>a username user_data handlers.
     m = fo_fresh (fst (Fingerprint_set_handlers (Fingerprint_construct a username user_data) handlers)))"

subsection \<open>Reasoning about steps\<close>

lemma fo_log_fields [simp]:
  "fo_object (fo_log e m) = fo_object m" "fo_alive (fo_log e m) = fo_alive m"
  "fo_worker (fo_log e m) = fo_worker m" "fo_owner (fo_log e m) = fo_owner m"
  "fo_stops (fo_log e m) = fo_stops m" "fo_events (fo_log e m) = e # fo_events m"
  "fo_fault (fo_log e m) = fo_fault m"
  by (simp_all add: fo_log_def)

lemma fo_set_fields [simp]:
  "fo_object (fo_set f m) = f (fo_object m)" "fo_alive (fo_set f m) = fo_alive m"
  "fo_worker (fo_set f m) = fo_worker m" "fo_owner (fo_set f m) = fo_owner m"
  "fo_stops (fo_set f m) = fo_stops m" "fo_events (fo_set f m) = fo_events m"
  "fo_fault (fo_set f m) = fo_fault m"
  by (simp_all add: fo_set_def)

lemma fo_notify_fields [simp]:
  "fo_object (fo_notify h cb m) = fo_object m" "fo_alive (fo_notify h cb m) = fo_alive m"
  "fo_worker (fo_notify h cb m) = fo_worker m" "fo_owner (fo_notify h cb m) = fo_owner m"
  "fo_stops (fo_notify h cb m) = fo_stops m"
  "fo_events (fo_notify h cb m) = (if h (fo_handlers (fo_object m)) then Fp_call cb # fo_events m else fo_events m)"
  "fo_fault (fo_notify h cb m) = fo_fault m"
  by (simp_all add: fo_notify_def)

lemma signal_report_fields [simp]:
  "fo_object (signal_report result m) = fo_object m" "fo_alive (signal_report result m) = fo_alive m"
  "fo_worker (signal_report result m) = fo_worker m" "fo_owner (signal_report result m) = fo_owner m"
  "fo_stops (signal_report result m) = fo_stops m" "fo_fault (signal_report result m) = fo_fault m"
  by (simp_all add: signal_report_def)

lemma fo_release_fields [simp]:
  "fo_worker (fo_release m) = fo_worker m" "fo_stops (fo_release m) = fo_stops m"
  "fo_fault (fo_release m) = fo_fault m" "fo_handlers (fo_object (fo_release m)) = fo_handlers (fo_object m)"
  "fo_worker_thread (fo_object (fo_release m)) = fo_worker_thread (fo_object m)"
  "fo_is_running (fo_object (fo_release m)) = fo_is_running (fo_object m)"
  "fo_check_in_progress (fo_object (fo_release m)) = fo_check_in_progress (fo_object m)"
  "\<not> fo_bus (fo_object (fo_release m))" "\<not> fo_signal_slot (fo_object (fo_release m))"
  "fo_cancel_pipe (fo_object (fo_release m)) = None"
  by (simp_all add: fo_release_def Let_def)

lemma fo_release_events:
  "set (fo_events m) \<subseteq> set (fo_events (fo_release m))"
  "fp_backed (fo_events (fo_release m)) = fp_backed (fo_events m)"
  by (auto simp: fo_release_def Let_def)

lemmas fo_calls = Fingerprint_start_def fo_join_def Fingerprint_stop_def Fingerprint_destruct_def
lemmas fo_step_elims = scan_at.elims fo_owner_at.elims fo_stop_at.elims

lemma fo_step_cases [consumes 1, case_names fault worker start owner destruct stop stopper]:
  assumes "fo_step l m = Some m'"
  obtains "m' = m\<lparr>fo_fault := True\<rparr>" "\<not> fo_alive m"
  | r msg where "l = Fo_worker r msg" "scan_at (fo_worker m) r msg m = Some m'"
  | "l = Fo_start" "Fingerprint_start m = Some m'"
  | ok reads where "l = Fo_owner ok reads" "fo_owner_at (fo_owner m) ok reads m = Some m'"
  | "l = Fo_destruct" "Fingerprint_destruct m = Some m'"
  | t where "l = Fo_stop t" "Fingerprint_stop t m = Some m'"
  | t ok where "l = Fo_stopper t ok" "fo_stop_at (fo_stops m t) t ok m = Some m'"
proof -
  have "m' = m\<lparr>fo_fault := True\<rparr> \<and> \<not> fo_alive m \<or>
    (\<exists>r msg. l = Fo_worker r msg \<and> scan_at (fo_worker m) r msg m = Some m') \<or>
    l = Fo_start \<and> Fingerprint_start m = Some m' \<or>
    (\<exists>ok reads. l = Fo_owner ok reads \<and> fo_owner_at (fo_owner m) ok reads m = Some m') \<or>
    l = Fo_destruct \<and> Fingerprint_destruct m = Some m' \<or>
    (\<exists>t. l = Fo_stop t \<and> Fingerprint_stop t m = Some m') \<or>
    (\<exists>t ok. l = Fo_stopper t ok \<and> fo_stop_at (fo_stops m t) t ok m = Some m')"
    using assms by (cases l) (simp_all add: fo_step_def split: if_splits)
  then show thesis by (elim disjE exE conjE) (erule that; assumption)+
qed

subsection \<open>Invariants\<close>

text \<open>While the owner is between joining a worker and creating the next one, there is none.\<close>

fun starter_alone :: "starter_pc \<Rightarrow> bool" where
  "starter_alone M_idle = False"
| "starter_alone M_join = False"
| "starter_alone M_stop = False"
| "starter_alone M_stop_join = False"
| "starter_alone _ = True"

definition fo_threads_ok :: "fingerprint_machine \<Rightarrow> bool" where
  "fo_threads_ok m \<longleftrightarrow>
     (fo_worker_thread (fo_object m) \<longleftrightarrow> fo_worker m \<noteq> G_none) \<and>
     (starter_alone (fo_owner m) \<longrightarrow> fo_worker m = G_none) \<and>
     (fo_owner m = M_join \<longrightarrow> \<not> fo_is_running (fo_object m)) \<and>
     (fo_alive m \<longleftrightarrow> fo_owner m \<noteq> M_destroyed) \<and> (fo_fault m \<longrightarrow> \<not> fo_alive m) \<and>
     (fo_owner m = M_destroyed \<longrightarrow> \<not> fo_bus (fo_object m) \<and> \<not> fo_signal_slot (fo_object m) \<and>
        fo_cancel_pipe (fo_object m) = None)"

lemma fo_threads_ok_step: "fo_threads_ok m \<Longrightarrow> fo_step l m = Some m' \<Longrightarrow> fo_threads_ok m'"
  by (erule fo_step_cases; (erule fo_step_elims)?;
      clarsimp simp: fo_threads_ok_def fo_calls split: if_splits option.splits; (auto; fail)?)

fun reporting :: "scan_pc \<Rightarrow> (string \<times> bool) option" where
  "reporting (G_result result finished) = Some (result, finished)"
| "reporting _ = None"

definition fo_evidence :: "fingerprint_machine \<Rightarrow> bool" where
  "fo_evidence m \<longleftrightarrow> fp_backed (fo_events m) \<and>
     (\<forall>result finished. reporting (fo_worker m) = Some (result, finished) \<longrightarrow>
        Fp_status result finished \<in> set (fo_events m))"

lemma fo_evidence_step: "fo_threads_ok m \<Longrightarrow> fo_evidence m \<Longrightarrow> fo_step l m = Some m' \<Longrightarrow> fo_evidence m'"
  by (erule fo_step_cases; (erule fo_step_elims)?;
      clarsimp simp: fo_threads_ok_def fo_evidence_def signal_report_def fo_calls fo_release_events
        split: if_splits option.splits; (auto; fail)?)

definition fo_inv :: "fingerprint_machine \<Rightarrow> bool" where
  "fo_inv m \<longleftrightarrow> fo_threads_ok m \<and> fo_evidence m"

lemma fo_initial_fields:
  assumes "fo_initial m"
  shows "fo_alive m" "fo_worker m = G_none" "fo_owner m = M_idle" "fo_stops m = (\<lambda>_. FS_idle)"
    "fo_events m = []" "\<not> fo_fault m" "\<not> fo_worker_thread (fo_object m)" "\<not> fo_is_running (fo_object m)"
    "\<not> fo_check_in_progress (fo_object m)"
proof -
  obtain a username user_data handlers where
    m: "m = fo_fresh (fst (Fingerprint_set_handlers (Fingerprint_construct a username user_data) handlers))"
    using assms by (auto simp: fo_initial_def)
  show "fo_alive m" "fo_worker m = G_none" "fo_owner m = M_idle" "fo_stops m = (\<lambda>_. FS_idle)"
    "fo_events m = []" "\<not> fo_fault m" "\<not> fo_worker_thread (fo_object m)" "\<not> fo_is_running (fo_object m)"
    "\<not> fo_check_in_progress (fo_object m)"
    by (simp_all add: m fo_fresh_def Fingerprint_set_handlers_def Fingerprint_construct_def Let_def)
qed

interpretation scanner: machine_invariant fo_initial fo_step fo_inv
proof
  show "fo_initial m \<Longrightarrow> fo_inv m" for m
    by (simp add: fo_inv_def fo_threads_ok_def fo_evidence_def fo_initial_fields)
  show "fo_inv m \<Longrightarrow> fo_step l m = Some m' \<Longrightarrow> fo_inv m'" for l m m'
    unfolding fo_inv_def using fo_threads_ok_step fo_evidence_step by meson
qed

lemma fo_threads: "reach fo_initial fo_step m \<Longrightarrow> fo_threads_ok m"
  using scanner.holds by (simp add: fo_inv_def)

text \<open>What no step changes, and what events never do.\<close>

lemma fo_step_keeps:
  "fo_step l m = Some m' \<Longrightarrow> fo_handlers (fo_object m') = fo_handlers (fo_object m) \<and>
   set (fo_events m) \<subseteq> set (fo_events m')"
  by (erule fo_step_cases; (erule fo_step_elims)?;
      clarsimp simp: signal_report_def fo_calls subsetD [OF fo_release_events(1)]
        split: if_splits option.splits; (auto; fail)?)

subsection \<open>Cancellation\<close>

text \<open>The steps the worker has left at most once \<open>is_running_\<close> is false.\<close>

fun scan_rank :: "scan_pc \<Rightarrow> nat" where
  "scan_rank G_checking = 10"
| "scan_rank G_process = 9"
| "scan_rank G_device = 9"
| "scan_rank G_start = 8"
| "scan_rank (G_result _ _) = 8"
| "scan_rank G_set = 7"
| "scan_rank G_done = 7"
| "scan_rank G_on_loop = 6"
| "scan_rank G_on_end = 6"
| "scan_rank G_select = 6"
| "scan_rank G_running = 5"
| "scan_rank G_stop = 4"
| "scan_rank G_sleep = 3"
| "scan_rank G_loop = 2"
| "scan_rank G_not_found = 2"
| "scan_rank G_start_error = 2"
| "scan_rank G_return = 1"
| "scan_rank G_none = 0"
| "scan_rank G_returned = 0"

lemma scan_rank_max: "scan_rank pc \<le> 10"
  by (cases pc) simp_all

fun is_fo_worker :: "fo_label \<Rightarrow> bool" where
  "is_fo_worker (Fo_worker _ _) = True"
| "is_fo_worker _ = False"

text \<open>Until the owner has joined the stopped worker, nobody sets \<open>is_running_\<close> again.\<close>

definition winding_down :: "fingerprint_machine \<Rightarrow> bool" where
  "winding_down m \<longleftrightarrow> \<not> fo_is_running (fo_object m) \<and> fo_worker m \<noteq> G_none"

lemma winding_down_step:
  "fo_threads_ok m \<Longrightarrow> winding_down m \<Longrightarrow> fo_step l m = Some m' \<Longrightarrow> fo_worker m' \<noteq> G_none \<Longrightarrow>
   winding_down m' \<and>
   (if is_fo_worker l then Suc (scan_rank (fo_worker m')) else scan_rank (fo_worker m')) \<le> scan_rank (fo_worker m)"
  by (erule fo_step_cases; (erule fo_step_elims)?;
      clarsimp simp: fo_threads_ok_def winding_down_def fo_calls split: if_splits option.splits; (auto; fail)?)

lemma fo_worker_moves:
  assumes "fo_threads_ok m" and "fo_worker m \<noteq> G_none" and "fo_worker m \<noteq> G_returned"
  shows "\<exists>m'. fo_step (Fo_worker r msg) m = Some m'"
proof -
  have "fo_alive m" "\<not> fo_fault m" using assms by (auto simp: fo_threads_ok_def)
  then show ?thesis using assms(2,3)
    by (cases "fo_worker m"; simp add: fo_step_def Let_def split: option.split)
qed

subsection \<open>Runs of a stopped, a failed and a restarted worker\<close>

fun is_fo_owner :: "fo_label \<Rightarrow> bool" where
  "is_fo_owner (Fo_owner _ _) = True"
| "is_fo_owner _ = False"

lemma fo_worker_stays:
  "fo_step l m = Some m' \<Longrightarrow> \<not> is_fo_owner l \<Longrightarrow> fo_worker m \<noteq> G_none \<Longrightarrow> fo_worker m' \<noteq> G_none"
  by (erule fo_step_cases; (erule fo_step_elims)?; clarsimp simp: fo_calls split: if_splits option.splits)

interpretation scan_ends: winding_up fo_step "\<lambda>l. \<not> is_fo_owner l" is_fo_worker "\<lambda>_. True"
  "\<lambda>m. fo_threads_ok m \<and> winding_down m" "\<lambda>m. scan_rank (fo_worker m)"
proof
  fix l m m' assume m: "fo_threads_ok m \<and> winding_down m" "fo_step l m = Some m'" "\<not> is_fo_owner l"
  then have "fo_worker m' \<noteq> G_none" using fo_worker_stays by (simp add: winding_down_def)
  with winding_down_step [OF _ _ m(2)] fo_threads_ok_step [OF _ m(2)] m(1)
  show "(fo_threads_ok m' \<and> winding_down m') \<and>
    (if is_fo_worker l then Suc (scan_rank (fo_worker m')) else scan_rank (fo_worker m')) \<le> scan_rank (fo_worker m)"
    by blast
qed

text \<open>A worker that has returned while \<open>is_running_\<close> is set, and nobody inside a call.\<close>

definition wedged :: "fingerprint_machine \<Rightarrow> bool" where
  "wedged m \<longleftrightarrow> fo_worker m = G_returned \<and> fo_is_running (fo_object m) \<and> fo_owner m = M_idle \<and>
     fo_worker_thread (fo_object m) \<and> (\<forall>t. fo_stops m t = FS_idle)"

fun is_fo_stop :: "fo_label \<Rightarrow> bool" where
  "is_fo_stop (Fo_stop _) = True"
| "is_fo_stop Fo_destruct = True"
| "is_fo_stop _ = False"

lemma wedged_step: "wedged m \<Longrightarrow> fo_alive m \<Longrightarrow> fo_step l m = Some m' \<Longrightarrow> \<not> is_fo_stop l \<Longrightarrow> wedged m' \<and> fo_alive m'"
  by (erule fo_step_cases; clarsimp simp: wedged_def fo_calls)

lemma wedged_run:
  "wedged m \<Longrightarrow> fo_alive m \<Longrightarrow> exec fo_step ls m = Some m' \<Longrightarrow> \<forall>l \<in> set ls. \<not> is_fo_stop l \<Longrightarrow> wedged m'"
  by (induction ls arbitrary: m) (auto split: option.splits dest: wedged_step)

subsection \<open>Example runs\<close>

definition all_fingerprint_handlers :: fingerprint_handlers where
  "all_fingerprint_handlers = \<lparr>fh_on_init = True, fh_on_start = True, fh_on_loop = True, fh_on_finish = True,
     fh_on_error = True, fh_on_end = True, fh_on_stop = True, fh_on_delete = True\<rparr>"

definition a_device :: device_answers where
  "a_device = \<lparr>da_pipe = 0, da_open = 0, da_default_device = 0, da_read = 1,
     da_path = Some ''/net/reactivated/Fprint/Device/0'', da_match = True\<rparr>"

definition fo_sample :: fingerprint_machine where
  "fo_sample = fo_fresh (fst (Fingerprint_set_handlers (Fingerprint_construct a_device ''kiri'' 1) all_fingerprint_handlers))"

lemma fo_sample_initial: "fo_initial fo_sample"
  unfolding fo_initial_def fo_sample_def by blast

definition fo_start_run :: "fo_label list" where
  "fo_start_run = Fo_start # replicate 5 (Fo_owner True 9)"

definition fo_go :: fo_label where "fo_go = Fo_worker 0 None"

definition fo_starting_scan :: "fo_label list" where
  "fo_starting_scan = fo_start_run @ replicate 2 fo_go"

definition fo_stopped_run :: "fo_label list" where
  "fo_stopped_run = fo_starting_scan @ replicate 2 fo_go @ [Fo_stop 1] @ replicate 5 (Fo_stopper 1 True)"

definition fo_match_run :: "fo_label list" where
  "fo_match_run = fo_starting_scan @ replicate 5 fo_go @ [Fo_worker 1 (Some (''verify-match'', True)), fo_go]"

lemma fo_run_reach:
  "exec fo_step ls fo_sample \<noteq> None \<Longrightarrow> reach fo_initial fo_step (the (exec fo_step ls fo_sample))"
  using exec_from_init [of fo_initial, OF fo_sample_initial] by fastforce

lemma fo_step_other_stops:
  "fo_step l m = Some m' \<Longrightarrow> \<not> is_fo_stop l \<Longrightarrow> \<forall>t. fo_stops m t = FS_idle \<Longrightarrow> \<forall>t. fo_stops m' t = FS_idle"
  by (erule fo_step_cases; (erule fo_step_elims)?;
      clarsimp simp: fo_calls signal_report_def split: if_splits option.splits)

lemma exec_no_stops:
  "exec fo_step ls m = Some m' \<Longrightarrow> list_all (\<lambda>l. \<not> is_fo_stop l) ls \<Longrightarrow> \<forall>t. fo_stops m t = FS_idle \<Longrightarrow>
   \<forall>t. fo_stops m' t = FS_idle"
proof (induction ls arbitrary: m)
  case (Cons l ls)
  then obtain m1 where "fo_step l m = Some m1" "exec fo_step ls m1 = Some m'" by (auto split: option.splits)
  with Cons fo_step_other_stops [of l m m1] show ?case by simp
qed simp

subsection \<open>Properties\<close>

text \<open>
  A finger is reported as recognised only if fprintd said so, as in the C module.
\<close>

theorem Fingerprint_finish_backed:
  assumes "reach fo_initial fo_step m" and "fo_events m = later @ Fp_call Fp_on_finish # earlier"
  shows "\<exists>finished. Fp_status ''verify-match'' finished \<in> set earlier"
proof -
  have "fp_backed (later @ Fp_call Fp_on_finish # earlier)"
    using scanner.holds [OF assms(1)] assms(2) by (simp add: fo_inv_def fo_evidence_def)
  then show ?thesis by (induction later) auto
qed

text \<open>
  Stopping takes effect.  Once \<open>is_running_\<close> is false while there is a worker, it stays false until
  the owner has joined the worker; in that time the worker makes at most ten steps, whatever the other
  threads do, and it can always make the next one until it has returned, so that the join in
  \<open>start\<close> and in the destructor comes to an end.
\<close>

theorem Fingerprint_stop_cancels:
  assumes "reach fo_initial fo_step m" and "fo_worker_thread (fo_object m)" and "\<not> fo_is_running (fo_object m)"
    and "exec fo_step ls m = Some m'" and "\<forall>l \<in> set ls. \<not> is_fo_owner l"
  shows "\<not> fo_is_running (fo_object m') \<and> length (filter is_fo_worker ls) \<le> 10 \<and>
    (fo_worker m' = G_returned \<or> (\<exists>m''. fo_step (Fo_worker r msg) m' = Some m''))"
proof -
  have inv: "fo_threads_ok m" "fo_threads_ok m'"
    using fo_threads assms(1) exec_reach [OF assms(1,4)] by blast+
  moreover from this(1) assms(2,3) have "winding_down m" by (simp add: fo_threads_ok_def winding_down_def)
  ultimately show ?thesis
    using scan_ends.bounded [OF _ assms(4,5)] scan_rank_max [of "fo_worker m"] fo_worker_moves [of m' r msg]
    by (fastforce simp: winding_down_def)
qed

theorem Fingerprint_stop_cancels_witness:
  "let m = the (exec fo_step fo_stopped_run fo_sample); ls = replicate 6 fo_go
   in length (filter is_fo_worker ls) \<le> 10 \<and> fo_worker_thread (fo_object m)"
proof -
  let ?m = "the (exec fo_step fo_stopped_run fo_sample)"
  have "exec fo_step fo_stopped_run fo_sample \<noteq> None" by code_simp
  note r = fo_run_reach [OF this]
  have h: "fo_worker_thread (fo_object ?m)" "\<not> fo_is_running (fo_object ?m)" by code_simp+
  have "exec fo_step (replicate 6 fo_go) ?m \<noteq> None" by code_simp
  then obtain m' where "exec fo_step (replicate 6 fo_go) ?m = Some m'" by blast
  from Fingerprint_stop_cancels [OF r h this] h(1) show ?thesis by (simp add: Let_def fo_go_def)
qed

text \<open>
  (C26) Unlike the C module, the object can scan again after it was stopped: whenever the owner is idle,
  \<open>is_running_\<close> is false and there is no worker or one that has returned, \<open>start\<close> joins that
  one, empties the cancel pipe and creates a worker that finds \<open>is_running_\<close> set, unless an exception
  is thrown or the pipe holds more than the reads take.
\<close>

theorem Fingerprint_restarts:
  assumes "reach fo_initial fo_step m" and "fo_owner m = M_idle" and "\<not> fo_is_running (fo_object m)"
    and "fo_worker m = G_none \<or> fo_worker m = G_returned"
    and "case fo_cancel_pipe (fo_object m) of None \<Rightarrow> True | Some bytes \<Rightarrow> bytes \<le> 64 * reads"
  shows "\<exists>n m'. exec fo_step (Fo_start # replicate n (Fo_owner True reads)) m = Some m' \<and>
    fo_worker m' = G_loop \<and> fo_is_running (fo_object m') \<and> fo_owner m' = M_idle \<and>
    fo_cancel_pipe (fo_object m') = map_option (\<lambda>_. 0) (fo_cancel_pipe (fo_object m))"
proof -
  note inv = fo_threads [OF assms(1)]
  then have alive: "\<not> fo_fault m" using assms(2) by (auto simp: fo_threads_ok_def)
  have drain: "bytes \<le> 64 * k \<Longrightarrow> drain_pipe k bytes = 0" for k bytes
    by (induction k bytes rule: drain_pipe.induct) auto
  define m1 where "m1 = m\<lparr>fo_owner := M_drain, fo_worker := G_none,
    fo_object := (fo_object m)\<lparr>fo_worker_thread := False\<rparr>\<rparr>"
  have go: "\<exists>m'. exec fo_step (replicate 5 (Fo_owner True reads)) m1 = Some m' \<and>
    fo_worker m' = G_loop \<and> fo_is_running (fo_object m') \<and> fo_owner m' = M_idle \<and>
    fo_cancel_pipe (fo_object m') = map_option (\<lambda>_. 0) (fo_cancel_pipe (fo_object m))"
    using alive assms(5) drain
    by (auto simp: m1_def fo_step_def eval_nat_numeral split: option.splits)
  show ?thesis
  proof (cases "fo_worker m = G_none")
    case True
    with inv have "\<not> fo_worker_thread (fo_object m)" by (simp add: fo_threads_ok_def)
    with True alive assms(2) have "fo_step Fo_start m = Some m1"
      by (simp add: fo_step_def Fingerprint_start_def m1_def)
    with go show ?thesis by (intro exI [of _ 5]) simp
  next
    case False
    with inv assms(2-4) alive have "exec fo_step [Fo_start, Fo_owner True reads] m = Some m1"
      by (simp add: fo_threads_ok_def fo_step_def Fingerprint_start_def fo_join_def m1_def fo_set_def)
    with go have "\<exists>m'. exec fo_step ([Fo_start, Fo_owner True reads] @ replicate 5 (Fo_owner True reads)) m = Some m' \<and>
      fo_worker m' = G_loop \<and> fo_is_running (fo_object m') \<and> fo_owner m' = M_idle \<and>
      fo_cancel_pipe (fo_object m') = map_option (\<lambda>_. 0) (fo_cancel_pipe (fo_object m))"
      unfolding exec_append by simp
    moreover have "[Fo_start, Fo_owner True reads] @ replicate 5 (Fo_owner True reads) =
      Fo_start # replicate 6 (Fo_owner True reads)" by (simp add: eval_nat_numeral)
    ultimately show ?thesis by metis
  qed
qed

theorem Fingerprint_restarts_witness:
  "let m = the (exec fo_step (fo_stopped_run @ replicate 6 fo_go) fo_sample)
   in fo_cancel_pipe (fo_object m) = Some 1 \<and>
     (\<exists>n m'. exec fo_step (Fo_start # replicate n (Fo_owner True 1)) m = Some m' \<and> fo_worker m' = G_loop)"
proof -
  let ?m = "the (exec fo_step (fo_stopped_run @ replicate 6 fo_go) fo_sample)"
  have "exec fo_step (fo_stopped_run @ replicate 6 fo_go) fo_sample \<noteq> None" by code_simp
  note r = fo_run_reach [OF this]
  have h: "fo_owner ?m = M_idle" "\<not> fo_is_running (fo_object ?m)" "fo_worker ?m = G_returned"
    and p: "fo_cancel_pipe (fo_object ?m) = Some 1" by code_simp+
  from Fingerprint_restarts [OF r h(1,2), of 1] h(3) p show ?thesis unfolding Let_def by auto
qed

text \<open>
  (C36) A scan that cannot be started disables the scanner and does not tell.  When VerifyStart fails, the
  worker reports the error and returns, but \<open>is_running_\<close> stays set: until somebody calls
  \<open>stop\<close> or destroys the object, \<open>is_running\<close> returns true, there is no scan, and
  \<open>start\<close> refuses.
\<close>

theorem Fingerprint_start_failure_wedges:
  assumes "reach fo_initial fo_step m" and "fo_worker m = G_start" and "fo_is_running (fo_object m)"
    and "fo_owner m = M_idle" and "\<forall>t. fo_stops m t = FS_idle" and "r < 0"
  shows "\<exists>m1. exec fo_step (replicate 3 (Fo_worker r None)) m = Some m1 \<and>
    (\<forall>ls m'. exec fo_step ls m1 = Some m' \<and> (\<forall>l \<in> set ls. \<not> is_fo_stop l) \<longrightarrow>
       Fingerprint_is_running (fo_object m') \<and> fo_worker m' = G_returned \<and>
       Fingerprint_start m' = Some (fo_log Fp_start_refused m'))"
proof -
  have inv: "fo_alive m" "\<not> fo_fault m" "fo_worker_thread (fo_object m)"
    using fo_threads [OF assms(1)] assms(2) by (auto simp: fo_threads_ok_def)
  define m1 where "m1 = fo_at G_returned (fo_notify fh_on_error (Fp_on_error FP_ERR_SYSTEM)
    (fo_at G_start_error (fo_log (Fp_method ''VerifyStart'') m)))"
  have "exec fo_step (replicate 3 (Fo_worker r None)) m = Some m1"
    using inv assms(2,6) by (simp add: fo_step_def m1_def numeral_3_eq_3)
  moreover have "wedged m1" "fo_alive m1" using inv assms(3-5) by (simp_all add: wedged_def m1_def)
  moreover have "Fingerprint_is_running (fo_object m') \<and> fo_worker m' = G_returned \<and>
       Fingerprint_start m' = Some (fo_log Fp_start_refused m')" if "wedged m'" for m'
    using that by (simp add: wedged_def Fingerprint_is_running_def Fingerprint_start_def)
  ultimately show ?thesis using wedged_run by blast
qed

theorem Fingerprint_start_failure_wedges_witness:
  "let m = the (exec fo_step fo_starting_scan fo_sample) in
   \<exists>m1. exec fo_step (replicate 3 (Fo_worker (-1) None)) m = Some m1 \<and> Fingerprint_is_running (fo_object m1)"
proof -
  let ?m = "the (exec fo_step fo_starting_scan fo_sample)"
  have e: "exec fo_step fo_starting_scan fo_sample \<noteq> None" by code_simp
  note r = fo_run_reach [OF this]
  have h: "fo_worker ?m = G_start" "fo_is_running (fo_object ?m)" "fo_owner ?m = M_idle" by code_simp+
  have "list_all (\<lambda>l. \<not> is_fo_stop l) fo_starting_scan" by code_simp
  moreover have "exec fo_step fo_starting_scan fo_sample = Some ?m" using e by simp
  moreover have "\<forall>t. fo_stops fo_sample t = FS_idle" by (simp add: fo_sample_def fo_fresh_def)
  ultimately have "\<forall>t. fo_stops ?m t = FS_idle" using exec_no_stops by blast
  from Fingerprint_start_failure_wedges [OF r h this, of "-1"] obtain m1 where
    "exec fo_step (replicate 3 (Fo_worker (-1) None)) ?m = Some m1" and
    all: "\<And>ls m'. exec fo_step ls m1 = Some m' \<and> (\<forall>l \<in> set ls. \<not> is_fo_stop l) \<Longrightarrow> Fingerprint_is_running (fo_object m')"
    by auto
  moreover have "Fingerprint_is_running (fo_object m1)" by (rule all [of "[]"]) simp
  ultimately show ?thesis by (auto simp: Let_def)
qed

text \<open>
  Whatever the constructor got is given back: after the destructor there is no worker, bus, slot or pipe.
\<close>

theorem Fingerprint_destroyed_releases:
  assumes "reach fo_initial fo_step m" and "fo_owner m = M_destroyed"
  shows "fo_worker m = G_none \<and> \<not> fo_bus (fo_object m) \<and> \<not> fo_signal_slot (fo_object m) \<and>
    fo_cancel_pipe (fo_object m) = None"
  using fo_threads [OF assms(1)] assms(2) by (simp add: fo_threads_ok_def)

end
