(* ===== verification/Authenticator.thy ===== *)
theory Authenticator
  imports Coordinator Password_Class Fingerprint_Class
begin

section \<open>The C++ authenticator (src/libs/auth/example/main.cpp)\<close>

text \<open>
  The example program of the C++ library, a machine like that of theory \<open>Coordinator\<close>: the machines
  of the two objects, the main thread, the handlers on the worker threads, the signals and the children;
  besides, the terminal.  The main thread is thread 0, the password worker thread 1 and the fingerprint
  worker thread 2 of the stop calls.

  Unlike the C program, it stops both objects, reads its result, and only then destroys them, by leaving
  \<open>main\<close>, in the reverse order of their construction: the password object first.
\<close>

subsection \<open>The user name\<close>

text \<open>Lines 50 to 65: what \<open>getpwuid_r\<close> finds, with the name if it has one.\<close>

definition get_current_username :: "string option option \<Rightarrow> string" where
  "get_current_username pw = (case pw of Some (Some pw_name) \<Rightarrow> pw_name | _ \<Rightarrow> ''unknown'')"

subsection \<open>The line under edit\<close>

text \<open>Lines 190 to 204, with the string handed to \<open>verify\<close>.\<close>

definition MAX_PASS_SIZE :: nat where "MAX_PASS_SIZE = 512"

definition read_char :: "char \<Rightarrow> string \<Rightarrow> string \<times> string option" where
  "read_char c buf =
     (if c = CHR 0x0A \<or> c = CHR 0x0D then
        (if buf \<noteq> [] then ([], Some buf) else (buf, None))
      else if code c = 127 \<or> c = CHR 0x08 then
        (if buf \<noteq> [] then (butlast buf, None) else (buf, None))
      else if code c \<ge> 32 \<and> code c \<le> 126 then
        (if length buf < MAX_PASS_SIZE - 1 then (buf @ [c], None) else (buf, None))
      else (buf, None))"

subsection \<open>State\<close>

datatype auth_pc =
  A_start                  \<comment> \<open>164\<close>
| A_starting
| A_authenticated          \<comment> \<open>175\<close>
| A_interrupted            \<comment> \<open>175\<close>
| A_fp_running             \<comment> \<open>176\<close>
| A_pw_running             \<comment> \<open>176\<close>
| A_select                 \<comment> \<open>185\<close>
| A_key char               \<comment> \<open>190\<close>
| A_verifying              \<comment> \<open>192\<close>
| A_clear                  \<comment> \<open>209\<close>
| A_stop_fp                \<comment> \<open>214\<close>
| A_stopping_fp
| A_stop_pw                \<comment> \<open>215\<close>
| A_stopping_pw
| A_result                 \<comment> \<open>225\<close>
| A_destroy_pw int         \<comment> \<open>232: the destructors, with the value returned\<close>
| A_destroying_pw int
| A_destroy_fp int
| A_destroying_fp int
| A_exit int

record authenticator =
  au_fp :: fingerprint_machine
  au_pw :: password_machine
  au_authenticated :: bool
  au_interrupted :: bool
  au_main :: auth_pc
  au_fp_handler :: handler_pc
  au_pw_handler :: handler_pc
  au_pass_buf :: string
  au_console :: console

definition via_fp :: "fo_label \<Rightarrow> authenticator \<Rightarrow> authenticator option" where
  "via_fp l s = (case fo_step l (au_fp s) of None \<Rightarrow> None | Some fp \<Rightarrow> Some (s\<lparr>au_fp := fp\<rparr>))"

definition via_pw :: "po_label \<Rightarrow> authenticator \<Rightarrow> authenticator option" where
  "via_pw l s = (case po_step l (au_pw s) of None \<Rightarrow> None | Some pw \<Rightarrow> Some (s\<lparr>au_pw := pw\<rparr>))"

subsection \<open>Handlers\<close>

text \<open>\<open>on_finish\<close> of the scanner (lines 101 to 109) and the stop in its \<open>on_error\<close> (line 114).\<close>

fun fp_lambda_at :: "handler_pc \<Rightarrow> bool \<Rightarrow> authenticator \<Rightarrow> authenticator option" where
  "fp_lambda_at H_none ok s = None"
| "fp_lambda_at H_cas ok s =
     (if au_authenticated s then Some (s\<lparr>au_fp_handler := H_none\<rparr>)
      else via_pw (Po_stop 2) (s\<lparr>au_authenticated := True, au_fp_handler := H_first\<rparr>))"
| "fp_lambda_at H_first ok s =
     (if po_stops (au_pw s) 2 = S_idle then via_fp (Fo_stop 2) (s\<lparr>au_fp_handler := H_second\<rparr>)
      else via_pw (Po_stopper 2) s)"
| "fp_lambda_at H_second ok s =
     (if fo_stops (au_fp s) 2 = FS_idle then Some (s\<lparr>au_fp_handler := H_none\<rparr>)
      else via_fp (Fo_stopper 2 ok) s)"
| "fp_lambda_at H_error ok s = via_fp (Fo_stop 2) (s\<lparr>au_fp_handler := H_second\<rparr>)"

text \<open>\<open>on_finish\<close> of the password object (lines 137 to 145).\<close>

fun pw_lambda_at :: "handler_pc \<Rightarrow> bool \<Rightarrow> authenticator \<Rightarrow> authenticator option" where
  "pw_lambda_at H_cas ok s =
     (if au_authenticated s then Some (s\<lparr>au_pw_handler := H_none\<rparr>)
      else via_fp (Fo_stop 1) (s\<lparr>au_authenticated := True, au_pw_handler := H_first\<rparr>))"
| "pw_lambda_at H_first ok s =
     (if fo_stops (au_fp s) 1 = FS_idle then via_pw (Po_stop 1) (s\<lparr>au_pw_handler := H_second\<rparr>)
      else via_fp (Fo_stopper 1 ok) s)"
| "pw_lambda_at H_second ok s =
     (if po_stops (au_pw s) 1 = S_idle then Some (s\<lparr>au_pw_handler := H_none\<rparr>)
      else via_pw (Po_stopper 1) s)"
| "pw_lambda_at _ ok s = None"

text \<open>What a callback of a worker leads into.\<close>

fun scan_calls :: "scan_pc \<Rightarrow> handler_pc" where
  "scan_calls (G_result result finished) = (if result = ''verify-match'' then H_cas else H_none)"
| "scan_calls G_not_found = H_error"
| "scan_calls _ = H_none"

fun run_calls :: "run_pc \<Rightarrow> handler_pc" where
  "run_calls R_finish = H_cas"
| "run_calls _ = H_none"

definition scan_moves_on :: "int \<Rightarrow> (string \<times> bool) option \<Rightarrow> authenticator \<Rightarrow> authenticator option" where
  "scan_moves_on r msg s =
     (if au_fp_handler s = H_none
      then via_fp (Fo_worker r msg) (s\<lparr>au_fp_handler := scan_calls (fo_worker (au_fp s))\<rparr>)
      else None)"

definition run_moves_on :: "int \<Rightarrow> authenticator \<Rightarrow> authenticator option" where
  "run_moves_on pid s =
     (if au_pw_handler s = H_none
      then via_pw (Po_worker pid) (s\<lparr>au_pw_handler := run_calls (po_worker (au_pw s))\<rparr>)
      else None)"

subsection \<open>The main thread\<close>

text \<open>\<open>key\<close> is the byte read, \<open>ok\<close> and \<open>reads\<close> are handed to the steps of the objects.\<close>

fun auth_main_at :: "auth_pc \<Rightarrow> char option \<Rightarrow> bool \<Rightarrow> nat \<Rightarrow> authenticator \<Rightarrow> authenticator option" where
  "auth_main_at A_start key ok reads s = via_fp Fo_start (s\<lparr>au_main := A_starting\<rparr>)"
| "auth_main_at A_starting key ok reads s =
     (if fo_owner (au_fp s) = M_idle then Some (s\<lparr>au_main := A_authenticated\<rparr>)
      else via_fp (Fo_owner ok reads) s)"
| "auth_main_at A_authenticated key ok reads s =
     Some (s\<lparr>au_main := if \<not> au_authenticated s then A_interrupted else A_clear\<rparr>)"
| "auth_main_at A_interrupted key ok reads s =
     Some (s\<lparr>au_main := if \<not> au_interrupted s then A_fp_running else A_clear\<rparr>)"
| "auth_main_at A_fp_running key ok reads s =
     Some (s\<lparr>au_main := if \<not> Fingerprint_is_running (fo_object (au_fp s)) then A_pw_running else A_select\<rparr>)"
| "auth_main_at A_pw_running key ok reads s =
     Some (s\<lparr>au_main := if \<not> Password_is_running (po_object (au_pw s)) then A_clear else A_select\<rparr>)"
| "auth_main_at A_select key ok reads s =
     Some (s\<lparr>au_main := (case key of None \<Rightarrow> A_authenticated | Some c \<Rightarrow> A_key c)\<rparr>)"
| "auth_main_at (A_key c) key ok reads s =
     (case read_char c (au_pass_buf s) of (buf, line) \<Rightarrow>
        (case line of
           None \<Rightarrow> Some (s\<lparr>au_pass_buf := buf, au_main := A_authenticated\<rparr>)
         | Some pass \<Rightarrow> via_pw (Po_verify pass) (s\<lparr>au_pass_buf := buf, au_main := A_verifying\<rparr>)))"
| "auth_main_at A_verifying key ok reads s =
     (if po_owner (au_pw s) = N_idle then Some (s\<lparr>au_main := A_authenticated\<rparr>) else via_pw (Po_owner ok) s)"
| "auth_main_at A_clear key ok reads s = Some (s\<lparr>au_pass_buf := [], au_main := A_stop_fp\<rparr>)"
| "auth_main_at A_stop_fp key ok reads s = via_fp (Fo_stop 0) (s\<lparr>au_main := A_stopping_fp\<rparr>)"
| "auth_main_at A_stopping_fp key ok reads s =
     (if fo_stops (au_fp s) 0 = FS_idle then Some (s\<lparr>au_main := A_stop_pw\<rparr>) else via_fp (Fo_stopper 0 ok) s)"
| "auth_main_at A_stop_pw key ok reads s = via_pw (Po_stop 0) (s\<lparr>au_main := A_stopping_pw\<rparr>)"
| "auth_main_at A_stopping_pw key ok reads s =
     (if po_stops (au_pw s) 0 = S_idle then Some (s\<lparr>au_main := A_result\<rparr>) else via_pw (Po_stopper 0) s)"
| "auth_main_at A_result key ok reads s =
     Some (s\<lparr>au_main := A_destroy_pw (if au_authenticated s then 0 else 1)\<rparr>)"
| "auth_main_at (A_destroy_pw r) key ok reads s = via_pw Po_destruct (s\<lparr>au_main := A_destroying_pw r\<rparr>)"
| "auth_main_at (A_destroying_pw r) key ok reads s =
     (if po_owner (au_pw s) = N_destroyed then Some (s\<lparr>au_main := A_destroy_fp r\<rparr>)
      else if po_stops (au_pw s) 0 \<noteq> S_idle then via_pw (Po_stopper 0) s
      else via_pw (Po_owner ok) s)"
| "auth_main_at (A_destroy_fp r) key ok reads s = via_fp Fo_destruct (s\<lparr>au_main := A_destroying_fp r\<rparr>)"
| "auth_main_at (A_destroying_fp r) key ok reads s =
     (if fo_owner (au_fp s) = M_destroyed
      then Some (s\<lparr>au_console := restore_tty (au_console s), au_main := A_exit r\<rparr>)
      else if fo_stops (au_fp s) 0 \<noteq> FS_idle then via_fp (Fo_stopper 0 ok) s
      else via_fp (Fo_owner ok reads) s)"
| "auth_main_at (A_exit r) key ok reads s = None"

subsection \<open>The machine\<close>

datatype au_label =
  Au_main "char option" bool nat | Au_signal | Au_fp int "(string \<times> bool) option" | Au_fp_handler bool
| Au_pw int | Au_pw_signal | Au_child int int int int | Au_pw_handler bool

text \<open>\<open>Au_signal\<close> is \<open>global_sig_handler\<close>, and \<open>Au_pw_signal\<close> is the same on the password
  worker's thread inside \<open>waitpid\<close>, which it interrupts.\<close>

definition au_step :: "au_label \<Rightarrow> authenticator \<Rightarrow> authenticator option" where
  "au_step l s =
     (case l of
        Au_main key ok reads \<Rightarrow> auth_main_at (au_main s) key ok reads s
      | Au_signal \<Rightarrow> Some (s\<lparr>au_interrupted := True\<rparr>)
      | Au_fp r msg \<Rightarrow> scan_moves_on r msg s
      | Au_fp_handler ok \<Rightarrow> fp_lambda_at (au_fp_handler s) ok s
      | Au_pw pid \<Rightarrow> run_moves_on pid s
      | Au_pw_signal \<Rightarrow> via_pw Po_interrupt (s\<lparr>au_interrupted := True\<rparr>)
      | Au_child pid start authenticate acct_mgmt \<Rightarrow> via_pw (Po_child pid start authenticate acct_mgmt) s
      | Au_pw_handler ok \<Rightarrow> pw_lambda_at (au_pw_handler s) ok s)"

text \<open>Lines 76 to 163.\<close>

definition fp_lambdas :: fingerprint_handlers where
  "fp_lambdas = \<lparr>fh_on_init = True, fh_on_start = True, fh_on_loop = True, fh_on_finish = True,
     fh_on_error = True, fh_on_end = True, fh_on_stop = True, fh_on_delete = True\<rparr>"

definition pw_lambdas :: password_handlers where
  "pw_lambdas = \<lparr>ph_on_init = True, ph_on_begin = True, ph_on_finish = True, ph_on_error = True,
     ph_on_end = True, ph_on_stop = True, ph_on_delete = True\<rparr>"

definition authenticator_setup :: "device_answers \<Rightarrow> string option option \<Rightarrow> termios option \<Rightarrow> authenticator" where
  "authenticator_setup a user device =
     (let username = get_current_username user;
          fp = Fingerprint_construct a username coord_ptr;
          pw = Password_construct username coord_ptr
      in \<lparr>au_fp = fo_fresh (fst (Fingerprint_set_handlers fp fp_lambdas)),
          au_pw = po_fresh (fst (Password_set_handlers pw pw_lambdas)),
          au_authenticated = False, au_interrupted = False, au_main = A_start,
          au_fp_handler = H_none, au_pw_handler = H_none, au_pass_buf = [],
          au_console = started_console device\<rparr>)"

definition au_initial :: "authenticator \<Rightarrow> bool" where
  "au_initial s \<longleftrightarrow> (\<exists>a user device. s = authenticator_setup a user device)"

subsection \<open>The objects inside the program\<close>

lemma via_fp_Some:
  "via_fp l s = Some s' \<longleftrightarrow> (\<exists>fp. fo_step l (au_fp s) = Some fp \<and> s' = s\<lparr>au_fp := fp\<rparr>)"
  by (auto simp: via_fp_def split: option.splits)

lemma via_pw_Some:
  "via_pw l s = Some s' \<longleftrightarrow> (\<exists>pw. po_step l (au_pw s) = Some pw \<and> s' = s\<lparr>au_pw := pw\<rparr>)"
  by (auto simp: via_pw_def split: option.splits)

lemmas via_Some = via_fp_Some via_pw_Some
  via_fp_Some [unfolded eq_commute [of "via_fp _ _"]] via_pw_Some [unfolded eq_commute [of "via_pw _ _"]]
lemmas au_moves = via_Some scan_moves_on_def run_moves_on_def
lemmas au_step_elims = auth_main_at.elims fp_lambda_at.elims pw_lambda_at.elims

lemma au_step_cases [consumes 1, case_names main signal fp fp_handler pw pw_signal child pw_handler]:
  assumes "au_step l s = Some s'"
  obtains key ok reads where "l = Au_main key ok reads" "auth_main_at (au_main s) key ok reads s = Some s'"
  | "l = Au_signal" "s' = s\<lparr>au_interrupted := True\<rparr>"
  | r msg where "l = Au_fp r msg" "scan_moves_on r msg s = Some s'"
  | ok where "l = Au_fp_handler ok" "fp_lambda_at (au_fp_handler s) ok s = Some s'"
  | pid where "l = Au_pw pid" "run_moves_on pid s = Some s'"
  | "l = Au_pw_signal" "via_pw Po_interrupt (s\<lparr>au_interrupted := True\<rparr>) = Some s'"
  | pid r1 r2 r3 where "l = Au_child pid r1 r2 r3" "via_pw (Po_child pid r1 r2 r3) s = Some s'"
  | ok where "l = Au_pw_handler ok" "pw_lambda_at (au_pw_handler s) ok s = Some s'"
proof -
  have "(\<exists>key ok reads. l = Au_main key ok reads \<and> auth_main_at (au_main s) key ok reads s = Some s') \<or>
    l = Au_signal \<and> s' = s\<lparr>au_interrupted := True\<rparr> \<or>
    (\<exists>r msg. l = Au_fp r msg \<and> scan_moves_on r msg s = Some s') \<or>
    (\<exists>ok. l = Au_fp_handler ok \<and> fp_lambda_at (au_fp_handler s) ok s = Some s') \<or>
    (\<exists>pid. l = Au_pw pid \<and> run_moves_on pid s = Some s') \<or>
    l = Au_pw_signal \<and> via_pw Po_interrupt (s\<lparr>au_interrupted := True\<rparr>) = Some s' \<or>
    (\<exists>pid r1 r2 r3. l = Au_child pid r1 r2 r3 \<and> via_pw (Po_child pid r1 r2 r3) s = Some s') \<or>
    (\<exists>ok. l = Au_pw_handler ok \<and> pw_lambda_at (au_pw_handler s) ok s = Some s')"
    using assms by (cases l) (simp_all add: au_step_def)
  then show thesis by (elim disjE exE conjE) (erule that; assumption)+
qed

lemma au_step_fp:
  "au_step l s = Some s' \<Longrightarrow> au_fp s' = au_fp s \<or> (\<exists>k. fo_step k (au_fp s) = Some (au_fp s'))"
  by (erule au_step_cases; (erule au_step_elims)?;
      clarsimp simp: au_moves split: if_splits option.splits prod.splits; (blast; fail)?)

lemma au_step_pw:
  "au_step l s = Some s' \<Longrightarrow> au_pw s' = au_pw s \<or> (\<exists>k. po_step k (au_pw s) = Some (au_pw s'))"
  by (erule au_step_cases; (erule au_step_elims)?;
      clarsimp simp: au_moves split: if_splits option.splits prod.splits; (blast; fail)?)

lemma Password_handlers_set:
  "po_handlers (fst (Password_set_handlers self handlers)) = handlers"
  by (simp add: Password_set_handlers_def Let_def)

lemma Fingerprint_handlers_set:
  "fo_handlers (fst (Fingerprint_set_handlers self handlers)) = handlers"
  by (simp add: Fingerprint_set_handlers_def Let_def)

lemma au_initial_parts:
  assumes "au_initial s"
  shows "fo_initial (au_fp s)" "po_initial (au_pw s)"
    "fo_handlers (fo_object (au_fp s)) = fp_lambdas" "po_handlers (po_object (au_pw s)) = pw_lambdas"
    "\<not> au_authenticated s" "au_main s = A_start" "au_fp_handler s = H_none" "au_pw_handler s = H_none"
    "au_pass_buf s = []"
proof -
  obtain a user device where s: "s = authenticator_setup a user device"
    using assms by (auto simp: au_initial_def)
  show "fo_initial (au_fp s)" "po_initial (au_pw s)"
    unfolding fo_initial_def po_initial_def by (auto simp: s authenticator_setup_def Let_def)
  show "fo_handlers (fo_object (au_fp s)) = fp_lambdas" "po_handlers (po_object (au_pw s)) = pw_lambdas"
    "\<not> au_authenticated s" "au_main s = A_start" "au_fp_handler s = H_none" "au_pw_handler s = H_none"
    "au_pass_buf s = []"
    by (simp_all add: s authenticator_setup_def fo_fresh_def po_fresh_def Let_def Password_handlers_set
        Fingerprint_handlers_set)
qed

interpretation scan_part: machine_simulation au_initial au_step fo_initial fo_step au_fp
  by unfold_locales (auto intro: au_initial_parts dest: au_step_fp)

interpretation run_part: machine_simulation au_initial au_step po_initial po_step au_pw
  by unfold_locales (auto intro: au_initial_parts dest: au_step_pw)

lemma au_fp_inv: "reach au_initial au_step s \<Longrightarrow> fo_inv (au_fp s)"
  using scan_part.reach_abs scanner.holds by blast

lemma au_pw_inv: "reach au_initial au_step s \<Longrightarrow> pw_inv (as_module (au_pw s))"
  using run_part.reach_abs po_inv by blast

subsection \<open>Handlers run with a reason\<close>

lemma au_step_keeps:
  assumes "reach au_initial au_step s" and "au_step l s = Some s'"
  shows "fo_handlers (fo_object (au_fp s')) = fo_handlers (fo_object (au_fp s))"
    "po_handlers (po_object (au_pw s')) = po_handlers (po_object (au_pw s))"
    "po_username (po_object (au_pw s')) = po_username (po_object (au_pw s))"
    "set (fo_events (au_fp s)) \<subseteq> set (fo_events (au_fp s'))"
    "set (po_events (au_pw s)) \<subseteq> set (po_events (au_pw s'))"
  using au_step_fp [OF assms(2)] au_step_pw [OF assms(2)] au_pw_inv [OF assms(1)]
  by (elim disjE exE; simp add: fo_step_keeps po_step_keeps pw_inv_def)+

definition au_claims :: "authenticator \<Rightarrow> bool" where
  "au_claims s \<longleftrightarrow> fo_handlers (fo_object (au_fp s)) = fp_lambdas \<and> po_handlers (po_object (au_pw s)) = pw_lambdas \<and>
     (au_fp_handler s = H_cas \<longrightarrow> Fp_call Fp_on_finish \<in> set (fo_events (au_fp s))) \<and>
     (au_pw_handler s = H_cas \<longrightarrow> Pw_call Pw_on_finish \<in> set (po_events (au_pw s)))"

lemma scan_reports_match:
  assumes "fo_step (Fo_worker r msg) m = Some m'" and "scan_calls (fo_worker m) = H_cas"
    and "fo_threads_ok m" and "fo_handlers (fo_object m) = fp_lambdas"
  shows "Fp_call Fp_on_finish \<in> set (fo_events m')"
proof -
  obtain d where w: "fo_worker m = G_result ''verify-match'' d"
    using assms(2) by (cases "fo_worker m") (auto split: if_splits)
  moreover have "fo_alive m" using assms(3) w by (auto simp: fo_threads_ok_def)
  ultimately show ?thesis
    using assms(1,4) by (auto simp: fo_step_def signal_report_def fp_lambdas_def split: if_splits)
qed

lemma run_reports_finish:
  assumes "po_step (Po_worker pid) m = Some m'" and "run_calls (po_worker m) = H_cas"
    and "pw_threads_ok (as_module m)" and "po_handlers (po_object m) = pw_lambdas"
  shows "Pw_call Pw_on_finish \<in> set (po_events m')"
proof -
  have w: "po_worker m = R_finish" using assms(2) by (cases "po_worker m") auto
  moreover have "po_alive m" using assms(3) w by (auto simp: pw_threads_ok_def)
  ultimately show ?thesis
    using assms(1,4) by (auto simp: po_step_def pw_lambdas_def split: if_splits)
qed

lemma au_claims_step:
  assumes "reach au_initial au_step s" and "au_claims s" and "au_step l s = Some s'"
  shows "au_claims s'"
proof -
  have inv: "fo_threads_ok (au_fp s)" "pw_threads_ok (as_module (au_pw s))"
    using au_fp_inv [OF assms(1)] au_pw_inv [OF assms(1)] by (auto simp: fo_inv_def pw_inv_def)
  have set_: "fo_handlers (fo_object (au_fp s)) = fp_lambdas" "po_handlers (po_object (au_pw s)) = pw_lambdas"
    using assms(2) by (auto simp: au_claims_def)
  have "(au_fp_handler s' = H_cas \<longrightarrow> au_fp_handler s = H_cas \<or> Fp_call Fp_on_finish \<in> set (fo_events (au_fp s'))) \<and>
    (au_pw_handler s' = H_cas \<longrightarrow> au_pw_handler s = H_cas \<or> Pw_call Pw_on_finish \<in> set (po_events (au_pw s')))"
    using assms(3)
    by - (erule au_step_cases; (erule au_step_elims)?;
      clarsimp simp: au_moves scan_reports_match [OF _ _ inv(1) set_(1)] run_reports_finish [OF _ _ inv(2) set_(2)]
        split: if_splits option.splits prod.splits)
  with assms(2) au_step_keeps [OF assms(1,3)] show ?thesis unfolding au_claims_def by auto
qed

interpretation reasons: machine_invariant au_initial au_step au_claims
proof
  show "au_initial s \<Longrightarrow> au_claims s" for s by (simp add: au_claims_def au_initial_parts)
qed (rule au_claims_step)

subsection \<open>The gate\<close>

definition scan_matched :: "fingerprint_machine \<Rightarrow> bool" where
  "scan_matched m \<longleftrightarrow> (\<exists>finished. Fp_status ''verify-match'' finished \<in> set (fo_events m))"

definition au_proof :: "authenticator \<Rightarrow> bool" where
  "au_proof s \<longleftrightarrow> password_accepted (as_module (au_pw s)) \<or> scan_matched (au_fp s) \<or>
     wait_interrupted (as_module (au_pw s))"

text \<open>The program has decided once it has read its result.\<close>

fun au_result :: "auth_pc \<Rightarrow> int option" where
  "au_result (A_destroy_pw r) = Some r"
| "au_result (A_destroying_pw r) = Some r"
| "au_result (A_destroy_fp r) = Some r"
| "au_result (A_destroying_fp r) = Some r"
| "au_result (A_exit r) = Some r"
| "au_result _ = None"

definition au_gate :: "authenticator \<Rightarrow> gate" where
  "au_gate s = \<lparr>gate_proof = au_proof s, gate_open = au_authenticated s, gate_result = au_result (au_main s)\<rparr>"

lemma scan_finish_proof: "fo_inv m \<Longrightarrow> Fp_call Fp_on_finish \<in> set (fo_events m) \<Longrightarrow> scan_matched m"
proof -
  assume "fo_inv m" and fin: "Fp_call Fp_on_finish \<in> set (fo_events m)"
  then have "fp_backed (fo_events m)" by (simp add: fo_inv_def fo_evidence_def)
  moreover have "\<exists>d. Fp_status ''verify-match'' d \<in> set es" if "fp_backed es" "Fp_call Fp_on_finish \<in> set es" for es
    using that by (induction es) auto
  ultimately show ?thesis using fin unfolding scan_matched_def by blast
qed

lemma au_proof_mono:
  assumes "reach au_initial au_step s" and "au_step l s = Some s'" and "au_proof s"
  shows "au_proof s'"
  using assms(3) au_step_keeps(3-5) [OF assms(1,2)]
  unfolding au_proof_def password_accepted_def scan_matched_def wait_interrupted_def
  by (auto; blast)

lemma au_step_gate:
  assumes "au_step l s = Some s'"
  shows "au_authenticated s' = au_authenticated s \<and> au_result (au_main s') = au_result (au_main s) \<or>
    (au_fp_handler s = H_cas \<or> au_pw_handler s = H_cas) \<and> au_authenticated s' \<and>
      au_result (au_main s') = au_result (au_main s) \<or>
    au_authenticated s' = au_authenticated s \<and> au_result (au_main s) = None \<and>
      au_result (au_main s') = Some (if au_authenticated s then 0 else 1) \<and> au_fp s' = au_fp s \<and> au_pw s' = au_pw s"
  using assms
  by - (erule au_step_cases; (erule au_step_elims)?;
      clarsimp simp: au_moves split: if_splits option.splits prod.splits)

lemma au_gate_view: "au_gate = gate_view au_proof au_authenticated (\<lambda>s. au_result (au_main s))"
  by (simp add: fun_eq_iff au_gate_def gate_view_def)

interpretation au_gate_part: front_end au_initial au_step au_proof au_authenticated "\<lambda>s. au_result (au_main s)"
proof
  fix l s s' assume r: "reach au_initial au_step s" and st: "au_step l s = Some s'"
  show "au_proof s \<Longrightarrow> au_proof s'" by (rule au_proof_mono [OF r st])
  have "au_proof s" if "au_fp_handler s = H_cas \<or> au_pw_handler s = H_cas"
    using that reasons.holds [OF r] scan_finish_proof [OF au_fp_inv [OF r]] pw_finish_proof [OF au_pw_inv [OF r]]
    by (auto simp: au_claims_def au_proof_def)
  then show "au_authenticated s' = au_authenticated s \<and> au_result (au_main s') = au_result (au_main s) \<or>
      au_proof s \<and> au_authenticated s' \<and> au_result (au_main s') = au_result (au_main s) \<or>
      au_authenticated s' = au_authenticated s \<and> au_proof s' = au_proof s \<and> au_result (au_main s) = None \<and>
        au_result (au_main s') = Some (if au_authenticated s then 0 else 1)"
    using au_step_gate [OF st] by (auto simp: au_proof_def)
qed (simp add: au_initial_parts)

subsection \<open>The scanner outlives its users\<close>

fun fo_destructing :: "starter_pc \<Rightarrow> bool" where
  "fo_destructing M_stop = True"
| "fo_destructing M_stop_join = True"
| "fo_destructing M_release = True"
| "fo_destructing M_destroyed = True"
| "fo_destructing _ = False"

fun past_pw :: "auth_pc \<Rightarrow> bool" where
  "past_pw (A_destroy_fp _) = True"
| "past_pw (A_destroying_fp _) = True"
| "past_pw (A_exit _) = True"
| "past_pw _ = False"

text \<open>Who is inside the scanner's \<open>stop\<close>: the main thread, or a worker in its handler.\<close>

definition au_stops_ok :: "authenticator \<Rightarrow> bool" where
  "au_stops_ok s \<longleftrightarrow>
     (fo_stops (au_fp s) 0 \<noteq> FS_idle \<longrightarrow> fo_owner (au_fp s) = M_stop \<or> au_main s = A_stopping_fp) \<and>
     (fo_stops (au_fp s) 1 \<noteq> FS_idle \<longrightarrow> au_pw_handler s = H_first) \<and>
     (fo_stops (au_fp s) 2 \<noteq> FS_idle \<longrightarrow> au_fp_handler s = H_second) \<and>
     (\<forall>t. 2 < t \<longrightarrow> fo_stops (au_fp s) t = FS_idle) \<and>
     (au_fp_handler s \<noteq> H_none \<longrightarrow> fo_worker (au_fp s) \<noteq> G_none \<and> fo_worker (au_fp s) \<noteq> G_returned) \<and>
     (au_pw_handler s \<noteq> H_none \<longrightarrow> po_worker (au_pw s) \<noteq> R_none \<and> po_worker (au_pw s) \<noteq> R_done) \<and>
     (past_pw (au_main s) \<longrightarrow> po_owner (au_pw s) = N_destroyed) \<and>
     (fo_destructing (fo_owner (au_fp s)) \<longrightarrow> past_pw (au_main s)) \<and>
     \<not> fo_fault (au_fp s)"

lemma fo_worker_frame:
  assumes "fo_step (Fo_worker r msg) m = Some m'" and "fo_threads_ok m"
  shows "fo_stops m' = fo_stops m \<and> fo_owner m' = fo_owner m \<and> \<not> fo_fault m' \<and>
    (scan_calls (fo_worker m) \<noteq> H_none \<longrightarrow> fo_worker m' \<noteq> G_none \<and> fo_worker m' \<noteq> G_returned)"
proof -
  have "scan_at (fo_worker m) r msg m = Some m'" "\<not> fo_fault m"
    using assms by (auto simp: fo_step_def fo_threads_ok_def split: if_splits)
  then show ?thesis
    by - (erule scan_at.elims; clarsimp simp: Let_def split: if_splits option.splits)
qed

lemma fo_other_frame:
  "fo_step Fo_start m = Some m' \<Longrightarrow>
     fo_stops m' = fo_stops m \<and> \<not> fo_destructing (fo_owner m') \<and> fo_owner m = M_idle \<and>
     fo_fault m' = fo_fault m \<and> fo_worker m' = fo_worker m"
  "fo_step (Fo_stop t) m = Some m' \<Longrightarrow> fo_stops m t = FS_idle \<and>
     fo_stops m' = (fo_stops m)(t := FS_cas) \<and> fo_owner m' = fo_owner m \<and> fo_fault m' = fo_fault m \<and>
     fo_worker m' = fo_worker m"
  "fo_step Fo_destruct m = Some m' \<Longrightarrow>
     fo_stops m' = (fo_stops m)(0 := FS_cas) \<and> fo_owner m' = M_stop \<and> fo_owner m = M_idle \<and>
     fo_stops m 0 = FS_idle \<and> fo_fault m' = fo_fault m \<and> fo_worker m' = fo_worker m"
  by (auto simp: fo_step_def fo_calls split: if_splits)

lemma fo_owner_frame:
  assumes "fo_step (Fo_owner ok reads) m = Some m'"
  shows "fo_stops m' = fo_stops m \<and> fo_destructing (fo_owner m') = fo_destructing (fo_owner m) \<and>
    (fo_owner m = M_stop \<longrightarrow> fo_stops m 0 = FS_idle) \<and> fo_fault m' = fo_fault m \<and>
    (fo_worker m \<noteq> G_none \<and> fo_worker m \<noteq> G_returned \<and> fo_threads_ok m \<longrightarrow> fo_worker m' = fo_worker m)"
proof -
  have "fo_owner_at (fo_owner m) ok reads m = Some m'" using assms by (simp add: fo_step_def split: if_splits)
  then show ?thesis
    by - (erule fo_owner_at.elims; clarsimp simp: fo_join_def fo_threads_ok_def split: if_splits)
qed

lemma fo_stopper_frame:
  assumes "fo_step (Fo_stopper t ok) m = Some m'" and "fo_alive m"
  shows "(\<exists>x. fo_stops m' = (fo_stops m)(t := x)) \<and> fo_owner m' = fo_owner m \<and> fo_fault m' = fo_fault m \<and>
    fo_worker m' = fo_worker m"
proof -
  have "fo_stop_at (fo_stops m t) t ok m = Some m'" using assms by (simp add: fo_step_def split: if_splits)
  then show ?thesis
    by - (erule fo_stop_at.elims; clarsimp split: if_splits; blast)
qed

lemma po_worker_frame:
  assumes "po_step (Po_worker pid) m = Some m'" and "pw_threads_ok (as_module m)"
  shows "po_owner m' = po_owner m \<and>
    (run_calls (po_worker m) \<noteq> H_none \<longrightarrow> po_worker m' \<noteq> R_none \<and> po_worker m' \<noteq> R_done)"
proof -
  have "run_worker_at (po_worker m) pid m = Some m'"
    using assms by (auto simp: po_step_def pw_threads_ok_def split: if_splits)
  then show ?thesis
    by - (erule run_worker_at.elims; clarsimp simp: Let_def split: if_splits pam_child.splits)
qed

fun is_po_worker :: "po_label \<Rightarrow> bool" where
  "is_po_worker (Po_worker _) = True"
| "is_po_worker Po_interrupt = True"
| "is_po_worker _ = False"

lemma po_frame:
  "po_step l m = Some m' \<Longrightarrow>
     (po_owner m = N_destroyed \<longrightarrow> po_owner m' = N_destroyed) \<and>
     (\<not> is_po_worker l \<and> pw_threads_ok (as_module m) \<and> po_worker m \<noteq> R_none \<and> po_worker m \<noteq> R_done \<longrightarrow>
        po_worker m' = po_worker m) \<and>
     (l = Po_interrupt \<longrightarrow> po_worker m' \<noteq> R_none \<and> po_worker m' \<noteq> R_done)"
  by (erule po_step_cases; (erule po_step_elims)?;
      clarsimp simp: po_step_simps pw_threads_ok_def split: if_splits pam_child.splits)

lemma au_stops_alive:
  assumes "au_stops_ok s" and fp: "fo_threads_ok (au_fp s)" and pw: "pw_threads_ok (as_module (au_pw s))"
    and t: "fo_stops (au_fp s) t \<noteq> FS_idle"
  shows "fo_alive (au_fp s)"
proof (rule ccontr)
  assume "\<not> fo_alive (au_fp s)"
  with fp have d: "fo_owner (au_fp s) = M_destroyed" and w: "fo_worker (au_fp s) = G_none"
    by (auto simp: fo_threads_ok_def)
  with assms(1) have past: "past_pw (au_main s)" and "po_owner (au_pw s) = N_destroyed"
    by (auto simp: au_stops_ok_def)
  with pw have p: "po_worker (au_pw s) = R_none" by (simp add: pw_threads_ok_def)
  have "t \<le> 2" using t assms(1) unfolding au_stops_ok_def by (meson not_le)
  then have "t = 0 \<or> t = 1 \<or> t = 2" by auto
  then show False using t assms(1) d w p past by (auto simp: au_stops_ok_def)
qed

lemma au_stops_ok_step:
  assumes r: "reach au_initial au_step s" and ok: "au_stops_ok s" and st: "au_step l s = Some s'"
  shows "au_stops_ok s'"
proof -
  have fp: "fo_threads_ok (au_fp s)" and pw: "pw_threads_ok (as_module (au_pw s))"
    using au_fp_inv [OF r] au_pw_inv [OF r] by (auto simp: fo_inv_def pw_inv_def)
  have stopper: "fo_step (Fo_stopper t ok) (au_fp s) = Some m \<Longrightarrow>
    (\<exists>x. fo_stops m = (fo_stops (au_fp s))(t := x)) \<and> fo_owner m = fo_owner (au_fp s) \<and>
      fo_fault m = fo_fault (au_fp s) \<and> fo_worker m = fo_worker (au_fp s)" for t ok m
    using fo_stopper_frame [of t ok "au_fp s" m] au_stops_alive [OF ok fp pw, of t]
    by (cases "fo_stops (au_fp s) t = FS_idle") (simp_all add: fo_step_def split: if_splits)
  note frames = fo_worker_frame [where m = "au_fp s", OF _ fp] fo_other_frame [where m = "au_fp s"]
    fo_owner_frame [where m = "au_fp s"] stopper
    po_worker_frame [where m = "au_pw s", OF _ pw] po_frame [where m = "au_pw s"]
  show ?thesis
    using st ok fp pw
    apply -
    apply (erule au_step_cases; (erule au_step_elims)?;
      clarsimp simp: au_moves au_stops_ok_def split: if_splits option.splits prod.splits;
      (frule frames; (frule frames)?; clarsimp; fail)?)
    done
qed

interpretation lifetimes: machine_invariant au_initial au_step au_stops_ok
proof
  show "au_initial s \<Longrightarrow> au_stops_ok s" for s
    using fo_initial_fields [OF au_initial_parts(1), of s]
    by (simp add: au_stops_ok_def au_initial_parts)
qed (rule au_stops_ok_step)

subsection \<open>The line and the terminal\<close>

lemma code_inject: "code c = code d \<longleftrightarrow> c = d"
  by (simp add: code_def)

lemma code_keys: "code c = 10 \<longleftrightarrow> c = CHR 0x0A" "code c = 13 \<longleftrightarrow> c = CHR 0x0D" "code c = 8 \<longleftrightarrow> c = CHR 0x08"
  using code_inject [of c "CHR 0x0A"] code_inject [of c "CHR 0x0D"] code_inject [of c "CHR 0x08"]
  by (simp_all add: code_def)

lemma read_char_edits: "read_char = edit_line"
  by (intro ext) (simp add: read_char_def edit_line_def code_keys MAX_PASS_SIZE_def MAX_PASS_LEN_def)

interpretation line: machine_invariant au_initial au_step "\<lambda>s. length (au_pass_buf s) < MAX_PASS_SIZE"
proof
  show "au_initial s \<Longrightarrow> length (au_pass_buf s) < MAX_PASS_SIZE" for s
    by (simp add: au_initial_parts MAX_PASS_SIZE_def)
  show "length (au_pass_buf s') < MAX_PASS_SIZE"
    if "length (au_pass_buf s) < MAX_PASS_SIZE" "au_step l s = Some s'" for l s s'
    using that(2,1)
    by - (erule au_step_cases; (erule au_step_elims)?;
      clarsimp simp: au_moves read_char_def MAX_PASS_SIZE_def less_imp_diff_less split: if_splits option.splits prod.splits)
qed

fun is_exit :: "auth_pc \<Rightarrow> bool" where
  "is_exit (A_exit r) = True"
| "is_exit _ = False"

interpretation terminal: raw_terminal "\<lambda>s. \<exists>a user. s = authenticator_setup a user device" au_step
  au_console "\<lambda>s. is_exit (au_main s)" device for device
proof
  show "au_console s = started_console device \<and> \<not> is_exit (au_main s)"
    if "\<exists>a user. s = authenticator_setup a user device" for s
    using that by (auto simp: authenticator_setup_def Let_def)
  show "au_console s' = au_console s \<and> is_exit (au_main s') = is_exit (au_main s) \<or>
      au_console s' = restore_tty (au_console s) \<and> \<not> is_exit (au_main s) \<and> is_exit (au_main s')"
    if "au_step l s = Some s'" for l s s'
    using that
    by - (erule au_step_cases; (erule au_step_elims)?;
      clarsimp simp: au_moves split: if_splits option.splits prod.splits)
qed

subsection \<open>Example runs\<close>

definition au_sample :: "device_answers \<Rightarrow> authenticator" where
  "au_sample a = authenticator_setup a (Some (Some ''kiri'')) (Some a_terminal)"

lemma au_sample_initial: "au_initial (au_sample a)"
  unfolding au_initial_def au_sample_def by blast

lemma au_run_reach:
  "exec au_step ls (au_sample a) \<noteq> None \<Longrightarrow> reach au_initial au_step (the (exec au_step ls (au_sample a)))"
  using exec_from_init [of au_initial, OF au_sample_initial] by fastforce

definition go_main :: "nat \<Rightarrow> au_label list" where
  "go_main n = replicate n (Au_main None True 9)"

definition au_press :: "char \<Rightarrow> au_label list" where
  "au_press c = go_main 3 @ [Au_main (Some c) True 9] @ go_main 1"

definition au_typed :: "au_label list" where
  "au_typed = go_main 7 @ au_press (CHR ''s'') @ au_press (CHR 0x0A) @ go_main 4 @
     [Au_pw 0, Au_pw 42, Au_pw 0, Au_pw 0]"

definition au_granted :: "au_label list" where
  "au_granted = replicate 8 (Au_pw_handler True) @ replicate 5 (Au_pw 0) @ replicate 2 (Au_fp 0 None) @ go_main 23"

text \<open>The password is accepted.\<close>

definition au_good_run :: "au_label list" where
  "au_good_run = au_typed @ [Au_child 42 0 0 0] @ replicate 4 (Au_pw 0) @ au_granted"

text \<open>A signal interrupts the wait for a child that never answers.\<close>

definition au_interrupted_run :: "au_label list" where
  "au_interrupted_run = au_typed @ [Au_pw_signal] @ replicate 3 (Au_pw 0) @ au_granted"

text \<open>A finger is recognised.\<close>

definition au_finger_run :: "au_label list" where
  "au_finger_run = go_main 7 @ replicate 7 (Au_fp 0 None) @
     [Au_fp 1 (Some (''verify-match'', True)), Au_fp 0 None, Au_fp_handler True]"

definition au_uaf_run :: "au_label list" where
  "au_uaf_run = au_finger_run @ go_main 18 @ [Au_fp_handler True]"

definition au_no_device_run :: "au_label list" where
  "au_no_device_run = go_main 7 @ replicate 3 (Au_fp 0 None) @ replicate 5 (Au_fp_handler True) @
     [Au_fp 0 None] @ go_main 26"

definition corrected_keys :: "char list" where
  "corrected_keys = ''sex'' @ [CHR 0x7F, CHR ''c'', CHR 0x0A]"

definition no_scanner :: device_answers where
  "no_scanner = a_device\<lparr>da_open := -2\<rparr>"

lemma au_good_checked:
  "case exec au_step au_good_run (au_sample a_device) of None \<Rightarrow> False
   | Some s \<Rightarrow> au_main s = A_exit 0 \<and> au_authenticated s \<and> Wait_interrupted \<notin> set (po_events (au_pw s)) \<and>
       po_username (po_object (au_pw s)) = ''kiri''"
  by code_simp

abbreviation au_good :: authenticator where
  "au_good \<equiv> the (exec au_step au_good_run (au_sample a_device))"

lemma au_good_facts:
  "exec au_step au_good_run (au_sample a_device) \<noteq> None" "reach au_initial au_step au_good"
  "au_main au_good = A_exit 0" "au_authenticated au_good" "Wait_interrupted \<notin> set (po_events (au_pw au_good))"
  "po_username (po_object (au_pw au_good)) = ''kiri''"
proof -
  show "exec au_step au_good_run (au_sample a_device) \<noteq> None" using au_good_checked by (auto split: option.splits)
  from au_run_reach [OF this] show "reach au_initial au_step au_good" .
  show "au_main au_good = A_exit 0" "au_authenticated au_good" "Wait_interrupted \<notin> set (po_events (au_pw au_good))"
    "po_username (po_object (au_pw au_good)) = ''kiri''"
    using au_good_checked by (auto split: option.splits)
qed

subsection \<open>The end of the program\<close>

fun past_input :: "auth_pc \<Rightarrow> bool" where
  "past_input A_start = False"
| "past_input A_starting = False"
| "past_input A_authenticated = False"
| "past_input A_interrupted = False"
| "past_input A_fp_running = False"
| "past_input A_pw_running = False"
| "past_input A_select = False"
| "past_input (A_key c) = False"
| "past_input A_verifying = False"
| "past_input A_clear = False"
| "past_input _ = True"

definition au_end_ok :: "authenticator \<Rightarrow> bool" where
  "au_end_ok s \<longleftrightarrow> (past_input (au_main s) \<longrightarrow> au_pass_buf s = []) \<and>
     (is_exit (au_main s) \<longrightarrow> fo_owner (au_fp s) = M_destroyed)"

lemma fo_destroyed_final: "fo_step l m = Some m' \<Longrightarrow> fo_owner m = M_destroyed \<Longrightarrow> fo_owner m' = M_destroyed"
  by (erule fo_step_cases; (erule fo_step_elims)?; clarsimp simp: fo_calls signal_report_def split: if_splits option.splits)

lemma au_end_ok_step: "au_end_ok s \<Longrightarrow> au_step l s = Some s' \<Longrightarrow> au_end_ok s'"
  by (erule au_step_cases; (erule au_step_elims)?;
      clarsimp simp: au_moves au_end_ok_def fo_destroyed_final split: if_splits option.splits prod.splits)

interpretation ending: machine_invariant au_initial au_step au_end_ok
proof
  show "au_initial s \<Longrightarrow> au_end_ok s" for s by (simp add: au_end_ok_def au_initial_parts)
qed (rule au_end_ok_step)

subsection \<open>Properties\<close>



text \<open>
  (C7) Access is granted only to who has proved to be the user: \<open>main\<close> returns 0 or 1, and if it
  returned 0 and no \<open>waitpid\<close> was interrupted, then PAM had accepted, for the user the program runs
  as, a password that was given for verification, or fprintd had reported a match.
\<close>

theorem authenticator_grants_proved:
  assumes "reach au_initial au_step s" and "au_main s = A_exit r"
  shows "(r = 0 \<or> r = 1) \<and>
    (r = 0 \<and> Wait_interrupted \<notin> set (po_events (au_pw s)) \<longrightarrow>
       (\<exists>password. Pam_accepted (Some (po_username (po_object (au_pw s)))) (Some password) \<in> set (po_events (au_pw s)) \<and>
          Verify_ok (Some password) \<in> set (po_events (au_pw s))) \<or>
       (\<exists>finished. Fp_status ''verify-match'' finished \<in> set (fo_events (au_fp s))))"
  using au_gate_part.returns_truth [OF assms(1), of r] assms(2)
  by (auto simp: au_proof_def password_accepted_def scan_matched_def wait_interrupted_def)

theorem authenticator_grants_proved_witness:
  "let s = the (exec au_step au_good_run (au_sample a_device))
   in au_main s = A_exit 0 \<and>
     (list_ex (\<lambda>e. case e of Pam_accepted u c \<Rightarrow> u = Some ''kiri'' | _ \<Rightarrow> False) (po_events (au_pw s)) \<or>
      list_ex (\<lambda>e. case e of Fp_status result finished \<Rightarrow> result = ''verify-match'' | _ \<Rightarrow> False) (fo_events (au_fp s)))"
  using authenticator_grants_proved [OF au_good_facts(2,3)] au_good_facts(3,5,6)
  unfolding Let_def list_ex_iff by fastforce

text \<open>
  (C9) The scanner object is never used after its destruction, by no thread and in no interleaving, and the
  line under edit never exceeds the 511 characters the buffer reserves.
\<close>

theorem authenticator_scanner_safe:
  assumes "reach au_initial au_step s"
  shows "\<not> fo_fault (au_fp s) \<and> length (au_pass_buf s) < MAX_PASS_SIZE"
  using lifetimes.holds [OF assms] line.holds [OF assms] by (simp add: au_stops_ok_def)

theorem authenticator_scanner_safe_witness:
  "\<not> fo_fault (au_fp (the (exec au_step au_good_run (au_sample a_device))))"
  using authenticator_scanner_safe [OF au_good_facts(2)] by simp



text \<open>
  (C27) The password is not echoed, and the terminal comes back: whatever happens, from the first key read
  until \<open>main\<close> has returned, the terminal neither echoes nor buffers lines, all other settings being
  untouched, and after that it has the settings it had before.
\<close>

theorem authenticator_restores_terminal:
  assumes "exec au_step ls (authenticator_setup a user (Some t)) = Some s"
  shows "terminal_ok t (is_exit (au_main s)) (tty (au_console s))"
  using terminal.terminal_follows [OF refl _ assms] by blast

theorem authenticator_restores_terminal_witness:
  "let s = the (exec au_step au_good_run (au_sample a_device))
   in au_main s = A_exit 0 \<and> tty (au_console s) = Some a_terminal"
proof -
  let ?s = "the (exec au_step au_good_run (au_sample a_device))"
  have "exec au_step au_good_run (authenticator_setup a_device (Some (Some ''kiri'')) (Some a_terminal)) = Some ?s"
    using au_good_facts(1) by (simp add: au_sample_def)
  note authenticator_restores_terminal [OF this]
  moreover have "au_main ?s = A_exit 0" by (rule au_good_facts(3))
  ultimately show ?thesis by (simp add: Let_def terminal_ok_def)
qed

text \<open>
  (C28) Both programs read the same lines: from the same line under edit on, the C program's array with its
  length and the C++ program's string hand the same passwords to verification, whatever bytes are
  read, and have the same line under edit afterwards.
\<close>

theorem programs_read_same_lines:
  assumes "input_ok inp" and "type_keys handle_key keys inp = (inp', lines)"
  shows "type_keys read_char keys (input_line inp) = (input_line inp', lines)"
  using handle_keys_edit [OF assms] by (simp add: read_char_edits)

theorem programs_read_same_lines_witness:
  "snd (type_keys read_char corrected_keys []) =
   snd (type_keys handle_key corrected_keys \<lparr>pass_buf = replicate 512 NUL, pass_len = 0\<rparr>)"
proof -
  let ?inp = "\<lparr>pass_buf = replicate 512 NUL, pass_len = 0\<rparr>"
  obtain inp' lines where run: "type_keys handle_key corrected_keys ?inp = (inp', lines)" by fastforce
  have "input_ok ?inp" and "input_line ?inp = []" by (simp_all add: input_ok_def input_line_def MAX_PASS_LEN_def)
  with programs_read_same_lines [OF _ run] show ?thesis by (simp add: run)
qed



text \<open>
  Without a fingerprint device the program denies access before a password can be typed, as the C
  program does.
\<close>

theorem authenticator_needs_scanner:
  "case exec au_step au_no_device_run (au_sample no_scanner) of None \<Rightarrow> False
   | Some s \<Rightarrow> au_main s = A_exit 1 \<and> \<not> au_interrupted s \<and> po_events (au_pw s) = [Pw_call Pw_on_delete]"
  by code_simp

end
