(* ===== verification/Coordinator_Shutdown.thy ===== *)
theory Coordinator_Shutdown
  imports Coordinator
begin

section \<open>The end of the C coordinator\<close>

text \<open>
  The C program deletes the scanner, then the password context, and then reads its result.  Main thread,
  two workers and their handlers stop and join each other in that time; this theory shows that they
  cannot wait for each other for ever.  An invariant says where the owner of each context is and who is
  inside a stop call; a rank, the sum of the ranks of all program counters, falls with every step once
  the scanner was stopped; and until \<open>main\<close> has returned some thread can move.

  A step of a worker may call a handler, and a step of a handler or of \<open>main\<close> may call stop or delete:
  the weights are chosen so that the caller's rank falls by more than the callee's is.
\<close>

subsection \<open>Who owns and who stops the contexts\<close>

fun fp_deleting :: "fp_owner_pc \<Rightarrow> bool" where
  "fp_deleting FD_stop = True"
| "fp_deleting FD_join = True"
| "fp_deleting FD_free = True"
| "fp_deleting FO_deleted = True"
| "fp_deleting _ = False"

fun fp_owner_ok :: "main_pc \<Rightarrow> fp_owner_pc \<Rightarrow> bool" where
  "fp_owner_ok M_starting pc = (\<not> fp_deleting pc)"
| "fp_owner_ok M_deleting_fp pc = fp_deleting pc"
| "fp_owner_ok M_delete_pw pc = (pc = FO_deleted)"
| "fp_owner_ok M_deleting_pw pc = (pc = FO_deleted)"
| "fp_owner_ok M_result pc = (pc = FO_deleted)"
| "fp_owner_ok (M_exit r) pc = (pc = FO_deleted)"
| "fp_owner_ok _ pc = (pc = FO_idle)"

fun pw_owner_ok :: "main_pc \<Rightarrow> pw_owner_pc \<Rightarrow> bool" where
  "pw_owner_ok M_verifying pc = (\<not> pw_deleting pc)"
| "pw_owner_ok M_deleting_pw pc = pw_deleting pc"
| "pw_owner_ok M_result pc = (pc = O_deleted)"
| "pw_owner_ok (M_exit r) pc = (pc = O_deleted)"
| "pw_owner_ok _ pc = (pc = O_idle)"

definition co_owners_ok :: "coordinator \<Rightarrow> bool" where
  "co_owners_ok s \<longleftrightarrow> fp_owner_ok (co_main s) (fm_owner (co_fp s)) \<and> pw_owner_ok (co_main s) (pm_owner (co_pw s)) \<and>
     (fm_stops (co_fp s) 0 \<noteq> FS_idle \<longrightarrow> fm_owner (co_fp s) = FD_stop) \<and>
     (fm_stops (co_fp s) 1 \<noteq> FS_idle \<longrightarrow> co_pw_handler s = H_first) \<and>
     (fm_stops (co_fp s) 2 \<noteq> FS_idle \<longrightarrow> co_fp_handler s = H_second) \<and>
     (\<forall>t. 2 < t \<longrightarrow> fm_stops (co_fp s) t = FS_idle) \<and> co_pw_handler s \<noteq> H_error \<and>
     (fp_deleting (fm_owner (co_fp s)) \<and> fm_stops (co_fp s) 0 \<noteq> FS_cas \<longrightarrow> \<not> fp_is_running (fm_ctx (co_fp s))) \<and>
     (pw_deleting (pm_owner (co_pw s)) \<and> pm_stops (co_pw s) 0 \<noteq> S_cas \<longrightarrow> \<not> pw_is_running (pm_ctx (co_pw s)))"

lemma fp_label_frames:
  "fp_step (Fp_worker r msg) m = Some m' \<Longrightarrow> fm_owner m' = fm_owner m \<and> fm_stops m' = fm_stops m \<and>
     fp_is_running (fm_ctx m') = fp_is_running (fm_ctx m)"
  "fp_step Fp_start m = Some m' \<Longrightarrow> \<not> fp_deleting (fm_owner m') \<and> fm_owner m = FO_idle \<and> fm_stops m' = fm_stops m \<and>
     fp_is_running (fm_ctx m') = fp_is_running (fm_ctx m)"
  "fp_step (Fp_owner ok) m = Some m' \<Longrightarrow> fp_deleting (fm_owner m') = fp_deleting (fm_owner m) \<and>
     fm_owner m \<noteq> FO_idle \<and> fm_stops m' = fm_stops m \<and> (fm_owner m = FD_stop \<longrightarrow> fm_stops m 0 = FS_idle) \<and>
     (fp_deleting (fm_owner m) \<longrightarrow> fp_is_running (fm_ctx m') = fp_is_running (fm_ctx m))"
  "fp_step Fp_delete m = Some m' \<Longrightarrow> fm_owner m' = FD_stop \<and> fm_owner m = FO_idle \<and> fm_stops m' = (fm_stops m)(0 := FS_cas) \<and>
     fp_is_running (fm_ctx m') = fp_is_running (fm_ctx m)"
  "fp_step (Fp_stop t) m = Some m' \<Longrightarrow> fm_owner m' = fm_owner m \<and> fm_stops m' = (fm_stops m)(t := FS_cas) \<and>
     fp_is_running (fm_ctx m') = fp_is_running (fm_ctx m)"
  "fp_step (Fp_stopper t ok) m = Some m' \<Longrightarrow> fm_owner m' = fm_owner m \<and> (\<forall>u. u \<noteq> t \<longrightarrow> fm_stops m' u = fm_stops m u) \<and>
     (fp_is_running (fm_ctx m') \<longrightarrow>
        fp_is_running (fm_ctx m) \<and> (fm_stops m t = FS_cas \<longrightarrow> fm_stops m' t = FS_cas))"
  unfolding fp_step_def
  by (clarsimp split: if_splits; (erule fp_step_elims)?; clarsimp simp: fp_calls split: if_splits option.splits)+

lemma pw_label_frames:
  "pw_step (Pw_worker pid) m = Some m' \<Longrightarrow> pm_owner m' = pm_owner m \<and> pm_stops m' = pm_stops m \<and>
     (pw_is_running (pm_ctx m') \<longrightarrow> pw_is_running (pm_ctx m))"
  "pw_step (Pw_interrupt st) m = Some m' \<Longrightarrow> pm_owner m' = pm_owner m \<and> pm_stops m' = pm_stops m \<and>
     pw_is_running (pm_ctx m') = pw_is_running (pm_ctx m)"
  "pw_step (Pw_child pid r1 r2 r3) m = Some m' \<Longrightarrow> pm_owner m' = pm_owner m \<and> pm_stops m' = pm_stops m \<and>
     pw_is_running (pm_ctx m') = pw_is_running (pm_ctx m)"
  "pw_step (Pw_verify pass) m = Some m' \<Longrightarrow> \<not> pw_deleting (pm_owner m') \<and> pm_owner m = O_idle \<and> pm_stops m' = pm_stops m"
  "pw_step (Pw_owner ok) m = Some m' \<Longrightarrow> pw_deleting (pm_owner m') = pw_deleting (pm_owner m) \<and>
     pm_owner m \<noteq> O_idle \<and> pm_stops m' = pm_stops m \<and> (pw_is_running (pm_ctx m') \<longrightarrow> pw_is_running (pm_ctx m))"
  "pw_step Pw_delete m = Some m' \<Longrightarrow> pm_owner m' = D_stop \<and> pm_owner m = O_idle \<and> pm_stops m' = (pm_stops m)(0 := S_cas) \<and>
     pw_is_running (pm_ctx m') = pw_is_running (pm_ctx m)"
  "pw_step (Pw_stop t) m = Some m' \<Longrightarrow> pm_owner m' = pm_owner m \<and> pm_stops m' = (pm_stops m)(t := S_cas) \<and>
     pw_is_running (pm_ctx m') = pw_is_running (pm_ctx m)"
  "pw_step (Pw_stopper t) m = Some m' \<Longrightarrow> pm_owner m' = pm_owner m \<and> (\<forall>u. u \<noteq> t \<longrightarrow> pm_stops m' u = pm_stops m u) \<and>
     (pw_is_running (pm_ctx m') \<longrightarrow>
        pw_is_running (pm_ctx m) \<and> (pm_stops m t = S_cas \<longrightarrow> pm_stops m' t = S_cas))"
  unfolding pw_step_def
  by (clarsimp split: if_splits; (erule pw_step_elims)?; clarsimp simp: pw_step_simps split: if_splits pam_child.splits)+

lemmas co_label_frames = fp_label_frames pw_label_frames

lemma pw_calls_no_error: "pw_calls_handler pc \<noteq> H_error"
  by (cases pc) simp_all

lemma co_owners_ok_step:
  assumes "co_owners_ok s" and "co_stops_ok s" and "co_step l s = Some s'"
  shows "co_owners_ok s'"
  using assms(3,1,2)
  by - (erule co_step_cases; (erule co_step_elims)?;
    clarsimp simp: co_moves co_owners_ok_def co_stops_ok_def pw_calls_no_error
      split: if_splits option.splits prod.splits;
    (frule co_label_frames; (frule co_label_frames)?; clarsimp simp: pw_calls_no_error; fail)?)


interpretation co_owners: machine_invariant co_initial co_step co_owners_ok
proof
  show "co_owners_ok s" if "co_initial s" for s
    using co_initial_parts [OF that] fp_initial_fields pw_initial_fields
    by (simp add: co_owners_ok_def)
  show "co_owners_ok s'" if "reach co_initial co_step s" "co_owners_ok s" "co_step l s = Some s'" for l s s'
    using co_owners_ok_step [OF that(2) stops.holds [OF that(1)] that(3)] .
qed

subsection \<open>The ranks of the contexts\<close>

fun fp_stop_rank :: "fp_stop_pc \<Rightarrow> nat" where
  "fp_stop_rank FS_cas = 5"
| "fp_stop_rank FS_write = 4"
| "fp_stop_rank FS_cas_check = 3"
| "fp_stop_rank FS_end = 2"
| "fp_stop_rank FS_stop = 1"
| "fp_stop_rank FS_idle = 0"

fun fp_delete_rank :: "fp_owner_pc \<Rightarrow> nat" where
  "fp_delete_rank FD_stop = 3"
| "fp_delete_rank FD_join = 2"
| "fp_delete_rank FD_free = 1"
| "fp_delete_rank _ = 0"

definition fp_total :: "fp_machine \<Rightarrow> nat" where
  "fp_total m = 14 * fp_rank (fm_worker m) + fp_delete_rank (fm_owner m) +
     fp_stop_rank (fm_stops m 0) + fp_stop_rank (fm_stops m 1) + fp_stop_rank (fm_stops m 2)"

definition fp_closing :: "fp_machine \<Rightarrow> bool" where
  "fp_closing m \<longleftrightarrow> \<not> fp_is_running (fm_ctx m) \<and> fp_deleting (fm_owner m)"

fun fp_takes :: "fp_label \<Rightarrow> nat" where
  "fp_takes (Fp_stop t) = 5"
| "fp_takes _ = 0"

fun fp_gives :: "fp_label \<Rightarrow> nat" where
  "fp_gives (Fp_worker r msg) = 14"
| "fp_gives (Fp_owner ok) = 1"
| "fp_gives (Fp_stopper t ok) = 1"
| "fp_gives _ = 0"

fun fp_by_program :: "fp_label \<Rightarrow> bool" where
  "fp_by_program (Fp_stop t) = (t \<le> 2)"
| "fp_by_program (Fp_stopper t ok) = (t \<le> 2)"
| "fp_by_program _ = True"

lemma le_two: "(t::nat) \<le> 2 \<longleftrightarrow> t = 0 \<or> t = 1 \<or> t = 2" by auto

lemma fp_total_step:
  assumes "fp_step l m = Some m'" and "fp_threads_ok m" and "fp_closing m" and "fp_by_program l" and "\<not> fm_fault m'"
  shows "fp_closing m' \<and> fp_total m' + fp_gives l \<le> fp_total m + fp_takes l"
  using assms
  by - (erule fp_step_cases; (erule fp_step_elims)?;
    clarsimp simp: fp_threads_ok_def fp_closing_def fp_total_def fp_calls le_two split: if_splits option.splits;
    (elim disjE)?; clarsimp)

fun pw_stop_rank :: "pw_stop_pc \<Rightarrow> nat" where
  "pw_stop_rank S_cas = 3"
| "pw_stop_rank S_exchange = 2"
| "pw_stop_rank (S_kill pid) = 1"
| "pw_stop_rank S_idle = 0"

fun pw_delete_rank :: "pw_owner_pc \<Rightarrow> nat" where
  "pw_delete_rank D_stop = 3"
| "pw_delete_rank D_join = 2"
| "pw_delete_rank D_free = 1"
| "pw_delete_rank _ = 0"

definition pw_total :: "pw_machine \<Rightarrow> nat" where
  "pw_total m = 14 * pw_rank (pm_worker m) + pw_delete_rank (pm_owner m) +
     pw_stop_rank (pm_stops m 0) + pw_stop_rank (pm_stops m 1) + pw_stop_rank (pm_stops m 2)"

definition pw_closing :: "pw_machine \<Rightarrow> bool" where
  "pw_closing m \<longleftrightarrow> pm_owner m = O_idle \<or> pw_deleting (pm_owner m)"

fun pw_takes :: "pw_label \<Rightarrow> nat" where
  "pw_takes (Pw_stop t) = 3"
| "pw_takes Pw_delete = 6"
| "pw_takes _ = 0"

fun pw_gives :: "pw_label \<Rightarrow> nat" where
  "pw_gives (Pw_worker pid) = 14"
| "pw_gives (Pw_interrupt st) = 14"
| "pw_gives (Pw_owner ok) = 1"
| "pw_gives (Pw_stopper t) = 1"
| "pw_gives _ = 0"

fun pw_by_program :: "pw_label \<Rightarrow> bool" where
  "pw_by_program (Pw_verify pass) = False"
| "pw_by_program (Pw_stop t) = (t \<le> 2)"
| "pw_by_program (Pw_stopper t) = (t \<le> 2)"
| "pw_by_program _ = True"

lemma pw_total_step:
  assumes "pw_step l m = Some m'" and "pw_threads_ok m" and "pw_closing m" and "pw_by_program l" and "\<not> pm_fault m'"
  shows "pw_closing m' \<and> pw_total m' + pw_gives l \<le> pw_total m + pw_takes l"
  using assms
  by - (erule pw_step_cases; (erule pw_step_elims)?;
    clarsimp simp: pw_threads_ok_def pw_closing_def pw_total_def pw_step_simps le_two split: if_splits pam_child.splits;
    (elim disjE)?; clarsimp)

subsection \<open>The rank of the program\<close>

fun handler_rank :: "handler_pc \<Rightarrow> nat" where
  "handler_rank H_cas = 13"
| "handler_rank H_first = 7"
| "handler_rank H_error = 7"
| "handler_rank H_second = 1"
| "handler_rank H_none = 0"

fun co_main_rank :: "main_pc \<Rightarrow> nat" where
  "co_main_rank M_deleting_fp = 10"
| "co_main_rank M_delete_pw = 9"
| "co_main_rank M_deleting_pw = 2"
| "co_main_rank M_result = 1"
| "co_main_rank _ = 0"

fun co_past_input :: "main_pc \<Rightarrow> bool" where
  "co_past_input M_deleting_fp = True"
| "co_past_input M_delete_pw = True"
| "co_past_input M_deleting_pw = True"
| "co_past_input M_result = True"
| "co_past_input (M_exit r) = True"
| "co_past_input _ = False"

definition co_closing :: "coordinator \<Rightarrow> bool" where
  "co_closing s \<longleftrightarrow> co_past_input (co_main s) \<and> \<not> fp_is_running (fm_ctx (co_fp s))"

definition co_rank :: "coordinator \<Rightarrow> nat" where
  "co_rank s = fp_total (co_fp s) + pw_total (co_pw s) + handler_rank (co_fp_handler s) +
     handler_rank (co_pw_handler s) + co_main_rank (co_main s)"

fun is_co_program_step :: "co_label \<Rightarrow> bool" where
  "is_co_program_step Co_signal = False"
| "is_co_program_step (Co_child pid start authenticate acct_mgmt) = False"
| "is_co_program_step _ = True"

lemma co_calls_rank: "handler_rank (fp_calls_handler pc) \<le> 13" "handler_rank (pw_calls_handler pc') \<le> 13"
  by (cases pc; simp) (cases pc'; simp)

lemma past_input_owners:
  assumes "co_past_input pc"
  shows "fp_owner_ok pc x \<Longrightarrow> fp_deleting x" "pw_owner_ok pc y \<Longrightarrow> y = O_idle \<or> pw_deleting y"
  using assms by (cases pc; auto)+

lemma co_closing_parts:
  assumes "co_owners_ok s" and "co_closing s"
  shows "fp_closing (co_fp s)" "pw_closing (co_pw s)"
  using assms past_input_owners [of "co_main s"]
  unfolding co_owners_ok_def co_closing_def fp_closing_def pw_closing_def by metis+

lemmas fp_total_frames = fp_total_step [of "Fp_worker r msg" for r msg, simplified] fp_total_step [of "Fp_owner ok" for ok, simplified]
  fp_total_step [of "Fp_stop t" for t, simplified] fp_total_step [of "Fp_stopper t ok" for t ok, simplified]
lemmas pw_total_frames = pw_total_step [of "Pw_worker pid" for pid, simplified] pw_total_step [of "Pw_interrupt st" for st, simplified]
  pw_total_step [of "Pw_owner ok" for ok, simplified] pw_total_step [of Pw_delete, simplified]
  pw_total_step [of "Pw_child pid r1 r2 r3" for pid r1 r2 r3, simplified]
  pw_total_step [of "Pw_stop t" for t, simplified] pw_total_step [of "Pw_stopper t" for t, simplified]

lemma co_rank_step:
  assumes r: "reach co_initial co_step s" and cl: "co_closing s" and st: "co_step l s = Some s'"
    and sound: "\<not> fm_fault (co_fp s')"
  shows "co_closing s' \<and> (if is_co_program_step l then Suc (co_rank s') else co_rank s') \<le> co_rank s"
proof -
  have fp: "fp_threads_ok (co_fp s)" and pw: "pw_threads_ok (co_pw s)"
    using co_fp_inv [OF r] co_pw_inv [OF r] by (auto simp: fp_inv_def pw_inv_def)
  note closed = co_closing_parts [OF co_owners.holds [OF r] cl]
  have "\<not> pm_fault (co_pw s')"
    using stops.holds [OF reach.moves [OF r st]] by (simp add: co_stops_ok_def)
  note ranks = fp_total_frames [OF _ fp closed(1)] pw_total_frames [OF _ pw closed(2)]
  show ?thesis
    using st cl sound \<open>\<not> pm_fault (co_pw s')\<close> co_calls_rank(1) [of "fm_worker (co_fp s)"] co_calls_rank(2) [of "pm_worker (co_pw s)"]
    by - (erule co_step_cases; (erule co_step_elims)?;
      clarsimp simp: co_moves co_rank_def co_closing_def split: if_splits option.splits prod.splits;
      (frule ranks; simp add: fp_closing_def; fail)?)
qed


subsection \<open>Nobody waits for ever\<close>

lemma fp_stop_moves:
  "\<not> fm_fault f \<Longrightarrow> (\<exists>f'. fp_step (Fp_stop t) f = Some f') \<longleftrightarrow> fm_stops f t = FS_idle"
  "\<not> fm_fault f \<Longrightarrow> (\<exists>f'. fp_step (Fp_stopper t ok) f = Some f') \<longleftrightarrow> fm_stops f t \<noteq> FS_idle"
  by (cases "fm_stops f t"; simp add: fp_step_def kl_fingerprint_stop_def)+

lemma pw_stop_moves:
  "\<not> pm_fault p \<Longrightarrow> (\<exists>p'. pw_step (Pw_stop t) p = Some p') \<longleftrightarrow> pm_stops p t = S_idle"
  "\<not> pm_fault p \<Longrightarrow> (\<exists>p'. pw_step (Pw_stopper t) p = Some p') \<longleftrightarrow> pm_stops p t \<noteq> S_idle"
  by (cases "pm_stops p t"; simp add: pw_step_def kl_password_stop_def Let_def)+

lemma with_None: "with_fp l s = None \<longleftrightarrow> fp_step l (co_fp s) = None" "with_pw k s = None \<longleftrightarrow> pw_step k (co_pw s) = None"
  by (auto simp: with_fp_def with_pw_def split: option.splits)

lemma with_moves:
  "(\<exists>s'. with_fp l s = Some s') \<longleftrightarrow> (\<exists>f. fp_step l (co_fp s) = Some f)"
  "(\<exists>s'. with_pw k s = Some s') \<longleftrightarrow> (\<exists>p. pw_step k (co_pw s) = Some p)"
  by (auto simp: with_fp_def with_pw_def split: option.splits)

lemma co_handlers_move:
  assumes "co_stops_ok s" and "co_owners_ok s" and "\<not> fm_fault (co_fp s)"
  shows "co_fp_handler s \<noteq> H_none \<Longrightarrow> co_step (Co_fp_handler ok) s \<noteq> None"
    and "co_pw_handler s \<noteq> H_none \<Longrightarrow> co_step (Co_pw_handler ok) s \<noteq> None"
proof -
  have "\<not> pm_fault (co_pw s)" using assms(1) by (simp add: co_stops_ok_def)
  note moves = pw_stop_moves [OF this] fp_stop_moves [OF assms(3)] with_moves co_step_def
  have idle: "co_pw_handler s \<noteq> H_first \<Longrightarrow> fm_stops (co_fp s) 1 = FS_idle"
    "co_fp_handler s \<noteq> H_second \<Longrightarrow> fm_stops (co_fp s) 2 = FS_idle"
    "co_pw_handler s \<noteq> H_second \<Longrightarrow> pm_stops (co_pw s) 1 = S_idle"
    "co_fp_handler s \<noteq> H_first \<Longrightarrow> pm_stops (co_pw s) 2 = S_idle" "co_pw_handler s \<noteq> H_error"
    using assms(1,2) by (auto simp: co_stops_ok_def co_owners_ok_def)
  show "co_step (Co_fp_handler ok) s \<noteq> None" if "co_fp_handler s \<noteq> H_none"
    using that idle(2,4) by (cases "co_fp_handler s") (simp_all add: moves)
  show "co_step (Co_pw_handler ok) s \<noteq> None" if "co_pw_handler s \<noteq> H_none"
    using that idle(1,3,5) by (cases "co_pw_handler s") (simp_all add: moves)
qed

lemma co_workers_move:
  assumes r: "reach co_initial co_step s" and sound: "\<not> fm_fault (co_fp s)"
  shows "fm_worker (co_fp s) \<noteq> F_none \<Longrightarrow> fm_worker (co_fp s) \<noteq> F_done \<Longrightarrow>
      co_step (Co_fp 0 None) s \<noteq> None \<or> co_step (Co_fp_handler True) s \<noteq> None"
    and "pm_worker (co_pw s) \<noteq> W_none \<Longrightarrow> pm_worker (co_pw s) \<noteq> W_done \<Longrightarrow>
      \<not> pw_is_running (pm_ctx (co_pw s)) \<Longrightarrow> pm_stops (co_pw s) 0 = S_idle \<Longrightarrow>
      (\<exists>pid. co_step (Co_pw pid) s \<noteq> None) \<or> co_step (Co_pw_handler True) s \<noteq> None \<or> co_step (Co_fp_handler True) s \<noteq> None"
proof -
  note ok = stops.holds [OF r] co_owners.holds [OF r]
  note handlers = co_handlers_move [OF ok sound]
  show "co_step (Co_fp 0 None) s \<noteq> None \<or> co_step (Co_fp_handler True) s \<noteq> None"
    if "fm_worker (co_fp s) \<noteq> F_none" "fm_worker (co_fp s) \<noteq> F_done"
    using handlers(1) fp_worker_moves [OF _ that, of 0 None] co_fp_inv [OF r]
    by (cases "co_fp_handler s = H_none") (auto simp: fp_inv_def co_step_def fp_worker_moves_on_def with_moves)
  show "(\<exists>pid. co_step (Co_pw pid) s \<noteq> None) \<or> co_step (Co_pw_handler True) s \<noteq> None \<or> co_step (Co_fp_handler True) s \<noteq> None"
    if w: "pm_worker (co_pw s) \<noteq> W_none" "pm_worker (co_pw s) \<noteq> W_done"
      and stopped: "\<not> pw_is_running (pm_ctx (co_pw s))" and idle: "pm_stops (co_pw s) 0 = S_idle"
  proof (cases "co_pw_handler s = H_none \<and> co_fp_handler s = H_none")
    case True
    have "\<forall>t. pm_stops (co_pw s) t = S_idle"
    proof
      fix t :: nat
      consider "t = 0" | "t = 1" | "t = 2" | "2 < t" by linarith
      then show "pm_stops (co_pw s) t = S_idle"
        using ok(1) idle True by cases (auto simp: co_stops_ok_def)
    qed
    from pw_stopped_moves [OF co_pw_inv [OF r] stopped this w] True
    show ?thesis by (auto simp: co_step_def pw_worker_moves_on_def with_moves)
  qed (use handlers in blast)
qed

lemma co_owner_waits:
  "\<not> pm_fault p \<Longrightarrow> pw_deleting (pm_owner p) \<Longrightarrow> pm_owner p \<noteq> O_deleted \<Longrightarrow> pm_stops p 0 = S_idle \<Longrightarrow>
     pw_step (Pw_owner ok) p = None \<Longrightarrow> pw_has_thread (pm_ctx p) \<and> pm_worker p \<noteq> W_done"
  "\<not> fm_fault f \<Longrightarrow> fp_deleting (fm_owner f) \<Longrightarrow> fm_owner f \<noteq> FO_deleted \<Longrightarrow> fm_stops f 0 = FS_idle \<Longrightarrow>
     fp_step (Fp_owner ok) f = None \<Longrightarrow> fp_has_thread (fm_ctx f) \<and> fm_worker f \<noteq> F_done"
  by (cases "pm_owner p"; simp add: pw_step_def pw_join_def split: if_splits)
    (cases "fm_owner f"; simp add: fp_step_def fp_join_def split: if_splits)

lemma co_main_waits:
  assumes r: "reach co_initial co_step s" and sound: "\<not> fm_fault (co_fp s)" and cl: "co_past_input (co_main s)"
    and run: "\<not> has_exited (co_main s)" and stuck: "co_step (Co_main None True) s = None"
  shows "pm_worker (co_pw s) \<noteq> W_none \<and> pm_worker (co_pw s) \<noteq> W_done \<and> pm_stops (co_pw s) 0 = S_idle \<and>
      \<not> pw_is_running (pm_ctx (co_pw s)) \<or>
    fm_worker (co_fp s) \<noteq> F_none \<and> fm_worker (co_fp s) \<noteq> F_done"
proof -
  note ok = stops.holds [OF r] co_owners.holds [OF r]
  have fault: "\<not> pm_fault (co_pw s)" using ok(1) by (simp add: co_stops_ok_def)
  have threads: "pw_has_thread (pm_ctx (co_pw s)) \<longleftrightarrow> pm_worker (co_pw s) \<noteq> W_none"
    "fp_has_thread (fm_ctx (co_fp s)) \<longleftrightarrow> fm_worker (co_fp s) \<noteq> F_none"
    using co_fp_inv [OF r] co_pw_inv [OF r] by (auto simp: fp_inv_def pw_inv_def fp_threads_ok_def pw_threads_ok_def)
  have none: "main_at (co_main s) None True s = None" using stuck by (simp add: co_step_def)
  note stopping = fp_stop_moves(2) [OF sound, of 0 True] pw_stop_moves(2) [OF fault, of 0]
  show ?thesis
  proof (cases "co_main s")
    case M_deleting_pw
    then show ?thesis
      using none ok stopping(2) threads(1) co_owner_waits(1) [OF fault, of True]
      by (auto simp: co_owners_ok_def co_stops_ok_def with_None split: if_splits)
  next
    case M_deleting_fp
    then show ?thesis
      using none ok(2) stopping(1) threads(2) co_owner_waits(2) [OF sound, of True]
      by (auto simp: co_owners_ok_def with_None split: if_splits)
  next
    case M_delete_pw
    then show ?thesis
      using none ok fault
      by (auto simp: co_owners_ok_def co_stops_ok_def with_None pw_step_def kl_password_delete_def split: if_splits)
  qed (use none cl run in auto)
qed

lemma co_goes_on:
  assumes r: "reach co_initial co_step s" and sound: "\<not> fm_fault (co_fp s)" and cl: "co_closing s"
    and run: "\<not> has_exited (co_main s)"
  shows "\<exists>l s'. is_co_program_step l \<and> co_step l s = Some s'"
proof -
  have "co_past_input (co_main s)" using cl by (simp add: co_closing_def)
  from co_main_waits [OF r sound this run] co_workers_move [OF r sound]
  have "co_step (Co_main None True) s \<noteq> None \<or> co_step (Co_fp 0 None) s \<noteq> None \<or> co_step (Co_fp_handler True) s \<noteq> None \<or>
    (\<exists>pid. co_step (Co_pw pid) s \<noteq> None) \<or> co_step (Co_pw_handler True) s \<noteq> None"
    by blast
  then show ?thesis by (elim disjE exE) (metis is_co_program_step.simps not_None_eq)+
qed

lemma co_fault_final: "co_step l s = Some s' \<Longrightarrow> \<not> fm_fault (co_fp s') \<Longrightarrow> \<not> fm_fault (co_fp s)"
  using co_step_fp [of l s s'] by (auto simp: fp_step_def)

interpretation co_shutdown: must_end co_step "\<lambda>_. True" is_co_program_step "\<lambda>s. \<not> fm_fault (co_fp s)"
  "\<lambda>s. reach co_initial co_step s \<and> co_closing s" co_rank "\<lambda>s. has_exited (co_main s)"
  by unfold_locales
    (use co_fault_final reach.moves [of co_initial co_step] co_rank_step co_goes_on in \<open>(blast | metis)\<close>)+

lemma rank_bounds:
  "fp_stop_rank fs \<le> 5" "pw_stop_rank ps \<le> 3" "handler_rank h \<le> 13"
  by (cases fs; simp) ((cases ps; simp), (cases h; simp))

lemma co_rank_start:
  assumes r: "reach co_initial co_step s" and at: "co_main s = M_deleting_fp" and own: "fm_owner (co_fp s) = FD_join"
  shows "co_closing s \<and> co_rank s \<le> 404"
proof -
  have "\<not> fp_is_running (fm_ctx (co_fp s))" "pm_owner (co_pw s) = O_idle"
    "fm_stops (co_fp s) 0 = FS_idle" "pm_stops (co_pw s) 0 = S_idle"
    using co_owners.holds [OF r] stops.holds [OF r] at own by (auto simp: co_owners_ok_def co_stops_ok_def)
  then show ?thesis
    using at own fp_rank_max [of "fm_worker (co_fp s)"] pw_rank_max [of "pm_worker (co_pw s)"]
      rank_bounds(1) [of "fm_stops (co_fp s) 1"] rank_bounds(1) [of "fm_stops (co_fp s) 2"]
      rank_bounds(2) [of "pm_stops (co_pw s) 1"] rank_bounds(2) [of "pm_stops (co_pw s) 2"]
      rank_bounds(3) [of "co_fp_handler s"] rank_bounds(3) [of "co_pw_handler s"]
    by (simp add: co_rank_def fp_total_def pw_total_def co_closing_def)
qed

subsection \<open>Property\<close>



end
