(* ===== verification/Shutdown.thy ===== *)
theory Shutdown
  imports Authenticator Coordinator_Shutdown
begin

section \<open>The end of the C++ authenticator\<close>

text \<open>
  As in theory \<open>Coordinator_Shutdown\<close>, main thread, workers and handlers stop and join each other across
  the two objects, and cannot wait for each other for ever.  An invariant says where the owner of
  each object is and who is inside \<open>stop\<close>; a rank, the sum of the ranks of all program counters,
  falls with every step from the moment on when the scanner was stopped; and until \<open>main\<close> has returned
  some thread can move.  The contract is \<open>must_end\<close> of theory \<open>Machine\<close>; the ranks of the password
  object and of the handlers are those of the C program.
\<close>

subsection \<open>Who owns and who stops the objects\<close>

fun po_destructing :: "own_pc \<Rightarrow> bool" where
  "po_destructing N_stop = True"
| "po_destructing N_stop_join = True"
| "po_destructing N_clear = True"
| "po_destructing N_destroyed = True"
| "po_destructing _ = False"

fun fo_owner_ok :: "auth_pc \<Rightarrow> starter_pc \<Rightarrow> bool" where
  "fo_owner_ok A_starting pc = (\<not> fo_destructing pc)"
| "fo_owner_ok (A_destroying_fp r) pc = fo_destructing pc"
| "fo_owner_ok (A_exit r) pc = (pc = M_destroyed)"
| "fo_owner_ok _ pc = (pc = M_idle)"

fun po_owner_ok :: "auth_pc \<Rightarrow> own_pc \<Rightarrow> bool" where
  "po_owner_ok A_verifying pc = (\<not> po_destructing pc)"
| "po_owner_ok (A_destroying_pw r) pc = po_destructing pc"
| "po_owner_ok (A_destroy_fp r) pc = (pc = N_destroyed)"
| "po_owner_ok (A_destroying_fp r) pc = (pc = N_destroyed)"
| "po_owner_ok (A_exit r) pc = (pc = N_destroyed)"
| "po_owner_ok _ pc = (pc = N_idle)"

fun scanner_stopped :: "auth_pc \<Rightarrow> fp_stop_pc \<Rightarrow> bool" where
  "scanner_stopped A_stopping_fp x = (x \<noteq> FS_cas)"
| "scanner_stopped A_stop_fp x = False"
| "scanner_stopped pc x = past_input pc"

fun password_stopped :: "auth_pc \<Rightarrow> pw_stop_pc \<Rightarrow> bool" where
  "password_stopped A_stop_fp x = False"
| "password_stopped A_stopping_fp x = False"
| "password_stopped A_stop_pw x = False"
| "password_stopped A_stopping_pw x = (x \<noteq> S_cas)"
| "password_stopped pc x = past_input pc"

definition au_owners_ok :: "authenticator \<Rightarrow> bool" where
  "au_owners_ok s \<longleftrightarrow> fo_owner_ok (au_main s) (fo_owner (au_fp s)) \<and> po_owner_ok (au_main s) (po_owner (au_pw s)) \<and>
     (po_stops (au_pw s) 0 \<noteq> S_idle \<longrightarrow> po_owner (au_pw s) = N_stop \<or> au_main s = A_stopping_pw) \<and>
     (po_stops (au_pw s) 1 \<noteq> S_idle \<longrightarrow> au_pw_handler s = H_second) \<and>
     (po_stops (au_pw s) 2 \<noteq> S_idle \<longrightarrow> au_fp_handler s = H_first) \<and>
     (\<forall>t. 2 < t \<longrightarrow> po_stops (au_pw s) t = S_idle) \<and> au_pw_handler s \<noteq> H_error \<and>
     (scanner_stopped (au_main s) (fo_stops (au_fp s) 0) \<longrightarrow> \<not> fo_is_running (fo_object (au_fp s))) \<and>
     (password_stopped (au_main s) (po_stops (au_pw s) 0) \<longrightarrow> \<not> po_is_running (po_object (au_pw s)))"

lemma fo_label_frames:
  "fo_step (Fo_worker r msg) m = Some m' \<Longrightarrow> fo_owner m' = fo_owner m \<and> fo_stops m' = fo_stops m \<and>
     fo_is_running (fo_object m') = fo_is_running (fo_object m)"
  "fo_step Fo_start m = Some m' \<Longrightarrow> \<not> fo_destructing (fo_owner m') \<and> fo_owner m = M_idle \<and> fo_stops m' = fo_stops m \<and>
     fo_is_running (fo_object m') = fo_is_running (fo_object m)"
  "fo_step (Fo_owner ok reads) m = Some m' \<Longrightarrow> fo_destructing (fo_owner m') = fo_destructing (fo_owner m) \<and>
     fo_owner m \<noteq> M_idle \<and> fo_stops m' = fo_stops m \<and>
     (fo_destructing (fo_owner m) \<longrightarrow> fo_is_running (fo_object m') = fo_is_running (fo_object m))"
  "fo_step Fo_destruct m = Some m' \<Longrightarrow> fo_owner m' = M_stop \<and> fo_owner m = M_idle \<and> fo_stops m' = (fo_stops m)(0 := FS_cas) \<and>
     fo_is_running (fo_object m') = fo_is_running (fo_object m)"
  "fo_step (Fo_stop t) m = Some m' \<Longrightarrow> fo_owner m' = fo_owner m \<and> fo_stops m' = (fo_stops m)(t := FS_cas) \<and>
     fo_is_running (fo_object m') = fo_is_running (fo_object m)"
  "fo_step (Fo_stopper t ok) m = Some m' \<Longrightarrow> fo_owner m' = fo_owner m \<and> (\<forall>u. u \<noteq> t \<longrightarrow> fo_stops m' u = fo_stops m u) \<and>
     (fo_is_running (fo_object m') \<longrightarrow>
        fo_is_running (fo_object m) \<and> (fo_stops m t = FS_cas \<longrightarrow> fo_stops m' t = FS_cas))"
  unfolding fo_step_def
  by (clarsimp split: if_splits; (erule fo_step_elims)?; clarsimp simp: fo_calls split: if_splits option.splits)+

lemma po_label_frames:
  "po_step (Po_worker pid) m = Some m' \<Longrightarrow> po_owner m' = po_owner m \<and> po_stops m' = po_stops m \<and>
     (po_is_running (po_object m') \<longrightarrow> po_is_running (po_object m))"
  "po_step Po_interrupt m = Some m' \<Longrightarrow> po_owner m' = po_owner m \<and> po_stops m' = po_stops m \<and>
     po_is_running (po_object m') = po_is_running (po_object m)"
  "po_step (Po_child pid r1 r2 r3) m = Some m' \<Longrightarrow> po_owner m' = po_owner m \<and> po_stops m' = po_stops m \<and>
     po_is_running (po_object m') = po_is_running (po_object m)"
  "po_step (Po_verify pass) m = Some m' \<Longrightarrow> \<not> po_destructing (po_owner m') \<and> po_owner m = N_idle \<and> po_stops m' = po_stops m"
  "po_step (Po_owner ok) m = Some m' \<Longrightarrow> po_destructing (po_owner m') = po_destructing (po_owner m) \<and>
     po_owner m \<noteq> N_idle \<and> po_stops m' = po_stops m \<and> (po_owner m = N_stop \<longrightarrow> po_stops m 0 = S_idle) \<and>
     (po_is_running (po_object m') \<longrightarrow> po_is_running (po_object m))"
  "po_step Po_destruct m = Some m' \<Longrightarrow> po_owner m' = N_stop \<and> po_owner m = N_idle \<and> po_stops m' = (po_stops m)(0 := S_cas) \<and>
     po_is_running (po_object m') = po_is_running (po_object m)"
  "po_step (Po_stop t) m = Some m' \<Longrightarrow> po_owner m' = po_owner m \<and> po_stops m' = (po_stops m)(t := S_cas) \<and>
     po_is_running (po_object m') = po_is_running (po_object m)"
  "po_step (Po_stopper t) m = Some m' \<Longrightarrow> po_owner m' = po_owner m \<and> (\<forall>u. u \<noteq> t \<longrightarrow> po_stops m' u = po_stops m u) \<and>
     (po_is_running (po_object m') \<longrightarrow>
        po_is_running (po_object m) \<and> (po_stops m t = S_cas \<longrightarrow> po_stops m' t = S_cas))"
  unfolding po_step_def
  by (clarsimp split: if_splits; (erule po_step_elims)?; clarsimp simp: po_step_simps split: if_splits pam_child.splits)+

lemma run_calls_no_error: "run_calls pc \<noteq> H_error"
  by (cases pc) simp_all

lemmas label_frames = fo_label_frames po_label_frames

lemma au_owners_ok_step:
  assumes "au_owners_ok s" and "au_stops_ok s" and "au_step l s = Some s'"
  shows "au_owners_ok s'"
  using assms(3,1,2)
  by - (erule au_step_cases; (erule au_step_elims)?;
    clarsimp simp: au_moves au_owners_ok_def au_stops_ok_def run_calls_no_error
      split: if_splits option.splits prod.splits;
    (frule label_frames; (frule label_frames)?; clarsimp simp: run_calls_no_error; fail)?)

interpretation owners: machine_invariant au_initial au_step au_owners_ok
proof
  show "au_owners_ok s" if "au_initial s" for s
  proof -
    note parts = au_initial_parts [OF that]
    obtain username user_data handlers where
      "au_pw s = po_fresh (fst (Password_set_handlers (Password_construct username user_data) handlers))"
      using parts(2) by (auto simp: po_initial_def)
    then have "po_owner (au_pw s) = N_idle" "po_stops (au_pw s) = (\<lambda>_. S_idle)" by (simp_all add: po_fresh_def)
    then show ?thesis using fo_initial_fields [OF parts(1)]
      by (simp add: au_owners_ok_def parts)
  qed
  show "au_owners_ok s'" if "reach au_initial au_step s" "au_owners_ok s" "au_step l s = Some s'" for l s s'
    using au_owners_ok_step [OF that(2) lifetimes.holds [OF that(1)] that(3)] .
qed

subsection \<open>The ranks of the objects\<close>

fun starter_rank :: "starter_pc \<Rightarrow> nat" where
  "starter_rank M_stop = 3"
| "starter_rank M_stop_join = 2"
| "starter_rank M_release = 1"
| "starter_rank _ = 0"

definition fo_rank :: "fingerprint_machine \<Rightarrow> nat" where
  "fo_rank m = 14 * scan_rank (fo_worker m) + starter_rank (fo_owner m) +
     fp_stop_rank (fo_stops m 0) + fp_stop_rank (fo_stops m 1) + fp_stop_rank (fo_stops m 2)"

definition fo_closing :: "fingerprint_machine \<Rightarrow> bool" where
  "fo_closing m \<longleftrightarrow> \<not> fo_is_running (fo_object m) \<and> (fo_owner m = M_idle \<or> fo_destructing (fo_owner m))"

fun fo_takes :: "fo_label \<Rightarrow> nat" where
  "fo_takes (Fo_stop t) = 5"
| "fo_takes Fo_destruct = 8"
| "fo_takes _ = 0"

fun fo_gives :: "fo_label \<Rightarrow> nat" where
  "fo_gives (Fo_worker r msg) = 14"
| "fo_gives (Fo_owner ok reads) = 1"
| "fo_gives (Fo_stopper t ok) = 1"
| "fo_gives _ = 0"

fun fo_by_program :: "fo_label \<Rightarrow> bool" where
  "fo_by_program Fo_start = False"
| "fo_by_program (Fo_stop t) = (t \<le> 2)"
| "fo_by_program (Fo_stopper t ok) = (t \<le> 2)"
| "fo_by_program _ = True"

lemma fo_rank_step:
  assumes "fo_step l m = Some m'" and "fo_threads_ok m" and "fo_closing m" and "fo_by_program l" and "\<not> fo_fault m'"
  shows "fo_closing m' \<and> fo_rank m' + fo_gives l \<le> fo_rank m + fo_takes l"
  using assms
  by - (erule fo_step_cases; (erule fo_step_elims)?;
    clarsimp simp: fo_threads_ok_def fo_closing_def fo_rank_def fo_calls le_two split: if_splits option.splits;
    (elim disjE)?; clarsimp)

definition po_rank :: "password_machine \<Rightarrow> nat" where
  "po_rank m = pw_total (as_module m)"

definition po_closing :: "password_machine \<Rightarrow> bool" where
  "po_closing m \<longleftrightarrow> po_owner m = N_idle \<or> po_destructing (po_owner m)"

lemma po_closing_module: "po_closing m \<longleftrightarrow> pw_closing (as_module m)"
  unfolding po_closing_def pw_closing_def by (cases "po_owner m") simp_all

text \<open>The object's rank is that of the module whose steps it makes.\<close>

lemma po_rank_step:
  assumes st: "po_step l m = Some m'" and ok: "pw_threads_ok (as_module m)" and cl: "po_closing m"
    and sound: "\<not> po_fault m'" and k: "k = hd (module_labels m l)" and prog: "pw_by_program k"
  shows "po_closing m' \<and> po_rank m' + pw_gives k \<le> po_rank m + pw_takes k"
proof -
  have "po_owner m \<noteq> N_catch_thread" using cl by (auto simp: po_closing_def)
  then have "module_labels m l = [k]" using k by (cases l) simp_all
  with module_step [OF ok st] have "pw_step k (as_module m) = Some (as_module m')"
    by (simp split: option.splits)
  from pw_total_step [OF this ok] cl sound prog show ?thesis
    by (simp add: po_closing_module po_rank_def)
qed

subsection \<open>The rank of the program\<close>

fun main_rank :: "auth_pc \<Rightarrow> nat" where
  "main_rank A_stop_pw = 24"
| "main_rank A_stopping_pw = 20"
| "main_rank A_result = 19"
| "main_rank (A_destroy_pw r) = 18"
| "main_rank (A_destroying_pw r) = 11"
| "main_rank (A_destroy_fp r) = 10"
| "main_rank (A_destroying_fp r) = 1"
| "main_rank _ = 0"

fun closing :: "auth_pc \<Rightarrow> bool" where
  "closing A_stop_pw = True"
| "closing A_stopping_pw = True"
| "closing A_result = True"
| "closing (A_destroy_pw r) = True"
| "closing (A_destroying_pw r) = True"
| "closing (A_destroy_fp r) = True"
| "closing (A_destroying_fp r) = True"
| "closing (A_exit r) = True"
| "closing _ = False"

definition au_rank :: "authenticator \<Rightarrow> nat" where
  "au_rank s = fo_rank (au_fp s) + po_rank (au_pw s) + handler_rank (au_fp_handler s) +
     handler_rank (au_pw_handler s) + main_rank (au_main s)"

fun is_program_step :: "au_label \<Rightarrow> bool" where
  "is_program_step Au_signal = False"
| "is_program_step (Au_child pid start authenticate acct_mgmt) = False"
| "is_program_step _ = True"

lemma calls_rank: "handler_rank (scan_calls pc) \<le> 13" "handler_rank (run_calls pc') \<le> 13"
  by (cases pc; simp) (cases pc'; simp)

lemma closing_stopped: "closing pc \<Longrightarrow> scanner_stopped pc x"
  by (cases pc) simp_all

lemma closing_owners:
  assumes "closing pc"
  shows "fo_owner_ok pc x \<Longrightarrow> x = M_idle \<or> fo_destructing x" "po_owner_ok pc y \<Longrightarrow> y = N_idle \<or> po_destructing y"
  using assms by (cases pc; auto)+

lemma au_closing:
  assumes "au_owners_ok s" and "closing (au_main s)"
  shows "fo_closing (au_fp s)" "po_closing (au_pw s)"
  using assms closing_stopped [OF assms(2)] closing_owners [OF assms(2)]
  unfolding au_owners_ok_def fo_closing_def po_closing_def by metis+

lemmas fo_rank_frames = fo_rank_step [of "Fo_worker r msg" for r msg, simplified] fo_rank_step [of "Fo_owner ok reads" for ok reads, simplified]
  fo_rank_step [of Fo_destruct, simplified] fo_rank_step [of "Fo_stop t" for t, simplified]
  fo_rank_step [of "Fo_stopper t ok" for t ok, simplified]
lemmas po_rank_frames =
  po_rank_step [of "Po_worker pid" _ _ "Pw_worker pid" for pid, simplified] po_rank_step [of Po_interrupt _ _ "Pw_interrupt 0", simplified]
  po_rank_step [of "Po_child pid r1 r2 r3" _ _ "Pw_child pid r1 r2 r3" for pid r1 r2 r3, simplified]
  po_rank_step [of "Po_owner ok" _ _ "Pw_owner ok" for ok, simplified] po_rank_step [of Po_destruct _ _ Pw_delete, simplified]
  po_rank_step [of "Po_stop t" _ _ "Pw_stop t" for t, simplified] po_rank_step [of "Po_stopper t" _ _ "Pw_stopper t" for t, simplified]

lemma au_rank_step:
  assumes r: "reach au_initial au_step s" and cl: "closing (au_main s)" and st: "au_step l s = Some s'"
    and sound: "\<not> po_fault (au_pw s')"
  shows "closing (au_main s') \<and> (if is_program_step l then Suc (au_rank s') else au_rank s') \<le> au_rank s"
proof -
  have fp: "fo_threads_ok (au_fp s)" and pw: "pw_threads_ok (as_module (au_pw s))"
    using au_fp_inv [OF r] au_pw_inv [OF r] by (auto simp: fo_inv_def pw_inv_def)
  note closed = au_closing [OF owners.holds [OF r] cl]
  have "\<not> fo_fault (au_fp s')"
    using lifetimes.holds [OF reach.moves [OF r st]] by (simp add: au_stops_ok_def)
  note ranks = fo_rank_frames [OF _ fp closed(1)] po_rank_frames [OF _ pw closed(2)]
  show ?thesis
    using st cl sound \<open>\<not> fo_fault (au_fp s')\<close> calls_rank(1) [of "fo_worker (au_fp s)"] calls_rank(2) [of "po_worker (au_pw s)"]
    by - (erule au_step_cases; (erule au_step_elims)?;
      clarsimp simp: au_moves au_rank_def split: if_splits option.splits prod.splits;
      (frule ranks; simp; fail)?)
qed

subsection \<open>Nobody waits for ever\<close>

lemma fo_stop_moves:
  "\<not> fo_fault f \<Longrightarrow> (\<exists>f'. fo_step (Fo_stop t) f = Some f') \<longleftrightarrow> fo_stops f t = FS_idle"
  "\<not> fo_fault f \<Longrightarrow> (\<exists>f'. fo_step (Fo_stopper t ok) f = Some f') \<longleftrightarrow> fo_stops f t \<noteq> FS_idle"
  by (cases "fo_stops f t"; simp add: fo_step_def Fingerprint_stop_def)+

lemma po_stop_moves:
  "\<not> po_fault p \<Longrightarrow> (\<exists>p'. po_step (Po_stop t) p = Some p') \<longleftrightarrow> po_stops p t = S_idle"
  "\<not> po_fault p \<Longrightarrow> (\<exists>p'. po_step (Po_stopper t) p = Some p') \<longleftrightarrow> po_stops p t \<noteq> S_idle"
  by (cases "po_stops p t"; simp add: po_step_def Password_stop_def Let_def)+

lemma via_None: "via_fp l s = None \<longleftrightarrow> fo_step l (au_fp s) = None" "via_pw k s = None \<longleftrightarrow> po_step k (au_pw s) = None"
  by (auto simp: via_fp_def via_pw_def split: option.splits)

lemma via_moves:
  "(\<exists>s'. via_fp l s = Some s') \<longleftrightarrow> (\<exists>f. fo_step l (au_fp s) = Some f)"
  "(\<exists>s'. via_pw k s = Some s') \<longleftrightarrow> (\<exists>p. po_step k (au_pw s) = Some p)"
  by (auto simp: via_fp_def via_pw_def split: option.splits)

lemma handlers_move:
  assumes "au_stops_ok s" and "au_owners_ok s" and "\<not> po_fault (au_pw s)"
  shows "au_fp_handler s \<noteq> H_none \<Longrightarrow> au_step (Au_fp_handler ok) s \<noteq> None"
    and "au_pw_handler s \<noteq> H_none \<Longrightarrow> au_step (Au_pw_handler ok) s \<noteq> None"
proof -
  have "\<not> fo_fault (au_fp s)" using assms(1) by (simp add: au_stops_ok_def)
  note moves = fo_stop_moves [OF this] po_stop_moves [OF assms(3)] via_moves au_step_def
  have idle: "au_pw_handler s \<noteq> H_first \<Longrightarrow> fo_stops (au_fp s) 1 = FS_idle"
    "au_fp_handler s \<noteq> H_second \<Longrightarrow> fo_stops (au_fp s) 2 = FS_idle"
    "au_pw_handler s \<noteq> H_second \<Longrightarrow> po_stops (au_pw s) 1 = S_idle"
    "au_fp_handler s \<noteq> H_first \<Longrightarrow> po_stops (au_pw s) 2 = S_idle" "au_pw_handler s \<noteq> H_error"
    using assms(1,2) by (auto simp: au_stops_ok_def au_owners_ok_def)
  show "au_step (Au_fp_handler ok) s \<noteq> None" if "au_fp_handler s \<noteq> H_none"
    using that idle(2,4) by (cases "au_fp_handler s") (simp_all add: moves)
  show "au_step (Au_pw_handler ok) s \<noteq> None" if "au_pw_handler s \<noteq> H_none"
    using that idle(1,3,5) by (cases "au_pw_handler s") (simp_all add: moves)
qed

lemma workers_move:
  assumes r: "reach au_initial au_step s" and sound: "\<not> po_fault (au_pw s)"
  shows "fo_worker (au_fp s) \<noteq> G_none \<Longrightarrow> fo_worker (au_fp s) \<noteq> G_returned \<Longrightarrow>
      au_step (Au_fp 0 None) s \<noteq> None \<or> au_step (Au_fp_handler True) s \<noteq> None"
    and "po_worker (au_pw s) \<noteq> R_none \<Longrightarrow> po_worker (au_pw s) \<noteq> R_done \<Longrightarrow>
      \<not> po_is_running (po_object (au_pw s)) \<Longrightarrow> po_stops (au_pw s) 0 = S_idle \<Longrightarrow>
      (\<exists>pid. au_step (Au_pw pid) s \<noteq> None) \<or> au_step (Au_pw_handler True) s \<noteq> None \<or> au_step (Au_fp_handler True) s \<noteq> None"
proof -
  note ok = lifetimes.holds [OF r] owners.holds [OF r]
  note handlers = handlers_move [OF ok sound]
  show "au_step (Au_fp 0 None) s \<noteq> None \<or> au_step (Au_fp_handler True) s \<noteq> None"
    if "fo_worker (au_fp s) \<noteq> G_none" "fo_worker (au_fp s) \<noteq> G_returned"
    using handlers(1) fo_worker_moves [OF _ that, of 0 None] au_fp_inv [OF r]
    by (cases "au_fp_handler s = H_none") (auto simp: fo_inv_def au_step_def scan_moves_on_def via_moves)
  show "(\<exists>pid. au_step (Au_pw pid) s \<noteq> None) \<or> au_step (Au_pw_handler True) s \<noteq> None \<or> au_step (Au_fp_handler True) s \<noteq> None"
    if w: "po_worker (au_pw s) \<noteq> R_none" "po_worker (au_pw s) \<noteq> R_done"
      and stopped: "\<not> po_is_running (po_object (au_pw s))" and idle: "po_stops (au_pw s) 0 = S_idle"
  proof (cases "au_pw_handler s = H_none \<and> au_fp_handler s = H_none")
    case True
    have "\<forall>t. po_stops (au_pw s) t = S_idle"
    proof
      fix t :: nat
      consider "t = 0" | "t = 1" | "t = 2" | "2 < t" by linarith
      then show "po_stops (au_pw s) t = S_idle"
        using ok(2) idle True by cases (auto simp: au_owners_ok_def)
    qed
    from Password_stop_cancels [OF run_part.reach_abs [OF r] stopped this w] True
    show ?thesis by (auto simp: au_step_def run_moves_on_def via_moves)
  qed (use handlers in blast)
qed

lemma owner_waits:
  "\<not> po_fault p \<Longrightarrow> po_destructing (po_owner p) \<Longrightarrow> po_owner p \<noteq> N_destroyed \<Longrightarrow> po_stops p 0 = S_idle \<Longrightarrow>
     po_step (Po_owner ok) p = None \<Longrightarrow> po_worker_thread (po_object p) \<and> po_worker p \<noteq> R_done"
  "\<not> fo_fault f \<Longrightarrow> fo_destructing (fo_owner f) \<Longrightarrow> fo_owner f \<noteq> M_destroyed \<Longrightarrow> fo_stops f 0 = FS_idle \<Longrightarrow>
     fo_step (Fo_owner ok reads) f = None \<Longrightarrow> fo_worker_thread (fo_object f) \<and> fo_worker f \<noteq> G_returned"
  by (cases "po_owner p"; simp add: po_step_def po_join_def split: if_splits)
    (cases "fo_owner f"; simp add: fo_step_def fo_join_def split: if_splits)

text \<open>When the main thread cannot move, it waits in a destructor for a worker.\<close>

lemma main_waits:
  assumes r: "reach au_initial au_step s" and sound: "\<not> po_fault (au_pw s)" and cl: "closing (au_main s)"
    and run: "\<not> is_exit (au_main s)" and stuck: "au_step (Au_main None True 0) s = None"
  shows "po_worker (au_pw s) \<noteq> R_none \<and> po_worker (au_pw s) \<noteq> R_done \<and> po_stops (au_pw s) 0 = S_idle \<and>
      \<not> po_is_running (po_object (au_pw s)) \<or>
    fo_worker (au_fp s) \<noteq> G_none \<and> fo_worker (au_fp s) \<noteq> G_returned"
proof -
  note ok = lifetimes.holds [OF r] owners.holds [OF r]
  have fault: "\<not> fo_fault (au_fp s)" using ok(1) by (simp add: au_stops_ok_def)
  have threads: "po_worker_thread (po_object (au_pw s)) \<longleftrightarrow> po_worker (au_pw s) \<noteq> R_none"
    "fo_worker_thread (fo_object (au_fp s)) \<longleftrightarrow> fo_worker (au_fp s) \<noteq> G_none"
    using au_fp_inv [OF r] au_pw_inv [OF r] by (auto simp: fo_inv_def pw_inv_def fo_threads_ok_def pw_threads_ok_def)
  have threads: "po_worker_thread (po_object (au_pw s)) \<longleftrightarrow> po_worker (au_pw s) \<noteq> R_none"
    "fo_worker_thread (fo_object (au_fp s)) \<longleftrightarrow> fo_worker (au_fp s) \<noteq> G_none"
    using au_fp_inv [OF r] au_pw_inv [OF r] by (auto simp: fo_inv_def pw_inv_def fo_threads_ok_def pw_threads_ok_def)
  have none: "auth_main_at (au_main s) None True 0 s = None" using stuck by (simp add: au_step_def)
  note stops = fo_stop_moves [OF fault, of 0] po_stop_moves [OF sound, of 0]
  note calls = via_None fo_step_def [of Fo_destruct] po_step_def [of Po_destruct] Fingerprint_destruct_def Password_destruct_def
  show ?thesis
  proof (cases "au_main s")
    case (A_destroying_pw r)
    then show ?thesis
      using none ok(2) stops(4) threads(1) owner_waits(1) [OF sound, of True]
      by (auto simp: au_owners_ok_def via_None split: if_splits)
  next
    case (A_destroying_fp r)
    then show ?thesis
      using none ok(2) stops(2) [of True] threads(2) owner_waits(2) [OF fault, of True 0]
      by (auto simp: au_owners_ok_def via_None split: if_splits)
  next
    case (A_stopping_pw)
    then show ?thesis using none stops(4) by (auto simp: via_None split: if_splits)
  next
    case (A_stop_pw)
    then show ?thesis using none stops(3) ok(2) by (auto simp: via_None au_owners_ok_def)
  qed (use none cl run ok sound fault in \<open>auto simp: calls au_stops_ok_def au_owners_ok_def split: if_splits\<close>)
qed

lemma au_goes_on:
  assumes r: "reach au_initial au_step s" and sound: "\<not> po_fault (au_pw s)" and cl: "closing (au_main s)"
    and run: "\<not> is_exit (au_main s)"
  shows "\<exists>l s'. is_program_step l \<and> au_step l s = Some s'"
proof -
  from main_waits [OF r sound cl run] workers_move [OF r sound]
  have "au_step (Au_main None True 0) s \<noteq> None \<or> au_step (Au_fp 0 None) s \<noteq> None \<or> au_step (Au_fp_handler True) s \<noteq> None \<or>
    (\<exists>pid. au_step (Au_pw pid) s \<noteq> None) \<or> au_step (Au_pw_handler True) s \<noteq> None"
    by blast
  then show ?thesis by (elim disjE exE) (metis is_program_step.simps not_None_eq)+
qed


lemma au_fault_final: "au_step l s = Some s' \<Longrightarrow> \<not> po_fault (au_pw s') \<Longrightarrow> \<not> po_fault (au_pw s)"
  using au_step_pw [of l s s'] by (auto simp: po_step_def)

interpretation shutdown: must_end au_step "\<lambda>_. True" is_program_step "\<lambda>s. \<not> po_fault (au_pw s)"
  "\<lambda>s. reach au_initial au_step s \<and> closing (au_main s)" au_rank "\<lambda>s. is_exit (au_main s)"
  by unfold_locales
    (use au_fault_final reach.moves [of au_initial au_step] au_rank_step au_goes_on in \<open>(blast | metis)\<close>)+

lemma au_rank_max:
  assumes r: "reach au_initial au_step s" and at: "au_main s = A_stop_pw"
  shows "au_rank s \<le> 416"
proof -
  have "fo_owner (au_fp s) = M_idle" "po_owner (au_pw s) = N_idle"
    "fo_stops (au_fp s) 0 = FS_idle" "po_stops (au_pw s) 0 = S_idle"
    using owners.holds [OF r] lifetimes.holds [OF r] at by (auto simp: au_owners_ok_def au_stops_ok_def)
  then show ?thesis
    using at scan_rank_max [of "fo_worker (au_fp s)"] pw_rank_max [of "module_pc (po_worker (au_pw s))"]
      rank_bounds(1) [of "fo_stops (au_fp s) 1"] rank_bounds(1) [of "fo_stops (au_fp s) 2"]
      rank_bounds(2) [of "po_stops (au_pw s) 1"] rank_bounds(2) [of "po_stops (au_pw s) 2"]
      rank_bounds(3) [of "au_fp_handler s"] rank_bounds(3) [of "au_pw_handler s"]
    by (simp add: au_rank_def fo_rank_def po_rank_def pw_total_def)
qed

definition au_closing_run :: "au_label list" where
  "au_closing_run = au_typed @ [Au_child 42 0 0 0] @ replicate 4 (Au_pw 0) @ replicate 8 (Au_pw_handler True) @
     replicate 5 (Au_pw 0) @ replicate 2 (Au_fp 0 None) @ go_main 6"

subsection \<open>Property\<close>



end
